(* ===== verification/Xal_Prelude.thy ===== *)
theory Xal_Prelude
  imports Main "HOL-Library.Word" "HOL-Library.List_Lexorder" "HOL-Library.Multiset"
begin

text \<open>
  The vocabulary the component theories share: the C integer types as words, error numbers and
  results, NUL-terminated byte strings with \<open>strcmp\<close>, \<open>strncmp\<close> and \<open>strchr\<close>, raw memory with its
  big-endian loads, and the two C library routines the program relies on, \<open>bsearch\<close> and
  \<open>qsort\<close>, with the contract of a three-way comparison function as a locale.
\<close>

unbundle bit_operations_syntax

named_theorems xal_defs \<open>definitions unfolded by the component proofs\<close>
named_theorems frame_simps \<open>what an operation leaves unchanged\<close>

section \<open>Integers, errors and results\<close>

type_synonym u8 = "8 word"
type_synonym u16 = "16 word"
type_synonym u32 = "32 word"
type_synonym u64 = "64 word"

text \<open>
  Error numbers the program itself names. An error number that only travels through the program
  from the operating system is \<open>E_os\<close>.
\<close>

datatype errno =
    EINVAL | ENOMEM | EOVERFLOW | ESTALE | ENOENT | ENOTDIR | EBUSY | ENODATA | ENAMETOOLONG
  | EIO | ENOSYS | EAGAIN | EXDEV | EPROTO | EDEADLK | EEXIST | ELOOP | EINTR | ESRCH | ENOSPC
  | EPERM | EOPNOTSUPP | E_os nat

text \<open>
  How a call can end other than by returning a value: with a negative error number, with a failed
  \<open>assert\<close> or a trap (the process aborts), with a value that C leaves indeterminate, or, in a model
  that counts steps, with the fuel used up.
\<close>

datatype fault = Errno errno | Abort | Undef | Out_of_fuel

type_synonym 'a res = "fault + 'a"

abbreviation Fail :: "errno \<Rightarrow> 'a res" where
  "Fail e \<equiv> Inl (Errno e)"

abbreviation Ok :: "'a \<Rightarrow> 'a res" where
  "Ok v \<equiv> Inr v"

text \<open>
  \<open>bind_res r f\<close> is the C idiom \<open>err = ...; if (err) return err;\<close>: go on with \<open>f\<close> on success, return the
  error as it is otherwise. The second form threads a state that a failing call may have changed.
\<close>

definition bind_res :: "'a res \<Rightarrow> ('a \<Rightarrow> 'b res) \<Rightarrow> 'b res" where
  "bind_res r f = (case r of Inl e \<Rightarrow> Inl e | Inr v \<Rightarrow> f v)"

definition bind_st :: "'a res \<times> 's \<Rightarrow> ('a \<Rightarrow> 's \<Rightarrow> 'b res \<times> 's) \<Rightarrow> 'b res \<times> 's" where
  "bind_st r f = (case r of (Inl e, s) \<Rightarrow> (Inl e, s) | (Inr v, s) \<Rightarrow> f v s)"

lemma bind_res_simps [simp]:
  "bind_res (Inl e) f = Inl e" "bind_res (Inr v) f = f v"
  by (simp_all add: bind_res_def)

lemma bind_res_Ok_iff: "bind_res r f = Inr w \<longleftrightarrow> (\<exists>v. r = Inr v \<and> f v = Inr w)"
  by (cases r) simp_all

lemma bind_st_simps [simp]:
  "bind_st (Inl e, s) f = (Inl e, s)" "bind_st (Inr v, s) f = f v s"
  by (simp_all add: bind_st_def)

lemma bind_st_Ok_iff:
  "bind_st r f = (Inr w, t) \<longleftrightarrow> (\<exists>v s. r = (Inr v, s) \<and> f v s = (Inr w, t))"
  by (cases r; cases "fst r") (auto simp: bind_st_def)

lemma bind_st_OkE:
  assumes "bind_st r f = (Inr w, t)"
  obtains v s where "r = (Inr v, s)" "f v s = (Inr w, t)"
  using assms by (auto simp: bind_st_Ok_iff)

text \<open>
  A \<open>for\<close> loop over the values its counter takes, left with the first error.
\<close>

fun for_st :: "'i list \<Rightarrow> ('i \<Rightarrow> 's \<Rightarrow> unit res \<times> 's) \<Rightarrow> 's \<Rightarrow> unit res \<times> 's" where
  "for_st [] f s = (Ok (), s)"
| "for_st (i # is) f s = bind_st (f i s) (\<lambda>_ s. for_st is f s)"

lemma for_st_inv:
  assumes "for_st is f s = (Ok (), t)" "P s"
    and "\<And>i s t. i \<in> set is \<Longrightarrow> P s \<Longrightarrow> f i s = (Ok (), t) \<Longrightarrow> P t"
  shows "P t"
  using assms
proof (induction "is" arbitrary: s)
  case (Cons i "is")
  then show ?case by (auto elim!: bind_st_OkE) (metis (full_types) list.set_intros old.unit.exhaust)
qed simp

text \<open>What holds of the state after every step holds at the end, success or not.\<close>

lemma for_st_keeps:
  assumes "for_st is f s = (r, t)" "P s" "\<And>i s r t. i \<in> set is \<Longrightarrow> P s \<Longrightarrow> f i s = (r, t) \<Longrightarrow> P t"
  shows "P t"
  using assms
proof (induction "is" arbitrary: s)
  case (Cons i "is")
  obtain r' s' where f: "f i s = (r', s')" by fastforce
  then have "P s'" using Cons.prems by auto
  moreover have "\<And>j s r t. j \<in> set is \<Longrightarrow> P s \<Longrightarrow> f j s = (r, t) \<Longrightarrow> P t"
    using Cons.prems(3) by (meson list.set_intros(2))
  ultimately show ?case using Cons.IH [of s'] Cons.prems(1) f by (cases r') auto
qed simp

lemma for_st_append:
  "for_st (is @ js) f s = bind_st (for_st is f s) (\<lambda>_ s. for_st js f s)"
proof (induction "is" arbitrary: s)
  case (Cons i "is")
  obtain r s' where "f i s = (r, s')" by fastforce
  then show ?case using Cons by (cases r) auto
qed simp

text \<open>An invariant that follows the counter.\<close>

lemma for_st_upt_inv:
  assumes "for_st [0..<n] f s = (Ok (), t)" "I 0 s"
    and "\<And>k s t. k < n \<Longrightarrow> I k s \<Longrightarrow> f k s = (Ok (), t) \<Longrightarrow> I (Suc k) t"
  shows "I n t"
  using assms
proof (induction n arbitrary: t)
  case (Suc n)
  from Suc.prems(1) obtain u where u: "for_st [0..<n] f s = (Ok (), u)" "f n u = (Ok (), t)"
    by (auto simp: for_st_append bind_st_Ok_iff)
  then have "I n u" using Suc.IH [OF u(1) Suc.prems(2)] Suc.prems(3) by simp
  then show ?case using Suc.prems(3) [of n u t] u(2) by simp
qed simp

text \<open>An invariant that follows the elements gone through.\<close>

lemma for_st_prefix_inv:
  assumes "for_st xs f s = (Ok (), t)" "I [] s"
    and "\<And>seen x rest s t. xs = seen @ x # rest \<Longrightarrow> I seen s \<Longrightarrow> f x s = (Ok (), t) \<Longrightarrow> I (seen @ [x]) t"
  shows "I xs t"
proof -
  have "for_st ys f s = (Ok (), t) \<Longrightarrow> I seen s \<Longrightarrow> xs = seen @ ys \<Longrightarrow> I xs t" for ys seen s
  proof (induction ys arbitrary: seen s)
    case (Cons y ys)
    then obtain s1 where s1: "f y s = (Ok (), s1)" "for_st ys f s1 = (Ok (), t)"
      by (auto elim!: bind_st_OkE)
    have "I (seen @ [y]) s1" using assms(3) Cons.prems(2,3) s1(1) by blast
    then show ?case using Cons.IH [OF s1(2)] Cons.prems(3) by simp
  qed simp
  from this [of xs s "[]"] show ?thesis using assms(1,2) by simp
qed

lemma bind_st_cong: "(\<And>v t. r = (Inr v, t) \<Longrightarrow> f v t = g v t) \<Longrightarrow> bind_st r f = bind_st r g"
  by (cases r; cases "fst r") auto

lemma for_st_upt_cong:
  assumes "I 0 s" "\<And>k s. k < n \<Longrightarrow> I k s \<Longrightarrow> f k s = g k s"
    and "\<And>k s t. k < n \<Longrightarrow> I k s \<Longrightarrow> f k s = (Ok (), t) \<Longrightarrow> I (Suc k) t"
  shows "for_st [0..<n] f s = for_st [0..<n] g s"
  using assms
proof (induction n)
  case (Suc n)
  have eq: "for_st [0..<n] f s = for_st [0..<n] g s" by (rule Suc.IH) (use Suc.prems in auto)
  have "for_st [n] f t = for_st [n] g t" if "for_st [0..<n] f s = (Inr v, t)" for v t
  proof -
    have "I n t" by (rule for_st_upt_inv [where f = f and I = I]) (use that Suc.prems in auto)
    then have "f n t = g n t" using Suc.prems(2) by simp
    then show ?thesis by (auto intro: bind_st_cong)
  qed
  then show ?case unfolding upt_Suc_append [OF le0] for_st_append eq [symmetric] by (rule bind_st_cong)
qed simp

section \<open>Word arithmetic without wrap-around\<close>

lemma unat_add_no_wrap:
  "unat (a :: 'a::len word) + unat b < 2 ^ LENGTH('a) \<Longrightarrow> unat (a + b) = unat a + unat b"
  by (simp add: unat_word_ariths)

lemma unat_Suc_less: "(i :: 'a::len word) < n \<Longrightarrow> unat (i + 1) = unat i + 1"
proof -
  assume less: "i < n"
  then have "Suc (unat i) \<le> unat n" by (simp add: word_less_nat_alt)
  also have "unat n < 2 ^ LENGTH('a)" by (rule unsigned_less)
  finally show ?thesis by (simp add: unat_word_ariths)
qed

lemma unat_sub_le: "(b :: 'a::len word) \<le> a \<Longrightarrow> unat (a - b) = unat a - unat b"
  by (simp add: unat_sub)

lemma unat_mult_no_wrap:
  "unat (a :: 'a::len word) * unat b < 2 ^ LENGTH('a) \<Longrightarrow> unat (a * b) = unat a * unat b"
  by (simp add: unat_word_ariths)

lemma unat_ucast_up [simp]:
  "LENGTH('a) \<le> LENGTH('b) \<Longrightarrow> unat (ucast (w :: 'a::len word) :: 'b::len word) = unat w"
proof -
  assume le: "LENGTH('a) \<le> LENGTH('b)"
  have "unat w < 2 ^ LENGTH('a)" by (rule unsigned_less)
  also have "\<dots> \<le> 2 ^ LENGTH('b)" using le by simp
  finally show ?thesis by (simp add: unsigned_ucast_eq take_bit_nat_eq_self)
qed

section \<open>Byte strings\<close>

text \<open>
  A C string is the list of its bytes before the terminating NUL. A fixed \<open>char\<close> array is the list of
  the bytes stored in it; \<open>cstr\<close> is what the string functions see of it.
\<close>

type_synonym cstring = "u8 list"

definition str :: "string \<Rightarrow> cstring" where
  "str s = map (\<lambda>c. of_nat (of_char c)) s"

abbreviation (input) slash :: u8 where "slash \<equiv> 0x2F"
abbreviation (input) dot :: u8 where "dot \<equiv> 0x2E"

definition cstr :: "u8 list \<Rightarrow> cstring" where
  "cstr bs = takeWhile (\<lambda>b. b \<noteq> 0) bs"

lemma cstr_id [simp]: "0 \<notin> set s \<Longrightarrow> cstr s = s"
  by (induction s) (auto simp: cstr_def)

lemma zero_notin_cstr [simp]: "0 \<notin> set (cstr s)"
  by (auto simp: cstr_def dest: set_takeWhileD)

fun strcmp :: "cstring \<Rightarrow> cstring \<Rightarrow> int" where
  "strcmp [] [] = 0"
| "strcmp [] (y # ys) = - uint y"
| "strcmp (x # xs) [] = uint x"
| "strcmp (x # xs) (y # ys) = (if x = y then strcmp xs ys else uint x - uint y)"

text \<open>\<open>strncmp(a, b, n)\<close> compares at most \<open>n\<close> bytes.\<close>

definition strncmp :: "cstring \<Rightarrow> cstring \<Rightarrow> nat \<Rightarrow> int" where
  "strncmp a b n = strcmp (take n a) (take n b)"

text \<open>
  On strings without a NUL byte, \<open>strcmp\<close> decides the lexicographic order of unsigned bytes.
\<close>

lemma uint_pos_iff: "0 < uint (y :: 'a::len word) \<longleftrightarrow> y \<noteq> 0"
  by (metis unsigned_0 uint_ge_0 order.strict_iff_order unsigned_word_eqI)

lemma strcmp_neg_iff: "0 \<notin> set a \<Longrightarrow> 0 \<notin> set b \<Longrightarrow> strcmp a b < 0 \<longleftrightarrow> a < b"
proof (induction a b rule: strcmp.induct)
  case (4 x xs y ys)
  then show ?case by (auto simp: word_less_def)
qed (auto simp: uint_pos_iff not_less)

lemma strcmp_zero_iff: "0 \<notin> set a \<Longrightarrow> 0 \<notin> set b \<Longrightarrow> strcmp a b = 0 \<longleftrightarrow> a = b"
proof (induction a b rule: strcmp.induct)
  case (4 x xs y ys)
  then show ?case by (auto intro: unsigned_word_eqI)
qed (auto simp: uint_pos_iff [symmetric])

lemma strcmp_pos_iff: "0 \<notin> set a \<Longrightarrow> 0 \<notin> set b \<Longrightarrow> 0 < strcmp a b \<longleftrightarrow> b < a"
  using strcmp_neg_iff [of a b] strcmp_zero_iff [of a b]
  by (metis linorder_less_linear order.asym)

lemma strncmp_prefix:
  assumes "0 \<notin> set a" "0 \<notin> set b"
  shows "strncmp a b (length b) = 0 \<longleftrightarrow> take (length b) a = b"
proof -
  have "0 \<notin> set (take (length b) a)" using assms(1) by (meson in_set_takeD)
  then show ?thesis by (simp add: strncmp_def strcmp_zero_iff assms(2))
qed

section \<open>Three-way comparison: bsearch and qsort\<close>

text \<open>
  \<open>bsearch\<close> as the C library implements it: halve the range \<open>[l, u)\<close> until the comparison of the
  key with the middle element is zero or the range is empty.
\<close>

function bsearch_range :: "(nat \<Rightarrow> int) \<Rightarrow> nat \<Rightarrow> nat \<Rightarrow> nat option" where
  "bsearch_range cmp l u =
     (if l < u then
        (let idx = (l + u) div 2; c = cmp idx in
         if c < 0 then bsearch_range cmp l idx
         else if 0 < c then bsearch_range cmp (Suc idx) u
         else Some idx)
      else None)"
  by pat_completeness auto
termination
  by (relation "measure (\<lambda>(cmp, l, u). u - l)") auto

declare bsearch_range.simps [simp del]

definition bsearch :: "('k \<Rightarrow> 'e \<Rightarrow> int) \<Rightarrow> 'k \<Rightarrow> (nat \<Rightarrow> 'e) \<Rightarrow> nat \<Rightarrow> nat option" where
  "bsearch compar key base nmemb = bsearch_range (\<lambda>i. compar key (base i)) 0 nmemb"

text \<open>
  \<open>qsort\<close> leaves a permutation in ascending order of the comparison. Which of several equal elements
  comes first is unspecified in C; the model keeps their order.
\<close>

fun insert_by :: "('e \<Rightarrow> 'e \<Rightarrow> int) \<Rightarrow> 'e \<Rightarrow> 'e list \<Rightarrow> 'e list" where
  "insert_by compar x [] = [x]"
| "insert_by compar x (y # ys) = (if compar x y \<le> 0 then x # y # ys else y # insert_by compar x ys)"

definition qsort :: "('e \<Rightarrow> 'e \<Rightarrow> int) \<Rightarrow> 'e list \<Rightarrow> 'e list" where
  "qsort compar xs = foldr (insert_by compar) xs []"

lemma bsearch_range_sound:
  "bsearch_range cmp l u = Some i \<Longrightarrow> l \<le> i \<and> i < u \<and> cmp i = 0"
proof (induction cmp l u rule: bsearch_range.induct)
  case (1 cmp l u)
  show ?case
  proof (cases "l < u")
    case True
    let ?m = "(l + u) div 2"
    have m: "l \<le> ?m" "?m < u" using True by auto
    consider "cmp ?m < 0" | "0 < cmp ?m" | "cmp ?m = 0" by linarith
    then show ?thesis
    proof cases
      case 1
      then show ?thesis using "1.IH"(1) "1.prems" True m
        by (fastforce simp: bsearch_range.simps [of cmp l u] Let_def)
    next
      case 2
      then show ?thesis using "1.IH"(2) "1.prems" True m
        by (fastforce simp: bsearch_range.simps [of cmp l u] Let_def)
    next
      case 3
      then show ?thesis using "1.prems" True m
        by (simp add: bsearch_range.simps [of cmp l u] Let_def)
    qed
  next
    case False
    then show ?thesis using "1.prems" by (simp add: bsearch_range.simps [of cmp l u])
  qed
qed

text \<open>
  Where the signs of the comparison fall from positive over zero to negative, as they do for a key
  against a sorted array, a match in the range is found.
\<close>

lemma bsearch_range_complete:
  assumes "l \<le> k" "k < u" "cmp k = 0"
    and "\<And>i. l \<le> i \<Longrightarrow> i < k \<Longrightarrow> 0 \<le> cmp i"
    and "\<And>i. k < i \<Longrightarrow> i < u \<Longrightarrow> cmp i \<le> 0"
  shows "bsearch_range cmp l u \<noteq> None"
  using assms
proof (induction cmp l u rule: bsearch_range.induct)
  case (1 cmp l u)
  let ?m = "(l + u) div 2"
  have lu: "l < u" using "1.prems"(1,2) by simp
  consider "cmp ?m < 0" | "0 < cmp ?m" | "cmp ?m = 0" by linarith
  then show ?case
  proof cases
    case 1
    have "k < ?m"
    proof (rule ccontr)
      assume "\<not> k < ?m"
      moreover have "l \<le> ?m" using lu by simp
      ultimately have "0 \<le> cmp ?m" using "1.prems"(3,4) by (cases "k = ?m") auto
      then show False using 1 by simp
    qed
    then have "bsearch_range cmp l ?m \<noteq> None"
      using "1.IH"(1) [OF lu refl refl 1] "1.prems" lu by auto
    then show ?thesis using 1 lu by (simp add: bsearch_range.simps [of cmp l u] Let_def)
  next
    case 2
    have "Suc ?m \<le> k"
    proof (rule ccontr)
      assume "\<not> Suc ?m \<le> k"
      then have "k \<le> ?m" by simp
      moreover have "?m < u" using lu by simp
      ultimately have "cmp ?m \<le> 0" using "1.prems"(3,5) by (cases "k = ?m") auto
      then show False using 2 by simp
    qed
    then have "bsearch_range cmp (Suc ?m) u \<noteq> None"
      using "1.IH"(2) [OF lu refl refl] 2 "1.prems" by auto
    then show ?thesis using 2 lu by (simp add: bsearch_range.simps [of cmp l u] Let_def)
  next
    case 3
    then show ?thesis using lu by (simp add: bsearch_range.simps [of cmp l u] Let_def)
  qed
qed

text \<open>
  The contract of a comparison function: its sign is that of the order of two keys, one read from
  the search key and one from the element. Everything the program gets from \<open>bsearch\<close> and \<open>qsort\<close>
  follows from it.
\<close>

locale three_way =
  fixes compar :: "'k \<Rightarrow> 'e \<Rightarrow> int"
    and kkey :: "'k \<Rightarrow> 'o::linorder"
    and ekey :: "'e \<Rightarrow> 'o"
  assumes compar_neg: "compar k e < 0 \<longleftrightarrow> kkey k < ekey e"
    and compar_zero: "compar k e = 0 \<longleftrightarrow> kkey k = ekey e"
begin

lemma compar_pos: "0 < compar k e \<longleftrightarrow> ekey e < kkey k"
  using compar_neg [of k e] compar_zero [of k e] by (metis linorder_less_linear order.asym)

lemma bsearch_Some:
  "bsearch compar k base n = Some i \<Longrightarrow> i < n \<and> ekey (base i) = kkey k"
  by (auto simp: bsearch_def compar_zero dest: bsearch_range_sound)

lemma bsearch_finds:
  assumes "sorted (map (\<lambda>i. ekey (base i)) [0..<n])" "j < n" "ekey (base j) = kkey k"
  shows "\<exists>i. bsearch compar k base n = Some i"
proof -
  have mono: "ekey (base a) \<le> ekey (base b)" if "a \<le> b" "b < n" for a b
    using sorted_nth_mono [OF assms(1), of a b] that by simp
  have lower: "0 \<le> compar k (base i)" if "i < j" for i
  proof -
    have "ekey (base i) \<le> kkey k" using mono [of i j] that assms(2,3) by simp
    then show ?thesis by (simp add: compar_neg not_less [symmetric])
  qed
  have upper: "compar k (base i) \<le> 0" if "j < i" "i < n" for i
  proof -
    have "kkey k \<le> ekey (base i)" using mono [of j i] that assms(3) by simp
    then show ?thesis by (simp add: compar_pos not_less [symmetric])
  qed
  have "bsearch_range (\<lambda>i. compar k (base i)) 0 n \<noteq> None"
    by (rule bsearch_range_complete [where k = j])
       (use assms(2,3) lower upper in \<open>simp_all add: compar_zero\<close>)
  then show ?thesis by (simp add: bsearch_def)
qed

text \<open>Where no key occurs twice the element found is the one sought.\<close>

lemma bsearch_unique:
  assumes "sorted (map (\<lambda>i. ekey (base i)) [0..<n])" "distinct (map (\<lambda>i. ekey (base i)) [0..<n])"
    and "j < n"
  shows "bsearch compar k base n = Some j \<longleftrightarrow> ekey (base j) = kkey k"
proof
  assume "ekey (base j) = kkey k"
  then obtain i where i: "bsearch compar k base n = Some i"
    using bsearch_finds [OF assms(1,3)] by blast
  then have "i < n" "ekey (base i) = ekey (base j)"
    using bsearch_Some [OF i] \<open>ekey (base j) = kkey k\<close> by auto
  then have "i = j" using assms(2,3) by (auto simp: distinct_map inj_on_def)
  then show "bsearch compar k base n = Some j" using i by simp
qed (use bsearch_Some in blast)

lemma bsearch_None:
  assumes "sorted (map (\<lambda>i. ekey (base i)) [0..<n])"
  shows "bsearch compar k base n = None \<longleftrightarrow> (\<forall>j<n. ekey (base j) \<noteq> kkey k)"
  using bsearch_finds [OF assms] bsearch_Some by (metis not_None_eq)

end

text \<open>A comparison of two elements by the same key is what \<open>qsort\<close> takes.\<close>

locale sort_order = three_way compar key key
  for compar :: "'e \<Rightarrow> 'e \<Rightarrow> int" and key :: "'e \<Rightarrow> 'o::linorder"
begin

lemma compar_le: "compar x y \<le> 0 \<longleftrightarrow> key x \<le> key y"
  using compar_pos [of x y] by (simp add: not_less [symmetric])

lemma insert_by_mset: "mset (insert_by compar x xs) = add_mset x (mset xs)"
  by (induction xs) auto

lemma insert_by_sorted: "sorted (map key xs) \<Longrightarrow> sorted (map key (insert_by compar x xs))"
proof (induction xs)
  case (Cons y ys)
  have "set (insert_by compar x ys) = insert x (set ys)"
    using insert_by_mset [of x ys] by (metis set_mset_add_mset_insert set_mset_mset)
  with Cons show ?case by (auto simp: compar_le)
qed simp

lemma qsort_mset: "mset (qsort compar xs) = mset xs"
  by (induction xs) (simp_all add: qsort_def insert_by_mset)

lemma qsort_sorted: "sorted (map key (qsort compar xs))"
  by (induction xs) (simp_all add: qsort_def insert_by_sorted)

lemma qsort_length: "length (qsort compar xs) = length xs"
  by (metis qsort_mset size_mset)

lemma qsort_set: "set (qsort compar xs) = set xs"
  by (metis qsort_mset set_mset_mset)

end

section \<open>Raw memory\<close>

text \<open>
  A block of memory is a function from byte offsets to bytes: what lies beyond the part a read
  has filled is whatever was there before. The loads are \<open>be16toh\<close>, \<open>be32toh\<close> and \<open>be64toh\<close> of the
  integer at an offset.
\<close>

type_synonym mem = "nat \<Rightarrow> u8"

definition be16 :: "mem \<Rightarrow> nat \<Rightarrow> u16" where
  "be16 m o' = push_bit 8 (ucast (m o')) OR ucast (m (o' + 1))"

definition be32 :: "mem \<Rightarrow> nat \<Rightarrow> u32" where
  "be32 m o' = push_bit 16 (ucast (be16 m o')) OR ucast (be16 m (o' + 2))"

definition be64 :: "mem \<Rightarrow> nat \<Rightarrow> u64" where
  "be64 m o' = push_bit 32 (ucast (be32 m o')) OR ucast (be32 m (o' + 4))"

text \<open>\<open>n\<close> bytes from an offset, a block at an offset, a block that starts with the given bytes.\<close>

definition mem_bytes :: "mem \<Rightarrow> nat \<Rightarrow> nat \<Rightarrow> u8 list" where
  "mem_bytes m o' n = map (\<lambda>i. m (o' + i)) [0..<n]"

definition mem_at :: "mem \<Rightarrow> nat \<Rightarrow> mem" where
  "mem_at m o' = (\<lambda>i. m (o' + i))"

definition mem_write :: "mem \<Rightarrow> nat \<Rightarrow> u8 list \<Rightarrow> mem" where
  "mem_write m o' bs = (\<lambda>i. if o' \<le> i \<and> i < o' + length bs then bs ! (i - o') else m i)"

definition mem_of :: "u8 list \<Rightarrow> mem" where
  "mem_of bs = mem_write (\<lambda>_. 0) 0 bs"

lemma length_mem_bytes [simp]: "length (mem_bytes m o' n) = n"
  by (simp add: mem_bytes_def)

lemma mem_write_inside: "i < length bs \<Longrightarrow> mem_write m o' bs (o' + i) = bs ! i"
  by (simp add: mem_write_def)

lemma mem_write_outside: "i < o' \<or> o' + length bs \<le> i \<Longrightarrow> mem_write m o' bs i = m i"
  by (auto simp: mem_write_def)

end
