(* ===== verification/Xal_Pool.thy ===== *)
theory Xal_Pool
  imports Xal_Prelude
begin

text \<open>
  Memory pools (\<open>src/src/xal_pool.c\<close>, \<open>src/include/xal_pool.h\<close>): a reserved range of elements of
  which a growing prefix is accessible, and a cursor from which elements are claimed in order.
  The theory has the pool operations, the pool invariant, the contract of a claim as a locale and
  its interpretation for the two claim functions of the code.
\<close>

section \<open>State and operations\<close>

text \<open>
  The elements are addressed by their index. \<open>mapped\<close> says that the code's \<open>memory\<close> pointer is not NULL.
\<close>

record 'a xal_pool =
  reserved :: u64
  allocated :: u64
  growby :: u64
  free :: u64
  element_size :: u64
  shm_name :: "cstring option"
  mapped :: bool
  memory :: "nat \<Rightarrow> 'a"

text \<open>
  The operating system underneath: for every call the error it fails with, if it fails. The names of
  the existing shared memory objects are a state of their own, which \<open>shm_open\<close> with
  \<open>O_CREAT | O_EXCL\<close> and \<open>shm_unlink\<close> change.
\<close>

record pool_os =
  os_mprotect :: "u64 \<Rightarrow> errno option"
  os_mmap :: "u64 \<Rightarrow> errno option"
  os_munmap :: "u64 \<Rightarrow> errno option"
  os_shm_open :: "cstring \<Rightarrow> errno option"
  os_ftruncate :: "u64 \<Rightarrow> errno option"
  os_shm_unlink :: "cstring \<Rightarrow> errno option"
  os_strdup :: "cstring \<Rightarrow> errno option"

type_synonym shm_names = "cstring set"

definition shm_open_excl :: "pool_os \<Rightarrow> cstring \<Rightarrow> shm_names \<Rightarrow> errno option \<times> shm_names" where
  "shm_open_excl os nm ns =
     (case os_shm_open os nm of
        Some e \<Rightarrow> (Some e, ns)
      | None \<Rightarrow> if nm \<in> ns then (Some EEXIST, ns) else (None, insert nm ns))"

definition shm_unlink :: "pool_os \<Rightarrow> cstring \<Rightarrow> shm_names \<Rightarrow> errno option \<times> shm_names" where
  "shm_unlink os nm ns =
     (case os_shm_unlink os nm of
        Some e \<Rightarrow> (Some e, ns)
      | None \<Rightarrow> if nm \<in> ns then (None, ns - {nm}) else (Some ENOENT, ns))"

definition xal_pool_unmap ::
  "pool_os \<Rightarrow> 'a xal_pool \<Rightarrow> bool \<Rightarrow> shm_names \<Rightarrow> errno option \<times> 'a xal_pool \<times> shm_names" where
  "xal_pool_unmap os pool unlink ns =
     (let (ret, pool) =
        (if mapped pool then
           (case os_munmap os (reserved pool * element_size pool) of
              Some e \<Rightarrow> (Some e, pool)
            | None \<Rightarrow> (None, pool\<lparr>mapped := False\<rparr>))
         else (None, pool))
      in case shm_name pool of
           None \<Rightarrow> (ret, pool, ns)
         | Some nm \<Rightarrow>
             (let (err, ns') = (if unlink then shm_unlink os nm ns else (None, ns))
              in (if ret = None then err else ret, pool\<lparr>shm_name := None\<rparr>, ns')))"

definition xal_pool_grow :: "pool_os \<Rightarrow> 'a xal_pool \<Rightarrow> u64 \<Rightarrow> errno option \<times> 'a xal_pool" where
  "xal_pool_grow os pool by' =
     (let growby_nbytes = by' * element_size pool;
          allocated_nbytes = growby_nbytes + allocated pool * element_size pool
      in case os_mprotect os allocated_nbytes of
           Some e \<Rightarrow> (Some e, pool)
         | None \<Rightarrow> (None, pool\<lparr>allocated := allocated pool + by'\<rparr>))"

text \<open>The cleared state the \<open>failed\<close> label of \<open>xal_pool_map()\<close> leaves.\<close>

definition pool_reset :: "'a xal_pool \<Rightarrow> 'a xal_pool" where
  "pool_reset pool = pool\<lparr>reserved := 0, allocated := 0, growby := 0, free := 0, element_size := 0\<rparr>"

definition pool_map_shm ::
  "pool_os \<Rightarrow> 'a \<Rightarrow> 'a xal_pool \<Rightarrow> cstring \<Rightarrow> u64 \<Rightarrow> shm_names \<Rightarrow>
     errno option \<times> 'a xal_pool \<times> shm_names" where
  "pool_map_shm os zero pool nm nbytes ns =
     (case os_strdup os nm of
        Some e \<Rightarrow> (Some e, pool_reset pool, ns)
      | None \<Rightarrow>
          (case shm_open_excl os nm ns of
             (Some e, ns1) \<Rightarrow> (Some e, pool_reset (pool\<lparr>shm_name := None\<rparr>), ns1)
           | (None, ns1) \<Rightarrow>
               (let ns2 = snd (shm_unlink os nm ns1);
                    failed = pool_reset (pool\<lparr>shm_name := None, mapped := False\<rparr>)
                in case os_ftruncate os nbytes of
                     Some e \<Rightarrow> (Some e, pool_reset (pool\<lparr>shm_name := None\<rparr>), ns2)
                   | None \<Rightarrow>
                       (case os_mmap os nbytes of
                          Some e \<Rightarrow> (Some e, failed, ns2)
                        | None \<Rightarrow>
                            (None, pool\<lparr>shm_name := Some nm, mapped := True, memory := (\<lambda>_. zero),
                                        allocated := reserved pool, growby := reserved pool\<rparr>, ns1)))))"

definition pool_map_private ::
  "pool_os \<Rightarrow> 'a \<Rightarrow> 'a xal_pool \<Rightarrow> u64 \<Rightarrow> u64 \<Rightarrow> shm_names \<Rightarrow>
     errno option \<times> 'a xal_pool \<times> shm_names" where
  "pool_map_private os zero pool alloc nbytes ns =
     (if reserved pool < alloc then (Some EINVAL, pool_reset pool, ns)
      else
        (let pool = pool\<lparr>allocated := 0, growby := alloc\<rparr>
         in case os_mmap os nbytes of
              Some e \<Rightarrow> (Some e, pool_reset (pool\<lparr>mapped := False\<rparr>), ns)
            | None \<Rightarrow>
                (case xal_pool_grow os (pool\<lparr>mapped := True, memory := (\<lambda>_. zero)\<rparr>) alloc of
                   (Some e, pool) \<Rightarrow>
                     (let (_, pool, ns) = xal_pool_unmap os pool False ns
                      in (Some e, pool_reset pool, ns))
                 | (None, pool) \<Rightarrow> (None, pool, ns))))"

definition xal_pool_map ::
  "pool_os \<Rightarrow> 'a \<Rightarrow> 'a xal_pool \<Rightarrow> u64 \<Rightarrow> u64 \<Rightarrow> u64 \<Rightarrow> cstring option \<Rightarrow> shm_names \<Rightarrow>
     errno option \<times> 'a xal_pool \<times> shm_names" where
  "xal_pool_map os zero pool resv alloc esize nm ns =
     (let nbytes = resv * esize
      in if reserved pool \<noteq> 0 then (Some EINVAL, pool, ns)
         else
           (let pool = pool\<lparr>reserved := resv, element_size := esize, free := 0\<rparr>
            in case nm of
                 Some nm \<Rightarrow> pool_map_shm os zero pool nm nbytes ns
               | None \<Rightarrow> pool_map_private os zero pool alloc nbytes ns))"

text \<open>
  The two claim functions have the same body in the code. \<open>UINT32_MAX\<close> is the largest index a
  claim may reach.
\<close>

abbreviation (input) UINT32_MAX :: u64 where "UINT32_MAX \<equiv> 0xFFFFFFFF"

definition xal_pool_claim_inodes ::
  "pool_os \<Rightarrow> 'a xal_pool \<Rightarrow> u64 \<Rightarrow> u32 res \<times> 'a xal_pool" where
  "xal_pool_claim_inodes os pool count' =
     (if reserved pool < free pool + count' then (Fail ENOMEM, pool)
      else if UINT32_MAX < free pool + count' then (Fail EOVERFLOW, pool)
      else
        (let (err, pool) =
           (if allocated pool < free pool + count' then
              (let need = free pool + count' - allocated pool;
                   by' = (if growby pool < need then need else growby pool);
                   by' = (if reserved pool < allocated pool + by' then reserved pool - allocated pool
                          else by')
               in xal_pool_grow os pool by')
            else (None, pool))
         in case err of
              Some e \<Rightarrow> (Fail e, pool)
            | None \<Rightarrow> (Ok (ucast (free pool)), pool\<lparr>free := free pool + count'\<rparr>)))"

definition xal_pool_claim_extents ::
  "pool_os \<Rightarrow> 'a xal_pool \<Rightarrow> u64 \<Rightarrow> u32 res \<times> 'a xal_pool" where
  "xal_pool_claim_extents os pool count' =
     (if reserved pool < free pool + count' then (Fail ENOMEM, pool)
      else if UINT32_MAX < free pool + count' then (Fail EOVERFLOW, pool)
      else
        (let (err, pool) =
           (if allocated pool < free pool + count' then
              (let need = free pool + count' - allocated pool;
                   by' = (if growby pool < need then need else growby pool);
                   by' = (if reserved pool < allocated pool + by' then reserved pool - allocated pool
                          else by')
               in xal_pool_grow os pool by')
            else (None, pool))
         in case err of
              Some e \<Rightarrow> (Fail e, pool)
            | None \<Rightarrow> (Ok (ucast (free pool)), pool\<lparr>free := free pool + count'\<rparr>)))"

definition xal_pool_clear :: "'a \<Rightarrow> 'a xal_pool \<Rightarrow> 'a xal_pool" where
  "xal_pool_clear zero pool =
     pool\<lparr>memory := (\<lambda>i. if i < unat (free pool) then zero else memory pool i), free := 0\<rparr>"

section \<open>The pool invariant\<close>

text \<open>
  The cursor is within the accessible prefix and the prefix within the reserved range; a growth
  step is no larger than the range. Sizes stay below \<open>2 ^ 63\<close>, far above the 40000000 elements the
  program reserves, so that sums of two of them do not wrap.
\<close>

definition pool_inv :: "'a xal_pool \<Rightarrow> bool" where
  "pool_inv p \<longleftrightarrow> free p \<le> allocated p \<and> allocated p \<le> reserved p \<and> growby p \<le> reserved p
     \<and> unat (reserved p) < 2 ^ 63"

text \<open>Elements past the cursor were never written: they hold the zero element.\<close>

definition pool_fresh :: "'a \<Rightarrow> 'a xal_pool \<Rightarrow> bool" where
  "pool_fresh zero p \<longleftrightarrow> (\<forall>i \<ge> unat (free p). memory p i = zero)"

lemma pool_invD:
  assumes "pool_inv p"
  shows "unat (free p) \<le> unat (allocated p)" "unat (allocated p) \<le> unat (reserved p)"
    "unat (growby p) \<le> unat (reserved p)" "unat (reserved p) < 2 ^ 63"
  using assms by (simp_all add: pool_inv_def word_le_nat_alt)

section \<open>The contract of a claim\<close>

locale pool_claim =
  fixes claim :: "pool_os \<Rightarrow> 'a xal_pool \<Rightarrow> u64 \<Rightarrow> u32 res \<times> 'a xal_pool"
  assumes claim_fail: "claim os p n = (Inl e, q) \<Longrightarrow> q = p"
    and claim_ok: "pool_inv p \<Longrightarrow> unat (free p) + unat n < 2 ^ 64 \<Longrightarrow> claim os p n = (Inr i, q) \<Longrightarrow>
      unat i = unat (free p) \<and> unat (free q) = unat (free p) + unat n \<and> pool_inv q
      \<and> unat (allocated p) \<le> unat (allocated q)"
    and claim_bound: "claim os p n = (Inr i, q) \<Longrightarrow> unat (free q) < 2 ^ 32"
    and claim_frame: "claim os p n = (r, q) \<Longrightarrow>
      memory q = memory p \<and> reserved q = reserved p \<and> element_size q = element_size p
      \<and> growby q = growby p \<and> shm_name q = shm_name p \<and> mapped q = mapped p"
    and claim_succeeds: "pool_inv p \<Longrightarrow> unat (free p) + unat n \<le> unat (reserved p) \<Longrightarrow>
      unat (free p) + unat n < 2 ^ 32 \<Longrightarrow> (\<And>k. os_mprotect os k = None) \<Longrightarrow>
      \<exists>i q. claim os p n = (Inr i, q)"
begin

lemma claim_inv: "pool_inv p \<Longrightarrow> unat (free p) + unat n < 2 ^ 64 \<Longrightarrow> claim os p n = (r, q) \<Longrightarrow> pool_inv q"
  using claim_fail claim_ok by (cases r) blast+

text \<open>The claimed elements lie in the accessible prefix.\<close>

lemma claim_in_range:
  assumes "pool_inv p" "unat (free p) + unat n < 2 ^ 64" "claim os p n = (Inr i, q)" "k < unat n"
  shows "unat i + k < unat (allocated q)"
  using claim_ok [OF assms(1-3)] assms(4) by (auto simp: pool_inv_def word_le_nat_alt)

lemma claim_fresh:
  assumes "pool_fresh zero p" "pool_inv p" "unat (free p) + unat n < 2 ^ 64" "claim os p n = (r, q)"
  shows "pool_fresh zero q"
proof (cases r)
  case (Inl e)
  then show ?thesis using claim_fail assms by blast
next
  case (Inr i)
  then show ?thesis
    using claim_ok [OF assms(2,3)] claim_frame [OF assms(4)] assms(1,4) by (auto simp: pool_fresh_def)
qed

text \<open>Two successive claims get disjoint, adjacent ranges.\<close>

lemma claim_adjacent:
  assumes "pool_inv p" "unat (free p) + unat n < 2 ^ 64" "claim os p n = (Inr i, q)"
    and "unat (free q) + unat m < 2 ^ 64" "claim os q m = (Inr j, r)"
  shows "unat j = unat i + unat n"
  using claim_ok [OF assms(1-3)] claim_ok [OF _ assms(4,5)] by simp

end

section \<open>The code meets the contract\<close>

text \<open>The growth step of a claim stays within the reserved range and covers the claim.\<close>

lemma grow_step_bounds:
  fixes a r f g :: nat
  assumes "f \<le> a" "a \<le> r" "g \<le> r" "f + n \<le> r" "a < f + n"
  defines "need \<equiv> f + n - a"
  defines "by0 \<equiv> (if g < need then need else g)"
  defines "by1 \<equiv> (if r < a + by0 then r - a else by0)"
  shows "f + n \<le> a + by1" "a + by1 \<le> r"
  using assms by auto

lemma xal_pool_claim_extents_eq: "xal_pool_claim_extents = xal_pool_claim_inodes"
  by (intro ext) (simp add: xal_pool_claim_extents_def xal_pool_claim_inodes_def)

lemma grow_cases:
  "xal_pool_grow os p b = (e, q) \<Longrightarrow> (e \<noteq> None \<and> q = p) \<or> (e = None \<and> q = p\<lparr>allocated := allocated p + b\<rparr>)"
  by (auto simp: xal_pool_grow_def Let_def split: option.splits)

lemma claim_fail_body: "xal_pool_claim_inodes os p n = (Inl e, q) \<Longrightarrow> q = p"
  by (auto simp: xal_pool_claim_inodes_def Let_def split: if_splits option.splits prod.splits
      dest!: grow_cases)

lemma claim_frame_body:
  "xal_pool_claim_inodes os p n = (r, q) \<Longrightarrow>
     memory q = memory p \<and> reserved q = reserved p \<and> element_size q = element_size p
     \<and> growby q = growby p \<and> shm_name q = shm_name p \<and> mapped q = mapped p"
  by (auto simp: xal_pool_claim_inodes_def Let_def split: if_splits option.splits prod.splits
      dest!: grow_cases)

lemma claim_bound_body:
  assumes "xal_pool_claim_inodes os p n = (Inr i, q)"
  shows "unat (free q) < 2 ^ 32"
proof -
  have "\<not> UINT32_MAX < free p + n" "free q = free p + n"
    using assms by (auto simp: xal_pool_claim_inodes_def Let_def
        split: if_splits option.splits prod.splits dest!: grow_cases)
  then show ?thesis by (simp add: word_less_nat_alt)
qed

text \<open>
  What a claim that passes the two limit checks does to the accessible prefix.
\<close>

definition claim_growth :: "'a xal_pool \<Rightarrow> u64 \<Rightarrow> u64" where
  "claim_growth p n =
     (let need = free p + n - allocated p;
          by' = (if growby p < need then need else growby p)
      in if reserved p < allocated p + by' then reserved p - allocated p else by')"

lemma claim_growth_bounds:
  assumes "pool_inv p" "unat (free p) + unat n < 2 ^ 64" "free p + n \<le> reserved p"
    and "allocated p < free p + n"
  shows "unat (allocated p + claim_growth p n) = unat (allocated p) + unat (claim_growth p n)"
    and "unat (free p) + unat n \<le> unat (allocated p) + unat (claim_growth p n)"
    and "unat (allocated p) + unat (claim_growth p n) \<le> unat (reserved p)"
proof -
  note inv = pool_invD [OF assms(1)]
  have fn: "unat (free p + n) = unat (free p) + unat n" using assms(2) by (simp add: unat_add_no_wrap)
  define need where "need = free p + n - allocated p"
  define b0 where "b0 = (if growby p < need then need else growby p)"
  have need: "unat need = unat (free p) + unat n - unat (allocated p)"
    unfolding need_def using assms(4) fn by (simp add: unat_sub)
  have b0: "unat b0 = (if unat (growby p) < unat need then unat need else unat (growby p))"
    by (simp add: b0_def word_less_nat_alt)
  have fr: "unat (free p) + unat n \<le> unat (reserved p)" using assms(3) fn by (simp add: word_le_nat_alt)
  have le: "unat b0 \<le> unat (reserved p)" using b0 need inv fr by auto
  have sum: "unat (allocated p + b0) = unat (allocated p) + unat b0"
    by (rule unat_add_no_wrap) (use le inv in simp)
  have cg: "claim_growth p n = (if reserved p < allocated p + b0 then reserved p - allocated p else b0)"
    by (simp add: claim_growth_def Let_def need_def b0_def)
  have g: "unat (claim_growth p n) =
      (if unat (reserved p) < unat (allocated p) + unat b0 then unat (reserved p) - unat (allocated p)
       else unat b0)"
    using inv sum by (simp add: cg word_less_nat_alt unat_sub word_le_nat_alt)
  have "unat (allocated p) < unat (free p) + unat n" using assms(4) fn by (simp add: word_less_nat_alt)
  note step = grow_step_bounds [OF inv(1,2,3) fr this, folded need, folded b0, folded g]
  show "unat (free p) + unat n \<le> unat (allocated p) + unat (claim_growth p n)" by (rule step(1))
  show le': "unat (allocated p) + unat (claim_growth p n) \<le> unat (reserved p)" by (rule step(2))
  show "unat (allocated p + claim_growth p n) = unat (allocated p) + unat (claim_growth p n)"
    by (rule unat_add_no_wrap) (use le' inv in simp)
qed

lemma claim_unfold:
  "xal_pool_claim_inodes os p n =
     (if reserved p < free p + n then (Fail ENOMEM, p)
      else if UINT32_MAX < free p + n then (Fail EOVERFLOW, p)
      else if allocated p < free p + n then
        (case xal_pool_grow os p (claim_growth p n) of
           (Some e, q) \<Rightarrow> (Fail e, q)
         | (None, q) \<Rightarrow> (Ok (ucast (free q)), q\<lparr>free := free q + n\<rparr>))
      else (Ok (ucast (free p)), p\<lparr>free := free p + n\<rparr>))"
  by (auto simp: xal_pool_claim_inodes_def claim_growth_def Let_def split: option.splits prod.splits)

lemma unat_ucast_u32: "unat (x :: u64) < 2 ^ 32 \<Longrightarrow> unat (ucast x :: u32) = unat x"
  by (simp add: unsigned_ucast_eq take_bit_nat_eq_self)

lemma claim_ok_body:
  assumes inv: "pool_inv p" and nw: "unat (free p) + unat n < 2 ^ 64"
    and ok: "xal_pool_claim_inodes os p n = (Inr i, q)"
  shows "unat i = unat (free p) \<and> unat (free q) = unat (free p) + unat n \<and> pool_inv q
     \<and> unat (allocated p) \<le> unat (allocated q)"
proof -
  have fn: "unat (free p + n) = unat (free p) + unat n" using nw by (simp add: unat_add_no_wrap)
  have lim: "free p + n \<le> reserved p" "\<not> UINT32_MAX < free p + n" and i: "i = ucast (free p)"
    and q: "q = p\<lparr>free := free p + n\<rparr> \<and> free p + n \<le> allocated p
      \<or> q = p\<lparr>allocated := allocated p + claim_growth p n, free := free p + n\<rparr> \<and> allocated p < free p + n"
    using ok by (auto simp: claim_unfold split: if_splits option.splits prod.splits dest!: grow_cases)
  have "unat (free p) < 2 ^ 32" using lim(2) fn by (simp add: word_less_nat_alt)
  then have ui: "unat i = unat (free p)" by (simp add: i unat_ucast_u32)
  from q show ?thesis
  proof
    assume "q = p\<lparr>free := free p + n\<rparr> \<and> free p + n \<le> allocated p"
    then show ?thesis using inv ui fn by (simp add: pool_inv_def)
  next
    assume q: "q = p\<lparr>allocated := allocated p + claim_growth p n, free := free p + n\<rparr> \<and> allocated p < free p + n"
    note b = claim_growth_bounds [OF inv nw lim(1) conjunct2 [OF q]]
    show ?thesis using q inv ui fn b by (simp add: pool_inv_def word_le_nat_alt)
  qed
qed

lemma claim_succeeds_body:
  assumes "pool_inv p" "unat (free p) + unat n \<le> unat (reserved p)" "unat (free p) + unat n < 2 ^ 32"
    and "\<And>k. os_mprotect os k = None"
  shows "\<exists>i q. xal_pool_claim_inodes os p n = (Inr i, q)"
proof -
  have fn: "unat (free p + n) = unat (free p) + unat n"
    by (rule unat_add_no_wrap) (use assms(3) in simp)
  have "\<not> reserved p < free p + n" "\<not> UINT32_MAX < free p + n"
    using assms(2,3) fn by (simp_all add: word_less_nat_alt)
  then show ?thesis using assms(4)
    by (auto simp: claim_unfold xal_pool_grow_def Let_def split: prod.splits)
qed

interpretation ino_pool: pool_claim xal_pool_claim_inodes
  by unfold_locales
     (fact claim_fail_body claim_ok_body claim_bound_body claim_frame_body claim_succeeds_body)+

interpretation ext_pool: pool_claim xal_pool_claim_extents
  unfolding xal_pool_claim_extents_eq by (rule ino_pool.pool_claim_axioms)

section \<open>Mapping, claiming, clearing\<close>


definition tiny_os :: pool_os where
  "tiny_os = \<lparr>os_mprotect = (\<lambda>_. None), os_mmap = (\<lambda>_. None), os_munmap = (\<lambda>_. None), os_shm_open = (\<lambda>_. None),
     os_ftruncate = (\<lambda>_. None), os_shm_unlink = (\<lambda>_. None), os_strdup = (\<lambda>_. None)\<rparr>"

definition tiny_pool :: "nat xal_pool" where
  "tiny_pool = \<lparr>reserved = 100, allocated = 10, growby = 10, free = 8, element_size = 8, shm_name = None,
     mapped = True, memory = (\<lambda>i. if i < 8 then 1 else 0)\<rparr>"

lemma tiny_pool_ok: "pool_inv tiny_pool" "pool_fresh 0 tiny_pool"
  by (simp_all add: tiny_pool_def pool_inv_def pool_fresh_def)


lemma pool_map_ok:
  assumes "reserved p = 0" "resv \<noteq> 0" "unat resv < 2 ^ 63" "shm_name p = None"
    and "xal_pool_map os zero p resv alloc esize nm ns = (None, q, ns')"
  shows "pool_inv q" "pool_fresh zero q" "free q = 0" "reserved q = resv" "element_size q = esize"
    "shm_name q = nm" "mapped q" "ns' = set_option nm \<union> ns" "set_option nm \<inter> ns = {}"
    "nm \<noteq> None \<Longrightarrow> allocated q = resv"
  using assms
  by (auto simp: xal_pool_map_def pool_map_private_def pool_map_shm_def shm_open_excl_def xal_pool_grow_def Let_def
      pool_inv_def pool_fresh_def split: if_splits option.splits prod.splits)

lemma pool_map_failed:
  assumes "reserved p = 0" "shm_name p = None" "\<And>nm. os_shm_unlink os nm = None"
    and "xal_pool_map os zero p resv alloc esize nm ns = (Some e, q, ns')"
  shows "reserved q = 0" "allocated q = 0" "free q = 0" "shm_name q = None" "ns' = ns"
    "\<not> mapped p \<Longrightarrow> (\<And>k. os_munmap os k = None) \<Longrightarrow> \<not> mapped q"
  using assms
  by (auto simp: xal_pool_map_def pool_map_private_def pool_map_shm_def shm_open_excl_def shm_unlink_def pool_reset_def
      xal_pool_grow_def xal_pool_unmap_def Let_def split: if_splits option.splits prod.splits)

text \<open>
  C25: mapping a pool either establishes the invariant on an empty pool of zero elements, with the name
  of its shared memory registered, or leaves the pool reset and unmapped with no name of it left
  behind, provided that what was just created can be unlinked and what was just mapped unmapped.
\<close>

theorem pool_map_all_or_nothing:
  assumes "reserved p = 0" "\<not> mapped p" "shm_name p = None"
    and "resv \<noteq> 0" "unat resv < 2 ^ 63"
    and "\<And>k. os_munmap os k = None" "\<And>nm. os_shm_unlink os nm = None"
    and "xal_pool_map os zero p resv alloc esize nm ns = (e, q, ns')"
  shows "case e of
      None \<Rightarrow> pool_inv q \<and> pool_fresh zero q \<and> free q = 0 \<and> reserved q = resv \<and> element_size q = esize
        \<and> shm_name q = nm \<and> mapped q \<and> ns' = set_option nm \<union> ns \<and> set_option nm \<inter> ns = {}
    | Some _ \<Rightarrow> reserved q = 0 \<and> allocated q = 0 \<and> free q = 0 \<and> \<not> mapped q \<and> shm_name q = None \<and> ns' = ns"
proof (cases e)
  case None
  then show ?thesis using pool_map_ok [OF assms(1,4,5,3)] assms(8) by auto
next
  case (Some f)
  then show ?thesis using pool_map_failed [OF assms(1,3,7)] assms(2,6,8) by auto
qed

theorem pool_map_all_or_nothing_witness:
  "fst (xal_pool_map tiny_os (0 :: nat) (tiny_pool\<lparr>reserved := 0, mapped := False\<rparr>) 50 10 8 (Some [0x2F, 0x78]) {}) = None
   \<and> pool_inv (fst (snd (xal_pool_map tiny_os (0 :: nat) (tiny_pool\<lparr>reserved := 0, mapped := False\<rparr>) 50 10 8 (Some [0x2F, 0x78]) {})))"
proof -
  let ?m = "xal_pool_map tiny_os (0 :: nat) (tiny_pool\<lparr>reserved := 0, mapped := False\<rparr>) 50 10 8 (Some [0x2F, 0x78]) {}"
  have none: "fst ?m = None"
    by (simp add: xal_pool_map_def pool_map_shm_def shm_open_excl_def tiny_os_def tiny_pool_def Let_def)
  obtain q ns where m: "?m = (None, q, ns)" using none by (cases ?m) auto
  have "pool_inv q" using pool_map_all_or_nothing [OF _ _ _ _ _ _ _ m]
    by (simp add: tiny_pool_def tiny_os_def)
  then show ?thesis using m by simp
qed

text \<open>
  Clearing empties a pool, keeps it in order, and hands the same elements out again zeroed.
\<close>

lemma pool_clear_ok:
  assumes "pool_inv p" "pool_fresh zero p"
  shows "pool_inv (xal_pool_clear zero p)" "pool_fresh zero (xal_pool_clear zero p)" "free (xal_pool_clear zero p) = 0"
  using assms by (auto simp: xal_pool_clear_def pool_inv_def pool_fresh_def)

text \<open>
  The limit check adds before it compares: a count near the top of the 64-bit range wraps around, passes
  both checks, and moves the cursor backwards, so that elements in use are handed out again.
\<close>

lemma claim_wraps:
  "xal_pool_claim_extents tiny_os tiny_pool (- 1) = (Ok 8, tiny_pool\<lparr>free := 7\<rparr>)"
  by (simp add: xal_pool_claim_extents_eq claim_unfold tiny_pool_def)

end
