(* ===== verification/Xal_Types.thy ===== *)
theory Xal_Types
  imports Xal_Pool
begin

text \<open>
  The data model: superblock, extents, inodes, the two backends and the handle
  (\<open>src/include/libxal.h\<close>, \<open>src/include/xal.h\<close>, \<open>src/include/xal_be_xfs.h\<close>,
  \<open>src/include/xal_be_fiemap.h\<close>, \<open>src/include/xal_be_fiemap_inotify.h\<close>), with the accessors of the
  handle from \<open>src/src/xal.c\<close>. A \<open>struct xal_inode *\<close> always points at an element of the inode pool, so
  the model takes the element's index for the pointer.
\<close>

section \<open>Superblock, extents and inodes\<close>

record xal_sb =
  sb_blocksize :: u32
  sb_sectsize :: u16
  sb_inodesize :: u16
  sb_inopblock :: u16
  sb_inopblog :: u8
  sb_icount :: u64
  sb_nallocated :: u64
  sb_rootino :: u64
  sb_agblocks :: u32
  sb_agblklog :: u8
  sb_agcount :: u32
  sb_dirblocksize :: u32
  sb_lba_blksze :: u32

abbreviation (input) XAL_EXTENT_UNWRITTEN :: u8 where "XAL_EXTENT_UNWRITTEN \<equiv> 1"
abbreviation (input) XAL_EXTENT_SHARED :: u8 where "XAL_EXTENT_SHARED \<equiv> 2"
abbreviation (input) XAL_EXTENT_NOADDR :: u8 where "XAL_EXTENT_NOADDR \<equiv> 4"

record xal_extent =
  x_start_offset :: u64
  x_start_block :: u64
  x_nblocks :: u64
  x_flag :: u8

datatype xal_extent_unit = XAL_EXTENT_UNIT_BYTES | XAL_EXTENT_UNIT_LBA

record xal_extent_converted =
  c_start_offset :: u64
  c_start_block :: u64
  c_size :: u64
  c_unit :: xal_extent_unit

definition zero_extent :: xal_extent where
  "zero_extent = \<lparr>x_start_offset = 0, x_start_block = 0, x_nblocks = 0, x_flag = 0\<rparr>"

text \<open>
  The union of \<open>dentries\<close> and \<open>extents\<close> overlays two structures of the same layout, an index and a count,
  so both views are the two fields \<open>i_idx\<close> and \<open>i_count\<close>. \<open>i_name\<close> holds the bytes stored in the
  256-byte array \<open>name\<close>, which is zero behind them.
\<close>

record xal_inode =
  i_ino :: u64
  i_size :: u64
  i_idx :: u32
  i_count :: u32
  i_ftype :: u8
  i_namelen :: u8
  i_name :: "u8 list"
  i_parent :: u32

definition zero_inode :: xal_inode where
  "zero_inode = \<lparr>i_ino = 0, i_size = 0, i_idx = 0, i_count = 0, i_ftype = 0, i_namelen = 0,
     i_name = [], i_parent = 0\<rparr>"

abbreviation (input) XAL_POOL_IDX_NONE :: u32 where "XAL_POOL_IDX_NONE \<equiv> 0xFFFFFFFF"
abbreviation (input) XAL_ODF_DIR3_FT_UNKNOWN :: u8 where "XAL_ODF_DIR3_FT_UNKNOWN \<equiv> 0"
abbreviation (input) XAL_ODF_DIR3_FT_REG_FILE :: u8 where "XAL_ODF_DIR3_FT_REG_FILE \<equiv> 1"
abbreviation (input) XAL_ODF_DIR3_FT_DIR :: u8 where "XAL_ODF_DIR3_FT_DIR \<equiv> 2"
abbreviation (input) XAL_ODF_DIR3_FT_MAX :: u8 where "XAL_ODF_DIR3_FT_MAX \<equiv> 9"

definition xal_inode_is_dir :: "xal_inode \<Rightarrow> bool" where
  "xal_inode_is_dir inode \<longleftrightarrow> i_ftype inode = XAL_ODF_DIR3_FT_DIR"

definition xal_inode_is_file :: "xal_inode \<Rightarrow> bool" where
  "xal_inode_is_file inode \<longleftrightarrow> i_ftype inode = XAL_ODF_DIR3_FT_REG_FILE"

text \<open>
  What \<open>strcmp\<close> sees of the name, and what \<open>memcpy(buf, inode->name, inode->namelen)\<close> copies.
\<close>

definition i_cname :: "xal_inode \<Rightarrow> cstring" where
  "i_cname inode = cstr (i_name inode)"

definition i_bytes :: "xal_inode \<Rightarrow> u8 list" where
  "i_bytes inode = take (unat (i_namelen inode)) (i_name inode @ replicate 256 0)"

section \<open>Backends\<close>

datatype xal_watchmode = XAL_WATCHMODE_NONE | XAL_WATCHMODE_REFLINK_SNAPSHOT | Watchmode_other int

record xal_ag =
  ag_seqno :: u32
  ag_offset :: u64
  agf_length :: u32
  agi_count :: u32
  agi_root :: u32
  agi_level :: u32

text \<open>
  The XFS backend keeps the I/O buffer, the on-disk inodes (NULL until retrieved) and a map from inode
  numbers to their offsets in that array.
\<close>

record xal_be_xfs =
  xfs_buf :: mem
  xfs_dinodes :: "mem option"
  xfs_dinodes_map :: "u64 \<Rightarrow> nat option"
  xfs_ags :: "xal_ag list"

record xal_inotify =
  n_watch_mode :: xal_watchmode
  n_fd :: int
  n_inode_map :: "(int \<times> nat) list"
  n_joinable :: bool
  n_exited :: bool
  n_stop :: bool
  n_tid :: nat
  n_cb :: bool

record xal_reflink =
  rl_dir :: cstring
  rl_dir_created :: bool

record xal_be_fiemap =
  f_mountpoint :: cstring
  f_subtree :: "cstring option"
  f_inotify :: "xal_inotify option"
  f_path_inode_map :: "(cstring \<Rightarrow> nat option) option"
  f_reflink :: "xal_reflink option"

datatype xal_be = Be_xfs xal_be_xfs | Be_fiemap xal_be_fiemap | Be_other int

section \<open>The handle\<close>

datatype xal_procrole = XAL_PROCROLE_SINGLE | XAL_PROCROLE_PRIMARY | XAL_PROCROLE_SECONDARY

datatype xal_state = XAL_STATE_CLEAN | XAL_STATE_DIRTY | XAL_STATE_INDEXING

text \<open>
  \<open>h_index_state\<close> and \<open>h_seq_lock\<close> are what the code's pointers \<open>index_state\<close> and \<open>seq_lock\<close> point at, in the
  handle or in shared memory; \<open>h_state\<close> says that a shared state region is mapped. \<open>h_last_err\<close> is
  \<open>last_index_err\<close>, \<open>None\<close> for 0.
\<close>

record xal =
  h_inodes :: "xal_inode xal_pool"
  h_extents :: "xal_extent xal_pool"
  h_root_idx :: u32
  h_sb :: xal_sb
  h_be :: xal_be
  h_index_state :: xal_state
  h_seq_lock :: u32
  h_state :: bool
  h_state_shm_name :: "cstring option"
  h_procrole :: xal_procrole
  h_indexing :: bool
  h_last_err :: "errno option"

definition xal_inode_at :: "xal \<Rightarrow> u32 \<Rightarrow> nat option" where
  "xal_inode_at xal idx = (if allocated (h_inodes xal) \<le> ucast idx then None else Some (unat idx))"

definition xal_extent_at :: "xal \<Rightarrow> u32 \<Rightarrow> nat option" where
  "xal_extent_at xal idx = (if allocated (h_extents xal) \<le> ucast idx then None else Some (unat idx))"

definition xal_inode_idx :: "xal \<Rightarrow> nat \<Rightarrow> u32" where
  "xal_inode_idx xal inode = of_nat inode"

text \<open>The inode and the extent a pointer points at, and a store through an inode pointer.\<close>

abbreviation inode_of :: "xal \<Rightarrow> nat \<Rightarrow> xal_inode" where
  "inode_of xal \<equiv> memory (h_inodes xal)"

abbreviation extent_of :: "xal \<Rightarrow> nat \<Rightarrow> xal_extent" where
  "extent_of xal \<equiv> memory (h_extents xal)"

definition put_inode :: "xal \<Rightarrow> nat \<Rightarrow> xal_inode \<Rightarrow> xal" where
  "put_inode xal i v = xal\<lparr>h_inodes := (h_inodes xal)\<lparr>memory := (inode_of xal)(i := v)\<rparr>\<rparr>"

definition put_extent :: "xal \<Rightarrow> nat \<Rightarrow> xal_extent \<Rightarrow> xal" where
  "put_extent xal i v = xal\<lparr>h_extents := (h_extents xal)\<lparr>memory := (extent_of xal)(i := v)\<rparr>\<rparr>"

definition xal_get_root :: "xal \<Rightarrow> nat option" where
  "xal_get_root xal =
     (if h_root_idx xal = XAL_POOL_IDX_NONE then None else xal_inode_at xal (h_root_idx xal))"

definition xal_is_dirty :: "xal \<Rightarrow> bool" where
  "xal_is_dirty xal \<longleftrightarrow> h_index_state xal \<noteq> XAL_STATE_CLEAN"

definition xal_get_seq_lock :: "xal \<Rightarrow> u32" where
  "xal_get_seq_lock xal = h_seq_lock xal"

definition xal_get_sb :: "xal \<Rightarrow> xal_sb" where
  "xal_get_sb xal = h_sb xal"

definition xal_get_sb_blocksize :: "xal \<Rightarrow> u32" where
  "xal_get_sb_blocksize xal = sb_blocksize (h_sb xal)"

abbreviation is_odd :: "u32 \<Rightarrow> bool" where
  "is_odd seq \<equiv> seq AND 1 \<noteq> 0"

lemma is_odd_iff: "is_odd seq \<longleftrightarrow> odd seq"
  by (simp add: and_one_eq odd_iff_mod_2_eq_one)

lemma xal_inode_at_Some [simp]:
  "xal_inode_at xal idx = Some i \<longleftrightarrow> i = unat idx \<and> i < unat (allocated (h_inodes xal))"
  by (auto simp: xal_inode_at_def word_le_nat_alt)

lemma xal_inode_at_None [simp]:
  "xal_inode_at xal idx = None \<longleftrightarrow> unat (allocated (h_inodes xal)) \<le> unat idx"
  by (auto simp: xal_inode_at_def word_le_nat_alt)

lemma xal_extent_at_Some [simp]:
  "xal_extent_at xal idx = Some i \<longleftrightarrow> i = unat idx \<and> i < unat (allocated (h_extents xal))"
  by (auto simp: xal_extent_at_def word_le_nat_alt)

text \<open>Converting between a pointer and its index loses nothing within the index range.\<close>

lemma unat_xal_inode_idx: "i < 2 ^ 32 \<Longrightarrow> unat (xal_inode_idx xal i) = i"
  by (simp add: xal_inode_idx_def take_bit_nat_eq_self unat_of_nat)

lemma xal_inode_idx_unat [simp]: "xal_inode_idx xal (unat idx) = idx"
  by (simp add: xal_inode_idx_def)

lemma inode_of_put_inode [simp]: "inode_of (put_inode xal i v) = (inode_of xal)(i := v)"
  by (simp add: put_inode_def)

lemma put_inode_same [simp]: "put_inode xal i (inode_of xal i) = xal"
  by (simp add: put_inode_def)

lemma put_inode_twice [simp]: "put_inode (put_inode xal i v) i w = put_inode xal i w"
  by (simp add: put_inode_def)

lemma put_inode_frame [simp]:
  "h_extents (put_inode xal i v) = h_extents xal" "h_root_idx (put_inode xal i v) = h_root_idx xal"
  "h_sb (put_inode xal i v) = h_sb xal" "h_be (put_inode xal i v) = h_be xal"
  "h_index_state (put_inode xal i v) = h_index_state xal"
  "h_seq_lock (put_inode xal i v) = h_seq_lock xal" "h_procrole (put_inode xal i v) = h_procrole xal"
  "h_state (put_inode xal i v) = h_state xal" "h_state_shm_name (put_inode xal i v) = h_state_shm_name xal"
  "h_indexing (put_inode xal i v) = h_indexing xal" "h_last_err (put_inode xal i v) = h_last_err xal"
  "free (h_inodes (put_inode xal i v)) = free (h_inodes xal)"
  "allocated (h_inodes (put_inode xal i v)) = allocated (h_inodes xal)"
  "reserved (h_inodes (put_inode xal i v)) = reserved (h_inodes xal)"
  "pool_inv (h_inodes (put_inode xal i v)) = pool_inv (h_inodes xal)"
  by (simp_all add: put_inode_def pool_inv_def)

lemma put_extent_frame [simp]:
  "h_inodes (put_extent xal i v) = h_inodes xal" "h_root_idx (put_extent xal i v) = h_root_idx xal"
  "h_sb (put_extent xal i v) = h_sb xal" "h_be (put_extent xal i v) = h_be xal"
  "h_index_state (put_extent xal i v) = h_index_state xal"
  "h_seq_lock (put_extent xal i v) = h_seq_lock xal" "h_procrole (put_extent xal i v) = h_procrole xal"
  "h_state (put_extent xal i v) = h_state xal" "h_state_shm_name (put_extent xal i v) = h_state_shm_name xal"
  "h_indexing (put_extent xal i v) = h_indexing xal" "h_last_err (put_extent xal i v) = h_last_err xal"
  "free (h_extents (put_extent xal i v)) = free (h_extents xal)"
  "allocated (h_extents (put_extent xal i v)) = allocated (h_extents xal)"
  "reserved (h_extents (put_extent xal i v)) = reserved (h_extents xal)"
  "pool_inv (h_extents (put_extent xal i v)) = pool_inv (h_extents xal)"
  by (simp_all add: put_extent_def pool_inv_def)

end
