(* ===== verification/Xal_Extent.thy ===== *)
theory Xal_Extent
  imports Xal_Types
begin

text \<open>
  Addresses and extents: the translation of block and inode numbers to disk offsets, the extent
  conversions of the public interface (\<open>src/src/xal.c\<close>), the extent record of the XFS on-disk format and
  the inode number formats (\<open>src/src/xal_be_xfs.c\<close>), and the FIEMAP extent flags
  (\<open>src/src/xal_be_fiemap.c\<close>).
\<close>

section \<open>Block addresses\<close>

text \<open>
  The mask \<open>(1 << agblklog) - 1\<close> is computed in a 32-bit \<open>int\<close> and sign-extended; C leaves it undefined
  from \<open>agblklog = 31\<close> on.
\<close>

definition xal_fsbno_offset :: "xal \<Rightarrow> u64 \<Rightarrow> u64" where
  "xal_fsbno_offset xal fsbno =
     (case h_be xal of
        Be_fiemap _ \<Rightarrow> fsbno * ucast (sb_blocksize (h_sb xal))
      | Be_xfs _ \<Rightarrow>
          (let agblklog = unat (sb_agblklog (h_sb xal));
               ag = drop_bit agblklog fsbno;
               bno = fsbno AND scast (push_bit agblklog (1 :: u32) - 1)
           in (ag * ucast (sb_agblocks (h_sb xal)) + bno) * ucast (sb_blocksize (h_sb xal)))
      | Be_other _ \<Rightarrow> - 22)"

definition xal_extent_in_bytes :: "xal \<Rightarrow> xal_extent option \<Rightarrow> xal_extent_converted res" where
  "xal_extent_in_bytes xal extent =
     (case extent of
        None \<Rightarrow> Fail EINVAL
      | Some e \<Rightarrow>
          if x_flag e AND XAL_EXTENT_NOADDR \<noteq> 0 then Fail ENODATA
          else Ok \<lparr>c_start_offset = x_start_offset e * ucast (sb_blocksize (h_sb xal)),
                   c_start_block = xal_fsbno_offset xal (x_start_block e),
                   c_size = x_nblocks e * ucast (sb_blocksize (h_sb xal)),
                   c_unit = XAL_EXTENT_UNIT_BYTES\<rparr>)"

definition xal_extent_in_lba :: "xal \<Rightarrow> xal_extent option \<Rightarrow> xal_extent_converted res" where
  "xal_extent_in_lba xal extent =
     (let lba_blksze = sb_lba_blksze (h_sb xal)
      in case extent of
           None \<Rightarrow> Fail EINVAL
         | Some e \<Rightarrow>
             if lba_blksze = 0 then Fail EINVAL
             else if x_flag e AND XAL_EXTENT_NOADDR \<noteq> 0 then Fail ENODATA
             else Ok \<lparr>c_start_offset =
                        x_start_offset e * ucast (sb_blocksize (h_sb xal)) div ucast lba_blksze,
                      c_start_block = xal_fsbno_offset xal (x_start_block e) div ucast lba_blksze,
                      c_size = x_nblocks e * ucast (sb_blocksize (h_sb xal)) div ucast lba_blksze,
                      c_unit = XAL_EXTENT_UNIT_LBA\<rparr>)"

section \<open>The XFS extent record\<close>

text \<open>
  128 bits in two big-endian words: the unwritten flag (1 bit), the file offset (54), the start
  block (52) and the block count (21).
\<close>

definition decode_xfs_extent :: "u64 \<Rightarrow> u64 \<Rightarrow> xal_extent" where
  "decode_xfs_extent l0 l1 =
     \<lparr>x_start_offset = drop_bit 10 (push_bit 1 l0),
      x_start_block = push_bit 43 (l0 AND 0x1FF) OR drop_bit 21 l1,
      x_nblocks = l1 AND 0x1FFFFF,
      x_flag = (if drop_bit 63 l0 \<noteq> 0 then XAL_EXTENT_UNWRITTEN else 0)\<rparr>"

text \<open>The record a file system writes for an extent, as the format defines it.\<close>

definition encode_xfs_extent :: "xal_extent \<Rightarrow> u64 \<times> u64" where
  "encode_xfs_extent e =
     ((if x_flag e AND XAL_EXTENT_UNWRITTEN \<noteq> 0 then push_bit 63 1 else 0)
        OR push_bit 9 (x_start_offset e) OR drop_bit 43 (x_start_block e),
      push_bit 21 (x_start_block e) OR x_nblocks e)"

definition xfs_extent_ok :: "xal_extent \<Rightarrow> bool" where
  "xfs_extent_ok e \<longleftrightarrow> unat (x_start_offset e) < 2 ^ 54 \<and> unat (x_start_block e) < 2 ^ 52
     \<and> unat (x_nblocks e) < 2 ^ 21 \<and> (x_flag e = 0 \<or> x_flag e = XAL_EXTENT_UNWRITTEN)"

section \<open>Inode numbers\<close>

definition ino_abs_to_rel :: "xal_sb \<Rightarrow> u64 \<Rightarrow> u32" where
  "ino_abs_to_rel sb inoabs =
     ucast (inoabs AND (push_bit (unat (sb_agblklog sb) + unat (sb_inopblog sb)) 1 - 1))"

definition xal_ino_decode_relative :: "xal_sb \<Rightarrow> u32 \<Rightarrow> u64 \<times> u32" where
  "xal_ino_decode_relative sb ino =
     (ucast (drop_bit (unat (sb_inopblog sb)) ino) AND (push_bit (unat (sb_agblklog sb)) 1 - 1),
      ucast (ucast ino AND (push_bit (unat (sb_inopblog sb)) (1 :: u64) - 1)))"

definition xal_ino_decode_absolute :: "xal_sb \<Rightarrow> u64 \<Rightarrow> u32 \<times> u64 \<times> u32" where
  "xal_ino_decode_absolute sb ino =
     (ucast (drop_bit (unat (sb_inopblog sb) + unat (sb_agblklog sb)) ino),
      xal_ino_decode_relative sb (ucast ino))"

definition xal_agbno_absolute_offset :: "xal_sb \<Rightarrow> u32 \<Rightarrow> u64 \<Rightarrow> u64" where
  "xal_agbno_absolute_offset sb seqno agbno =
     (ucast seqno * ucast (sb_agblocks sb) + agbno) * ucast (sb_blocksize sb)"

definition xal_ino_decode_absolute_offset :: "xal_sb \<Rightarrow> u64 \<Rightarrow> u64" where
  "xal_ino_decode_absolute_offset sb ino =
     (let (seqno, agbno, agbino) = xal_ino_decode_absolute sb ino;
          offset = (ucast seqno * ucast (sb_agblocks sb) + agbno) * ucast (sb_blocksize sb)
      in offset + ucast agbino * ucast (sb_inodesize sb))"

section \<open>FIEMAP extent flags\<close>

abbreviation (input) FIEMAP_EXTENT_LAST :: u32 where "FIEMAP_EXTENT_LAST \<equiv> 0x1"
abbreviation (input) FIEMAP_EXTENT_UNKNOWN :: u32 where "FIEMAP_EXTENT_UNKNOWN \<equiv> 0x2"
abbreviation (input) FIEMAP_EXTENT_DELALLOC :: u32 where "FIEMAP_EXTENT_DELALLOC \<equiv> 0x4"
abbreviation (input) FIEMAP_EXTENT_ENCODED :: u32 where "FIEMAP_EXTENT_ENCODED \<equiv> 0x8"
abbreviation (input) FIEMAP_EXTENT_DATA_ENCRYPTED :: u32 where "FIEMAP_EXTENT_DATA_ENCRYPTED \<equiv> 0x80"
abbreviation (input) FIEMAP_EXTENT_NOT_ALIGNED :: u32 where "FIEMAP_EXTENT_NOT_ALIGNED \<equiv> 0x100"
abbreviation (input) FIEMAP_EXTENT_DATA_INLINE :: u32 where "FIEMAP_EXTENT_DATA_INLINE \<equiv> 0x200"
abbreviation (input) FIEMAP_EXTENT_DATA_TAIL :: u32 where "FIEMAP_EXTENT_DATA_TAIL \<equiv> 0x400"
abbreviation (input) FIEMAP_EXTENT_UNWRITTEN :: u32 where "FIEMAP_EXTENT_UNWRITTEN \<equiv> 0x800"
abbreviation (input) FIEMAP_EXTENT_SHARED :: u32 where "FIEMAP_EXTENT_SHARED \<equiv> 0x2000"

definition fiemap_noaddr :: u32 where
  "fiemap_noaddr = FIEMAP_EXTENT_UNKNOWN OR FIEMAP_EXTENT_DELALLOC OR FIEMAP_EXTENT_ENCODED
     OR FIEMAP_EXTENT_DATA_ENCRYPTED OR FIEMAP_EXTENT_NOT_ALIGNED OR FIEMAP_EXTENT_DATA_INLINE
     OR FIEMAP_EXTENT_DATA_TAIL"

definition fiemap_extent_flag :: "u32 \<Rightarrow> u8" where
  "fiemap_extent_flag fe_flags =
     (let flag = 0;
          flag = (if fe_flags AND FIEMAP_EXTENT_UNWRITTEN \<noteq> 0 then flag OR XAL_EXTENT_UNWRITTEN else flag);
          flag = (if fe_flags AND FIEMAP_EXTENT_SHARED \<noteq> 0 then flag OR XAL_EXTENT_SHARED else flag)
      in if fe_flags AND fiemap_noaddr \<noteq> 0 then flag OR XAL_EXTENT_NOADDR else flag)"

section \<open>Properties\<close>

lemma mask_and_mod: "(x :: 'a::len word) AND (push_bit n 1 - 1) = take_bit n x"
  by (simp add: take_bit_eq_mask mask_eq_exp_minus_1 push_bit_of_1)

lemma scast_mask:
  assumes "n \<le> 30"
  shows "(scast (2 ^ n - 1 :: u32) :: u64) = mask n"
proof -
  have "(2 ^ n - 1 :: u32) = mask n" by (simp add: mask_eq_exp_minus_1)
  moreover have "(scast (mask n :: u32) :: u64) = mask n"
    by (rule bit_word_eqI) (use assms in \<open>auto simp: bit_signed_iff bit_mask_iff min_def\<close>)
  ultimately show ?thesis by simp
qed

lemma mask_literals: "(0x1FF :: u64) = mask 9" "(0x1FFFFF :: u64) = mask 21"
  by (simp_all add: mask_eq_exp_minus_1)

lemma high_bits_zero:
  assumes "unat (x :: 'a::len word) < 2 ^ n" "bit x i"
  shows "i < n"
proof (rule ccontr)
  assume "\<not> i < n"
  have "take_bit n x = x"
    using assms(1) by (simp add: word_unat_eq_iff unsigned_take_bit_eq take_bit_nat_eq_self)
  then have "bit (take_bit n x) i" using assms(2) by simp
  then show False using \<open>\<not> i < n\<close> by (simp add: bit_take_bit_iff)
qed

lemma flag_bit_63: "drop_bit 63 (x :: u64) \<noteq> 0 \<longleftrightarrow> bit x 63"
proof -
  have "unat x < 2 * 2 ^ 63" using unsigned_less [of x, where ?'a = nat] by simp
  then have "unat x div 2 ^ 63 < 2" by (rule less_mult_imp_div_less)
  moreover have "unat (drop_bit 63 x) = unat x div 2 ^ 63"
    by (subst unat_drop_bit_eq) (rule drop_bit_eq_div)
  ultimately have "unat (drop_bit 63 x) < 2" by simp
  then have "unat (drop_bit 63 x) \<noteq> 0 \<longleftrightarrow> odd (unat (drop_bit 63 x))" by (cases "unat (drop_bit 63 x)") auto
  moreover have "odd (unat (drop_bit 63 x)) \<longleftrightarrow> odd (drop_bit 63 x)"
    by (simp only: bit_0 [symmetric] bit_unsigned_iff) simp
  ultimately have "drop_bit 63 x \<noteq> 0 \<longleftrightarrow> odd (drop_bit 63 x)" by (simp add: unat_eq_0)
  then show ?thesis by (simp add: bit_iff_odd_drop_bit)
qed

definition flag_word :: "bool \<Rightarrow> u64" where
  "flag_word b = (if b then push_bit 63 1 else 0)"

lemma bit_flag_word [simp]: "bit (flag_word b) i \<longleftrightarrow> b \<and> i = 63"
  unfolding flag_word_def by (cases b) (simp_all only: bit_push_bit_iff bit_1_iff if_True if_False bit_0_eq bot_apply, auto)

lemma bit_offset_field: "bit (drop_bit 10 (push_bit 1 (l0 :: u64))) i \<longleftrightarrow> i < 54 \<and> bit l0 (i + 9)"
  by (simp only: bit_drop_bit_eq bit_push_bit_iff comp_def) (auto dest: bit_imp_le_length simp: add.commute)

lemma encode_fst: "fst (encode_xfs_extent e) = flag_word (x_flag e AND XAL_EXTENT_UNWRITTEN \<noteq> 0)
  OR push_bit 9 (x_start_offset e) OR drop_bit 43 (x_start_block e)"
  by (simp add: encode_xfs_extent_def flag_word_def)

lemma xfs_extent_encode_then_decode:
  assumes "xfs_extent_ok e"
  shows "(case encode_xfs_extent e of (l0, l1) \<Rightarrow> decode_xfs_extent l0 l1) = e"
proof -
  note ok = assms [unfolded xfs_extent_ok_def]
  have o: "i < 54" if "bit (x_start_offset e) i" for i using high_bits_zero ok that by blast
  have b: "i < 52" if "bit (x_start_block e) i" for i using high_bits_zero ok that by blast
  have n: "i < 21" if "bit (x_nblocks e) i" for i using high_bits_zero ok that by blast
  define l0 where "l0 = fst (encode_xfs_extent e)"
  define l1 where "l1 = snd (encode_xfs_extent e)"
  have flag: "x_flag e AND 1 \<noteq> 0 \<longleftrightarrow> x_flag e = 1" using ok by auto
  have b0: "bit l0 i \<longleftrightarrow> i < 64 \<and> ((i = 63 \<and> x_flag e = 1) \<or> (9 \<le> i \<and> bit (x_start_offset e) (i - 9))
      \<or> bit (x_start_block e) (i + 43))" for i
    by (auto simp: l0_def encode_fst flag bit_simps add.commute dest: b)
  have b1: "bit l1 i \<longleftrightarrow> i < 64 \<and> ((21 \<le> i \<and> bit (x_start_block e) (i - 21)) \<or> bit (x_nblocks e) i)" for i
    by (auto simp: l1_def encode_xfs_extent_def bit_simps dest: n)
  have 1: "drop_bit 10 (push_bit 1 l0) = x_start_offset e"
    by (rule bit_word_eqI) (auto simp only: bit_offset_field b0 dest: o b, auto dest: o b)
  have 2: "push_bit 43 (l0 AND mask 9) OR drop_bit 21 l1 = x_start_block e"
    by (rule bit_word_eqI) (auto simp: bit_simps b0 b1 dest: o b n)
  have 3: "l1 AND mask 21 = x_nblocks e"
    by (rule bit_word_eqI) (auto simp: bit_simps b1 dest: n)
  have 4: "(if drop_bit 63 l0 \<noteq> 0 then XAL_EXTENT_UNWRITTEN else 0) = x_flag e"
    using ok by (auto simp: flag_bit_63 b0 dest: o b)
  have "decode_xfs_extent l0 l1 = e"
    using 1 2 3 4 by (simp add: decode_xfs_extent_def mask_literals)
  then show ?thesis by (simp add: l0_def l1_def case_prod_beta)
qed


lemma unat_less_exp_iff: "n < LENGTH('a) \<Longrightarrow> unat (x :: 'a::len word) < 2 ^ n \<longleftrightarrow> (\<forall>i. bit x i \<longrightarrow> i < n)"
proof
  assume n: "n < LENGTH('a)" and "\<forall>i. bit x i \<longrightarrow> i < n"
  then have "take_bit n x = x" by (intro bit_word_eqI) (auto simp: bit_take_bit_iff)
  then have "unat x = take_bit n (unat x)" by (metis unsigned_take_bit_eq)
  then show "unat x < 2 ^ n" by (metis take_bit_nat_less_exp)
qed (use high_bits_zero in blast)

lemma decode_xfs_extent_ok: "xfs_extent_ok (decode_xfs_extent l0 l1)"
proof -
  have 1: "unat (drop_bit 10 (push_bit 1 l0)) < 2 ^ 54"
    by (subst unat_less_exp_iff) (auto simp: bit_simps dest: bit_imp_le_length)
  have 2: "unat (push_bit 43 (l0 AND mask 9) OR drop_bit 21 l1) < 2 ^ 52"
    by (subst unat_less_exp_iff) (auto simp: bit_simps dest: bit_imp_le_length)
  have 3: "unat (l1 AND mask 21) < 2 ^ 21"
    by (subst unat_less_exp_iff) (auto simp: bit_simps)
  show ?thesis using 1 2 3 by (simp add: xfs_extent_ok_def decode_xfs_extent_def mask_literals)
qed

lemma xfs_extent_decode_then_encode: "encode_xfs_extent (decode_xfs_extent l0 l1) = (l0, l1)"
proof -
  let ?e = "decode_xfs_extent l0 l1"
  have flag: "x_flag ?e AND 1 \<noteq> 0 \<longleftrightarrow> bit l0 63"
    by (simp add: decode_xfs_extent_def flag_bit_63)
  have off: "bit (x_start_offset ?e) i \<longleftrightarrow> i < 54 \<and> bit l0 (i + 9)" for i
    by (simp only: decode_xfs_extent_def xal_extent.select_convs bit_offset_field)
  have blk: "bit (x_start_block ?e) (i + 43) \<longleftrightarrow> i < 9 \<and> bit l0 i" for i
    by (auto simp: decode_xfs_extent_def bit_simps mask_literals dest: bit_imp_le_length)
  have 0: "fst (encode_xfs_extent ?e) = l0"
  proof (rule bit_word_eqI)
    fix i assume "i < LENGTH(64)"
    then consider "i = 63" | "9 \<le> i" "i < 63" | "i < 9" by fastforce
    then show "bit (fst (encode_xfs_extent ?e)) i = bit l0 i"
      by cases (auto simp: encode_fst flag bit_simps off blk [of i, simplified add.commute [of i]]
          dest: bit_imp_le_length)
  qed
  have 1: "snd (encode_xfs_extent ?e) = l1"
    by (rule bit_word_eqI)
       (auto simp: encode_xfs_extent_def bit_simps decode_xfs_extent_def mask_literals)
  show ?thesis using 0 1 by (simp add: prod_eq_iff)
qed




lemma div_mod_add_small:
  fixes a i m :: nat
  assumes "a mod m + i < m"
  shows "(a + i) div m = a div m" "(a + i) mod m = a mod m + i"
proof -
  have a: "a = m * (a div m) + a mod m" by simp
  show d: "(a + i) div m = a div m"
  proof (rule div_nat_eqI)
    show "m * (a div m) \<le> a + i" using a by linarith
    have "m * Suc (a div m) = m * (a div m) + m" by simp
    then show "a + i < m * Suc (a div m)" using a assms by linarith
  qed
  have "a + i = m * ((a + i) div m) + (a + i) mod m" by simp
  then show "(a + i) mod m = a mod m + i" using a unfolding d by linarith
qed

lemma two_digits_unique:
  fixes x y b c m :: nat
  assumes "x * m + b = y * m + c" "b < m" "c < m"
  shows "x = y" "b = c"
proof -
  have "(x * m + b) div m = (y * m + c) div m" "(x * m + b) mod m = (y * m + c) mod m"
    using assms(1) by simp_all
  then show "x = y" "b = c" using assms(2,3) by simp_all
qed

lemma factor_less: "(a :: nat) * b < c \<Longrightarrow> 1 \<le> b \<Longrightarrow> a < c"
  by (rule le_less_trans [of a "a * b" c]) simp_all

lemma unat_drop_div: "unat (drop_bit n (x :: 'a::len word)) = unat x div 2 ^ n"
  by (subst unat_drop_bit_eq) (rule drop_bit_eq_div)

lemma unat_take_mod: "unat (take_bit n (x :: 'a::len word)) = unat x mod 2 ^ n"
  by (subst unsigned_take_bit_eq) (rule take_bit_eq_mod)

lemma unat_shift_split:
  "unat (x :: 'a::len word) = 2 ^ n * unat (drop_bit n x) + unat (take_bit n x)"
  by (simp only: unat_drop_div unat_take_mod mult_div_mod_eq)

lemma xal_fsbno_offset_xfs:
  assumes "h_be xal = Be_xfs b" "unat (sb_agblklog (h_sb xal)) \<le> 30"
  shows "xal_fsbno_offset xal fsbno =
    (drop_bit (unat (sb_agblklog (h_sb xal))) fsbno * ucast (sb_agblocks (h_sb xal))
       + take_bit (unat (sb_agblklog (h_sb xal))) fsbno) * ucast (sb_blocksize (h_sb xal))"
  using assms by (simp add: xal_fsbno_offset_def Let_def scast_mask take_bit_eq_mask)

lemma add_within_group:
  assumes "n < 64" "unat (take_bit n (s :: u64)) + i < 2 ^ n"
  shows "drop_bit n (s + of_nat i) = drop_bit n s" "take_bit n (s + of_nat i) = take_bit n s + of_nat i"
proof -
  have i: "i < 2 ^ n" using assms(2) by simp
  have n: "(2::nat) ^ n < 2 ^ 64" using assms(1) by (simp only: power_strict_increasing_iff)
  have ui: "unat (of_nat i :: u64) = i"
    using i n by (simp add: unat_of_nat take_bit_nat_eq_self)
  have s: "unat s = 2 ^ n * unat (drop_bit n s) + unat (take_bit n s)" by (rule unat_shift_split)
  have "unat (drop_bit n s) = unat s div 2 ^ n" by (rule unat_drop_div)
  also have "\<dots> < 2 ^ (64 - n)"
  proof (rule less_mult_imp_div_less)
    have "unat s < 2 ^ 64" using unsigned_less [of s, where ?'a = nat] by simp
    also have "(2::nat) ^ 64 = 2 ^ (64 - n) * 2 ^ n" using assms(1) by (simp only: power_add [symmetric]) simp
    finally show "unat s < 2 ^ (64 - n) * 2 ^ n" .
  qed
  finally have "Suc (unat (drop_bit n s)) \<le> 2 ^ (64 - n)" by simp
  then have "2 ^ n * Suc (unat (drop_bit n s)) \<le> 2 ^ n * 2 ^ (64 - n)" by (rule mult_le_mono2)
  also have "(2::nat) ^ n * 2 ^ (64 - n) = 2 ^ 64" using assms(1) by (simp only: power_add [symmetric]) simp
  finally have fits: "unat s + i < 2 ^ 64" using s assms(2) by simp
  have sum: "unat (s + of_nat i) = unat s + i"
    using unat_add_no_wrap [of s "of_nat i"] ui fits by simp
  have b: "unat s mod 2 ^ n + i < 2 ^ n" using assms(2) by (simp only: unat_take_mod)
  note d = div_mod_add_small(1) [OF b] and m = div_mod_add_small(2) [OF b]
  show "drop_bit n (s + of_nat i) = drop_bit n s"
    by (rule unsigned_word_eqI [where ?'a = nat]) (simp only: unat_drop_div sum d)
  have "unat (take_bit n s + of_nat i) = unat (take_bit n s) + i"
    using unat_add_no_wrap [of "take_bit n s" "of_nat i"] ui assms(2) n by simp
  then show "take_bit n (s + of_nat i) = take_bit n s + of_nat i"
    by (intro unsigned_word_eqI [where ?'a = nat]) (simp only: unat_take_mod sum m)
qed

text \<open>
  C20: the blocks of an extent that does not leave its allocation group lie one after the other on
  the device, one block size apart.
\<close>

theorem extent_contiguous_on_disk:
  assumes "h_be xal = Be_xfs b" "unat (sb_agblklog (h_sb xal)) \<le> 30"
    and "unat (take_bit (unat (sb_agblklog (h_sb xal))) s) + i < 2 ^ unat (sb_agblklog (h_sb xal))"
  shows "xal_fsbno_offset xal (s + of_nat i) =
    xal_fsbno_offset xal s + of_nat i * ucast (sb_blocksize (h_sb xal))"
proof -
  have "unat (sb_agblklog (h_sb xal)) < 64" using assms(2) by simp
  note g = add_within_group [OF this assms(3)]
  show ?thesis by (simp add: xal_fsbno_offset_xfs [OF assms(1,2)] g algebra_simps)
qed

text \<open>Distinct valid block numbers have distinct disk offsets.\<close>

lemma xal_fsbno_offset_inj:
  assumes be: "h_be xal = Be_xfs b" "unat (sb_agblklog (h_sb xal)) \<le> 30"
    and fits: "unat (sb_agcount (h_sb xal)) * unat (sb_agblocks (h_sb xal)) * unat (sb_blocksize (h_sb xal)) < 2 ^ 64"
    and bs: "sb_blocksize (h_sb xal) \<noteq> 0"
    and valid: "\<And>x. x \<in> {f, g} \<Longrightarrow> unat (drop_bit (unat (sb_agblklog (h_sb xal))) x) < unat (sb_agcount (h_sb xal))
      \<and> unat (take_bit (unat (sb_agblklog (h_sb xal))) x) < unat (sb_agblocks (h_sb xal))"
    and eq: "xal_fsbno_offset xal f = xal_fsbno_offset xal g"
  shows "f = g"
proof -
  let ?n = "unat (sb_agblklog (h_sb xal))" and ?A = "unat (sb_agblocks (h_sb xal))"
  let ?B = "unat (sb_blocksize (h_sb xal))" and ?C = "unat (sb_agcount (h_sb xal))"
  have off: "unat (xal_fsbno_offset xal x) = (unat (drop_bit ?n x) * ?A + unat (take_bit ?n x)) * ?B"
    if "x \<in> {f, g}" for x
  proof -
    note v = valid [OF that]
    have "unat (drop_bit ?n x) * ?A + unat (take_bit ?n x) < Suc (unat (drop_bit ?n x)) * ?A"
      using v by simp
    also have "\<dots> \<le> ?C * ?A" using v by (intro mult_le_mono1) simp
    finally have lin: "unat (drop_bit ?n x) * ?A + unat (take_bit ?n x) < ?C * ?A" .
    then have prod: "(unat (drop_bit ?n x) * ?A + unat (take_bit ?n x)) * ?B < 2 ^ 64"
      using fits by (meson less_imp_le_nat mult_le_mono1 order_le_less_trans)
    have B: "1 \<le> ?B" using bs by (simp add: Suc_le_eq unat_gt_0)
    have lin64: "unat (drop_bit ?n x) * ?A + unat (take_bit ?n x) < 2 ^ 64"
      using prod B by (rule factor_less)
    have mul: "unat (drop_bit ?n x * ucast (sb_agblocks (h_sb xal))) = unat (drop_bit ?n x) * ?A"
      using unat_mult_no_wrap [of "drop_bit ?n x" "ucast (sb_agblocks (h_sb xal))"] lin64 by simp
    have lin: "unat (drop_bit ?n x * ucast (sb_agblocks (h_sb xal)) + take_bit ?n x)
        = unat (drop_bit ?n x) * ?A + unat (take_bit ?n x)"
      using unat_add_no_wrap [of "drop_bit ?n x * ucast (sb_agblocks (h_sb xal))" "take_bit ?n x"]
        mul lin64 by simp
    then have "unat (drop_bit ?n x * ucast (sb_agblocks (h_sb xal)) + take_bit ?n x)
        * unat (ucast (sb_blocksize (h_sb xal)) :: u64) < 2 ^ LENGTH(64)"
      using prod by simp
    from unat_mult_no_wrap [OF this] show ?thesis
      using lin by (simp add: xal_fsbno_offset_xfs [OF be])
  qed
  have "unat (drop_bit ?n f) * ?A + unat (take_bit ?n f) = unat (drop_bit ?n g) * ?A + unat (take_bit ?n g)"
  proof -
    have "(unat (drop_bit ?n f) * ?A + unat (take_bit ?n f)) * ?B =
        (unat (drop_bit ?n g) * ?A + unat (take_bit ?n g)) * ?B"
      using off [of f, symmetric] off [of g] eq by (simp only: insert_iff simp_thms)
    moreover have "?B \<noteq> 0" using bs by (simp add: unat_eq_0)
    ultimately show ?thesis by (simp only: mult_cancel2) blast
  qed
  note two_digits_unique [OF this]
  then have "unat (drop_bit ?n f) = unat (drop_bit ?n g)" "unat (take_bit ?n f) = unat (take_bit ?n g)"
    using valid [of f] valid [of g] by simp_all
  then show ?thesis using unat_shift_split [of f ?n] unat_shift_split [of g ?n]
    by (intro unsigned_word_eqI [where ?'a = nat]) simp
qed


text \<open>The conversions to bytes and to logical blocks name the same place.\<close>

lemma div_mult_exact:
  fixes x :: u64 and l :: u32
  assumes "unat l dvd unat x"
  shows "unat (x div ucast l) * unat l = unat x"
  using assms by (simp add: unat_div)

lemma pow2_dvd_unat_mult:
  assumes "k \<le> 64" "2 ^ k dvd unat (ucast (b :: u32) :: u64)"
  shows "2 ^ k dvd unat (x * ucast b :: u64)"
proof -
  have "2 ^ k dvd (2::nat) ^ 64" using assms(1) by (rule le_imp_power_dvd)
  moreover have "2 ^ k dvd unat x * unat (ucast b :: u64)" using assms(2) by (rule dvd_mult)
  ultimately show ?thesis by (simp add: unat_word_ariths dvd_mod)
qed

text \<open>
  C22: where the device block size is a power of two that divides the file system block size, the
  conversion to device blocks succeeds wherever the one to bytes does, and denotes the same bytes.
\<close>

theorem extent_lba_is_bytes:
  assumes lba: "unat (sb_lba_blksze (h_sb xal)) = 2 ^ k" "2 ^ k dvd unat (sb_blocksize (h_sb xal))"
    and be: "\<And>c. h_be xal \<noteq> Be_other c"
    and bytes: "xal_extent_in_bytes xal (Some e) = Ok b"
  shows "\<exists>l. xal_extent_in_lba xal (Some e) = Ok l
    \<and> unat (c_start_offset l) * 2 ^ k = unat (c_start_offset b)
    \<and> unat (c_start_block l) * 2 ^ k = unat (c_start_block b)
    \<and> unat (c_size l) * 2 ^ k = unat (c_size b)"
proof -
  let ?lb = "sb_lba_blksze (h_sb xal)" and ?bs = "sb_blocksize (h_sb xal)"
  have "(2::nat) ^ k < 2 ^ 32" using unsigned_less [of ?lb, where ?'a = nat] lba(1) by simp
  then have k: "k \<le> 64"
    using power_less_imp_less_exp [of "2::nat" k 32] by simp
  have nz: "?lb \<noteq> 0" using lba(1) by (metis power_not_zero unat_0 zero_neq_numeral)
  have fl: "x_flag e AND 4 = 0" using bytes by (auto simp: xal_extent_in_bytes_def split: if_splits)
  have dv: "unat ?lb dvd unat (x * ucast ?bs :: u64)" for x
    using pow2_dvd_unat_mult [OF k, of ?bs x] lba by simp
  have off: "\<exists>y. xal_fsbno_offset xal s = y * ucast ?bs" for s
    using be by (cases "h_be xal") (auto simp: xal_fsbno_offset_def Let_def)
  have "unat ?lb dvd unat (xal_fsbno_offset xal s)" for s using off [of s] dv by auto
  note exact = div_mult_exact [OF this] div_mult_exact [OF dv]
  show ?thesis using bytes exact
    by (auto simp: xal_extent_in_lba_def xal_extent_in_bytes_def Let_def nz fl lba(1) [symmetric])
qed

section \<open>Inode numbers split and join\<close>

definition ino_encode :: "xal_sb \<Rightarrow> nat \<Rightarrow> nat \<Rightarrow> nat \<Rightarrow> u64" where
  "ino_encode sb agno agbno agbino =
     of_nat ((agno * 2 ^ unat (sb_agblklog sb) + agbno) * 2 ^ unat (sb_inopblog sb) + agbino)"

text \<open>
  C23: an inode number split into allocation group, block and inode within the block gives the three it
  was put together from, as long as block and inode take at most 32 bits together.
\<close>

theorem ino_split_join:
  assumes bits: "unat (sb_agblklog sb) + unat (sb_inopblog sb) \<le> 32"
    and range: "agno < 2 ^ 32" "agbno < 2 ^ unat (sb_agblklog sb)" "agbino < 2 ^ unat (sb_inopblog sb)"
  shows "xal_ino_decode_absolute sb (ino_encode sb agno agbno agbino) = (of_nat agno, of_nat agbno, of_nat agbino)"
proof -
  let ?a = "unat (sb_agblklog sb)" and ?p = "unat (sb_inopblog sb)"
  define V where "V = (agno * 2 ^ ?a + agbno) * 2 ^ ?p + agbino"
  let ?ino = "ino_encode sb agno agbno agbino"
  have dp: "V div 2 ^ ?p = agno * 2 ^ ?a + agbno" and mp: "V mod 2 ^ ?p = agbino"
    using range(3) by (simp_all add: V_def)
  have da: "V div 2 ^ (?p + ?a) = agno"
    using range(2) by (simp add: power_add div_mult2_eq dp)
  have ma: "V div 2 ^ ?p mod 2 ^ ?a = agbno" using range(2) by (simp add: dp)
  have "V < (agno * 2 ^ ?a + agbno + 1) * 2 ^ ?p" using range(3) by (simp add: V_def)
  also have "\<dots> \<le> ((agno + 1) * 2 ^ ?a) * 2 ^ ?p" using range(2) by (intro mult_le_mono1) simp
  also have "\<dots> = (agno + 1) * 2 ^ (?a + ?p)" by (simp add: power_add algebra_simps)
  also have "\<dots> \<le> 2 ^ 32 * 2 ^ 32"
  proof (rule mult_le_mono)
    show "agno + 1 \<le> 2 ^ 32" using range(1) by simp
    show "(2::nat) ^ (?a + ?p) \<le> 2 ^ 32" using bits by (rule power_increasing) simp
  qed
  finally have V: "V < 2 ^ 64" by simp
  have "?ino = of_nat V" by (simp only: ino_encode_def V_def)
  then have uV: "unat ?ino = V" using V by (simp add: unat_of_nat take_bit_nat_eq_self)
  have lo: "unat (ucast ?ino :: u32) = take_bit 32 V" by (simp add: unsigned_ucast_eq uV)
  have seq: "(ucast (drop_bit (?p + ?a) ?ino) :: u32) = of_nat agno"
    by (rule unsigned_word_eqI [where ?'a = nat])
       (simp only: unsigned_ucast_eq unat_drop_div uV da unat_of_nat take_bit_eq_mod)
  have p32: "?p \<le> 32" "?a \<le> 32 - ?p" using bits by simp_all
  have "take_bit ?a (drop_bit ?p (take_bit 32 V)) = take_bit ?a (drop_bit ?p V)"
    using p32 by (simp add: drop_bit_take_bit min_def)
  then have ag: "take_bit ?a (drop_bit ?p (take_bit 32 V)) = agbno"
    using ma by (simp only: take_bit_eq_mod drop_bit_eq_div)
  have rel: "xal_ino_decode_relative sb i =
      (take_bit ?a (ucast (drop_bit ?p i)), ucast (take_bit ?p (ucast i :: u64)))" for i
    by (simp only: xal_ino_decode_relative_def mask_and_mod)
  have "(2::nat) ^ ?a \<le> 2 ^ 64" using bits by (intro power_increasing) simp_all
  then have "agbno < 2 ^ 64" using range(2) by (rule less_le_trans [rotated])
  then have agbno: "fst (xal_ino_decode_relative sb (ucast ?ino)) = of_nat agbno"
    by (intro unsigned_word_eqI [where ?'a = nat])
       (use ag in \<open>simp add: rel unsigned_take_bit_eq unat_drop_bit_eq lo unat_of_nat\<close>)
  have bp: "take_bit ?p (take_bit 32 V) = agbino"
    using p32 mp by (simp add: min_def) (simp only: take_bit_eq_mod)
  have "(2::nat) ^ ?p \<le> 2 ^ 32" using bits by (intro power_increasing) simp_all
  then have "agbino < 2 ^ 32" using range(3) by (rule less_le_trans [rotated])
  then have agbino: "snd (xal_ino_decode_relative sb (ucast ?ino)) = of_nat agbino"
    by (intro unsigned_word_eqI [where ?'a = nat])
       (use bp in \<open>simp add: rel unsigned_take_bit_eq unsigned_ucast_eq uV unat_of_nat\<close>)
  show ?thesis
    using seq agbno agbino by (simp add: xal_ino_decode_absolute_def prod_eq_iff)
qed

section \<open>The properties\<close>

text \<open>
  C19: decoding a packed extent record loses nothing and is the inverse of the format's
  encoding: a decoded record encodes to itself, its fields are within the 54, 52 and 21 bits of the
  format, and every extent within these bounds is decoded from its record.
\<close>

theorem xfs_extent_codec:
  "encode_xfs_extent (decode_xfs_extent l0 l1) = (l0, l1) \<and> xfs_extent_ok (decode_xfs_extent l0 l1)
   \<and> (xfs_extent_ok e \<longrightarrow> (case encode_xfs_extent e of (l0, l1) \<Rightarrow> decode_xfs_extent l0 l1) = e)"
  using xfs_extent_decode_then_encode decode_xfs_extent_ok xfs_extent_encode_then_decode by blast

theorem xfs_extent_codec_witness:
  "(case encode_xfs_extent \<lparr>x_start_offset = 3, x_start_block = 2 ^ 50 + 7, x_nblocks = 9, x_flag = 1\<rparr> of
      (l0, l1) \<Rightarrow> decode_xfs_extent l0 l1)
    = \<lparr>x_start_offset = 3, x_start_block = 2 ^ 50 + 7, x_nblocks = 9, x_flag = 1\<rparr>"
proof -
  have "xfs_extent_ok \<lparr>x_start_offset = 3, x_start_block = 2 ^ 50 + 7, x_nblocks = 9, x_flag = 1\<rparr>"
    by (simp add: xfs_extent_ok_def)
  then show ?thesis using xfs_extent_codec by blast
qed

text \<open>A small XFS handle for the witnesses: four groups of 16000 blocks of 4096 bytes.\<close>

definition small_xfs :: xal where
  "small_xfs = \<lparr>h_inodes = \<lparr>reserved = 0, allocated = 0, growby = 0, free = 0, element_size = 0, shm_name = None,
       mapped = False, memory = (\<lambda>_. zero_inode)\<rparr>,
     h_extents = \<lparr>reserved = 0, allocated = 0, growby = 0, free = 0, element_size = 0, shm_name = None,
       mapped = False, memory = (\<lambda>_. zero_extent)\<rparr>,
     h_root_idx = 0,
     h_sb = \<lparr>sb_blocksize = 4096, sb_sectsize = 512, sb_inodesize = 512, sb_inopblock = 8, sb_inopblog = 3,
       sb_icount = 64, sb_nallocated = 4, sb_rootino = 128, sb_agblocks = 16000, sb_agblklog = 14,
       sb_agcount = 4, sb_dirblocksize = 4096, sb_lba_blksze = 512\<rparr>,
     h_be = Be_xfs \<lparr>xfs_buf = (\<lambda>_. 0), xfs_dinodes = None, xfs_dinodes_map = (\<lambda>_. None), xfs_ags = []\<rparr>,
     h_index_state = XAL_STATE_CLEAN, h_seq_lock = 0, h_state = False, h_state_shm_name = None,
     h_procrole = XAL_PROCROLE_SINGLE, h_indexing = False, h_last_err = None\<rparr>"

theorem extent_contiguous_on_disk_witness:
  "xal_fsbno_offset small_xfs (16400 + of_nat 5) = xal_fsbno_offset small_xfs 16400 + of_nat 5 * 4096"
  using extent_contiguous_on_disk [of small_xfs _ 16400 5] by (simp add: small_xfs_def take_bit_eq_mod)

text \<open>
  C21: two different blocks of the file system have different offsets on the device.
\<close>

theorem fsbno_offsets_distinct:
  assumes "h_be xal = Be_xfs b" "unat (sb_agblklog (h_sb xal)) \<le> 30" "sb_blocksize (h_sb xal) \<noteq> 0"
    and "unat (sb_agcount (h_sb xal)) * unat (sb_agblocks (h_sb xal)) * unat (sb_blocksize (h_sb xal)) < 2 ^ 64"
    and "\<And>x. x \<in> {f, g} \<Longrightarrow> unat (drop_bit (unat (sb_agblklog (h_sb xal))) x) < unat (sb_agcount (h_sb xal))
      \<and> unat (take_bit (unat (sb_agblklog (h_sb xal))) x) < unat (sb_agblocks (h_sb xal))"
    and "f \<noteq> g"
  shows "xal_fsbno_offset xal f \<noteq> xal_fsbno_offset xal g"
  using xal_fsbno_offset_inj [OF assms(1,2,4,3), of f g] assms(5,6) by blast

theorem fsbno_offsets_distinct_witness:
  "xal_fsbno_offset small_xfs 15999 \<noteq> xal_fsbno_offset small_xfs 16384"
  by (rule fsbno_offsets_distinct [of small_xfs])
     (auto simp: small_xfs_def drop_bit_eq_div take_bit_eq_mod)

theorem extent_lba_is_bytes_witness:
  "\<exists>l. xal_extent_in_lba small_xfs (Some \<lparr>x_start_offset = 1, x_start_block = 16385, x_nblocks = 2, x_flag = 0\<rparr>) = Ok l
    \<and> unat (c_size l) * 2 ^ 9 = 8192"
  using extent_lba_is_bytes [of small_xfs 9 "\<lparr>x_start_offset = 1, x_start_block = 16385, x_nblocks = 2, x_flag = 0\<rparr>"]
  by (simp add: small_xfs_def xal_extent_in_bytes_def) blast

theorem ino_split_join_witness:
  "xal_ino_decode_absolute (h_sb small_xfs) (ino_encode (h_sb small_xfs) 3 9999 7) = (3, 9999, 7)"
  using ino_split_join [of "h_sb small_xfs" 3 9999 7] by (simp add: small_xfs_def)

end
