(* ===== verification/Xal_Lookup.thy ===== *)
theory Xal_Lookup
  imports Xal_Extent
begin

text \<open>
  Path lookup (\<open>src/src/xal.c\<close>, and \<open>xal_be_fiemap_get_inode()\<close> of \<open>src/src/xal_be_fiemap.c\<close>): the name
  comparisons, the search of the sorted index by path components, the hash-map mode, and the
  public lookups. The theory also states when an index is well formed and what resolving a path
  in it means, and shows that the search computes exactly that.
\<close>

section \<open>Name comparison\<close>

definition compare_name_to_inode :: "cstring \<Rightarrow> xal_inode \<Rightarrow> int" where
  "compare_name_to_inode key inode = strcmp (cstr key) (i_cname inode)"

definition compare_inode :: "xal_inode \<Rightarrow> xal_inode \<Rightarrow> int" where
  "compare_inode ia ib = strcmp (i_cname ia) (i_cname ib)"

definition compare_dirent :: "cstring \<Rightarrow> cstring \<Rightarrow> int" where
  "compare_dirent da db = strcmp (cstr da) (cstr db)"

interpretation by_name: three_way compare_name_to_inode cstr i_cname
  by unfold_locales (simp_all add: compare_name_to_inode_def i_cname_def strcmp_neg_iff strcmp_zero_iff)

interpretation by_inode: sort_order compare_inode i_cname
  by unfold_locales (simp_all add: compare_inode_def i_cname_def strcmp_neg_iff strcmp_zero_iff)

interpretation by_dirent: sort_order compare_dirent cstr
  by unfold_locales (simp_all add: compare_dirent_def strcmp_neg_iff strcmp_zero_iff)

section \<open>The search\<close>

text \<open>
  What follows \<open>basepath\<close> in \<open>path\<close>: nothing or a slash and more; \<open>None\<close> when the path is neither the
  base path nor under it.
\<close>

definition path_under_basepath :: "cstring \<Rightarrow> cstring \<Rightarrow> cstring option" where
  "path_under_basepath path basepath =
     (if strncmp path basepath (length basepath) \<noteq> 0 then None
      else (case drop (length basepath) path of
              [] \<Rightarrow> Some []
            | c # cs \<Rightarrow> if c \<noteq> slash then None else Some (c # cs)))"

text \<open>
  One turn of the loop looks the next component up in the span of the current inode. The current
  inode's union is read as directory entries whatever its type is.
\<close>

definition span_stale :: "xal \<Rightarrow> u32 \<Rightarrow> u32 \<Rightarrow> bool" where
  "span_stale xal span_idx span_count \<longleftrightarrow>
     span_count \<noteq> 0 \<and> (allocated (h_inodes xal) < ucast span_count
       \<or> allocated (h_inodes xal) - ucast span_count < ucast span_idx)"

definition span_search :: "xal \<Rightarrow> cstring \<Rightarrow> u32 \<Rightarrow> u32 \<Rightarrow> nat option" where
  "span_search xal component span_idx span_count =
     (if span_count \<noteq> 0 then
        map_option (\<lambda>k. unat span_idx + k)
          (bsearch compare_name_to_inode component (\<lambda>k. inode_of xal (unat span_idx + k)) (unat span_count))
      else None)"

function search_loop :: "xal \<Rightarrow> nat \<Rightarrow> cstring \<Rightarrow> nat res" where
  "search_loop xal search search_begin =
     (let component = takeWhile (\<lambda>b. b \<noteq> slash) search_begin;
          search_end = dropWhile (\<lambda>b. b \<noteq> slash) search_begin;
          span_idx = i_idx (inode_of xal search);
          span_count = i_count (inode_of xal search)
      in if span_stale xal span_idx span_count then Fail ESTALE
         else (case span_search xal component span_idx span_count of
                 None \<Rightarrow> Fail ENOENT
               | Some child \<Rightarrow>
                   (case search_end of
                      [] \<Rightarrow> Ok child
                    | _ # begin' \<Rightarrow> search_loop xal child begin')))"
  by pat_completeness auto
termination
proof (relation "measure (\<lambda>(xal, search, s). length s)", goal_cases)
  case (2 xal search s comp send sidx scnt child x begin')
  then have "dropWhile (\<lambda>b. b \<noteq> slash) s = x # begin'" by blast
  then have "Suc (length begin') \<le> length s" by (metis length_Cons length_dropWhile_le)
  then show ?case by simp
qed simp

declare search_loop.simps [simp del]

definition search_by_traversal :: "xal \<Rightarrow> nat option \<Rightarrow> cstring \<Rightarrow> cstring \<Rightarrow> nat res" where
  "search_by_traversal xal root path basepath =
     (case root of
        None \<Rightarrow> Fail EINVAL
      | Some root \<Rightarrow>
          if path = [] then Fail EINVAL
          else (case path_under_basepath path basepath of
                  None \<Rightarrow> Fail EINVAL
                | Some remainder \<Rightarrow>
                    if remainder = [] \<or> remainder = [slash] then Ok root
                    else search_loop xal root (tl remainder)))"

definition xal_be_fiemap_get_inode :: "xal \<Rightarrow> cstring option \<Rightarrow> nat res" where
  "xal_be_fiemap_get_inode xal path =
     (case path of
        None \<Rightarrow> Fail EINVAL
      | Some path \<Rightarrow>
          (case h_be xal of
             Be_fiemap be \<Rightarrow>
               (case xal_inode_at xal (h_root_idx xal) of
                  None \<Rightarrow> Fail ESTALE
                | Some root \<Rightarrow>
                    (let basepath = (case f_subtree be of Some s \<Rightarrow> s | None \<Rightarrow> f_mountpoint be)
                     in case path_under_basepath path basepath of
                          None \<Rightarrow> Fail EINVAL
                        | Some remainder \<Rightarrow>
                            if remainder = [] \<or> remainder = [slash] then Ok root
                            else (case f_path_inode_map be of
                                    Some path_map \<Rightarrow>
                                      (case path_map path of None \<Rightarrow> Fail ENOENT | Some i \<Rightarrow> Ok i)
                                  | None \<Rightarrow> search_by_traversal xal (Some root) path basepath)))
           | _ \<Rightarrow> Fail EINVAL))"

text \<open>
  The public lookup reads the sequence lock before and after. \<open>act_seqlock\<close> is the value of the second
  reading, which another thread or process may have changed meanwhile; without interference it is
  the sequence lock of the handle.
\<close>

definition xal_get_inode :: "xal option \<Rightarrow> cstring option \<Rightarrow> u32 \<Rightarrow> nat res" where
  "xal_get_inode xal path act_seqlock =
     (case (xal, path) of
        (Some xal, Some path) \<Rightarrow>
          if xal_is_dirty xal then Fail ESTALE
          else
            (let exp_seqlock = xal_get_seq_lock xal
             in if is_odd exp_seqlock then Fail ESTALE
                else if h_root_idx xal = XAL_POOL_IDX_NONE then Fail EINVAL
                else
                  (let check = (\<lambda>r. if exp_seqlock \<noteq> act_seqlock then Fail ESTALE else r)
                   in case h_be xal of
                        Be_xfs _ \<Rightarrow>
                          (case xal_inode_at xal (h_root_idx xal) of
                             None \<Rightarrow> Fail ESTALE
                           | Some root \<Rightarrow> check (search_by_traversal xal (Some root) path []))
                      | Be_fiemap _ \<Rightarrow> check (xal_be_fiemap_get_inode xal (Some path))
                      | Be_other _ \<Rightarrow> check (Fail EINVAL)))
      | _ \<Rightarrow> Fail EINVAL)"

text \<open>Both return a pointer into the inode found, which the model names by the inode.\<close>

definition xal_get_extents :: "xal option \<Rightarrow> cstring option \<Rightarrow> u32 \<Rightarrow> nat res" where
  "xal_get_extents xal path act_seqlock =
     bind_res (xal_get_inode xal path act_seqlock)
       (\<lambda>inode. if \<not> xal_inode_is_file (inode_of (the xal) inode) then Fail EINVAL else Ok inode)"

definition xal_get_dentries :: "xal option \<Rightarrow> cstring option \<Rightarrow> u32 \<Rightarrow> nat res" where
  "xal_get_dentries xal path act_seqlock =
     bind_res (xal_get_inode xal path act_seqlock)
       (\<lambda>inode. if \<not> xal_inode_is_dir (inode_of (the xal) inode) then Fail ENOTDIR else Ok inode)"

section \<open>A well-formed index\<close>

text \<open>The pool elements a directory inode claims as its entries.\<close>

definition children :: "xal \<Rightarrow> nat \<Rightarrow> nat list" where
  "children xal d =
     [unat (i_idx (inode_of xal d)) ..< unat (i_idx (inode_of xal d)) + unat (i_count (inode_of xal d))]"

abbreviation names_of :: "xal \<Rightarrow> nat list \<Rightarrow> cstring list" where
  "names_of xal cs \<equiv> map (\<lambda>c. i_cname (inode_of xal c)) cs"

abbreviation n_inodes :: "xal \<Rightarrow> nat" where
  "n_inodes xal \<equiv> unat (free (h_inodes xal))"

text \<open>
  The entries of a directory come after it in the pool and within the claimed part, name it as their
  parent, are files or directories, and are sorted by name.
\<close>

definition dir_ok :: "xal \<Rightarrow> nat \<Rightarrow> bool" where
  "dir_ok xal d \<longleftrightarrow>
     (\<forall>c \<in> set (children xal d). d < c \<and> c < n_inodes xal \<and> unat (i_parent (inode_of xal c)) = d
        \<and> (xal_inode_is_dir (inode_of xal c) \<or> xal_inode_is_file (inode_of xal c)))
     \<and> sorted (names_of xal (children xal d))"

definition root_ok :: "xal \<Rightarrow> bool" where
  "root_ok xal \<longleftrightarrow> h_root_idx xal = 0 \<and> 0 < n_inodes xal \<and> xal_inode_is_dir (inode_of xal 0)
     \<and> i_parent (inode_of xal 0) = XAL_POOL_IDX_NONE"

definition tree_ok :: "xal \<Rightarrow> bool" where
  "tree_ok xal \<longleftrightarrow> pool_inv (h_inodes xal) \<and> n_inodes xal < 2 ^ 32
     \<and> (\<forall>d < n_inodes xal. xal_inode_is_dir (inode_of xal d) \<longrightarrow> dir_ok xal d)"

definition index_wf :: "xal \<Rightarrow> bool" where
  "index_wf xal \<longleftrightarrow> tree_ok xal \<and> root_ok xal"

text \<open>
  What a mounted file system guarantees of names, and what the search relies on: a name is not
  empty, holds neither a slash nor a NUL byte, and no directory has two entries of one name.
\<close>

definition name_ok :: "xal_inode \<Rightarrow> bool" where
  "name_ok i \<longleftrightarrow> i_name i \<noteq> [] \<and> slash \<notin> set (i_name i) \<and> 0 \<notin> set (i_name i)
     \<and> unat (i_namelen i) = length (i_name i)"

definition names_ok :: "xal \<Rightarrow> bool" where
  "names_ok xal \<longleftrightarrow> (\<forall>d < n_inodes xal. xal_inode_is_dir (inode_of xal d) \<longrightarrow>
     distinct (names_of xal (children xal d)) \<and> (\<forall>c \<in> set (children xal d). name_ok (inode_of xal c)))"

section \<open>Resolving a path\<close>

text \<open>
  The meaning of a path in an index: following the components from inode to inode through the
  entries of directories.
\<close>

inductive resolves :: "xal \<Rightarrow> nat \<Rightarrow> cstring list \<Rightarrow> nat \<Rightarrow> bool" for xal where
  here: "resolves xal i [] i"
| there: "xal_inode_is_dir (inode_of xal d) \<Longrightarrow> c \<in> set (children xal d) \<Longrightarrow>
     resolves xal c cs i \<Longrightarrow> resolves xal d (i_cname (inode_of xal c) # cs) i"

inductive_simps resolves_Nil [simp]: "resolves xal i [] j"
inductive_simps resolves_Cons: "resolves xal i (c # cs) j"

definition join_path :: "cstring list \<Rightarrow> cstring" where
  "join_path cs = concat (map (\<lambda>c. slash # c) cs)"

definition plain :: "cstring list \<Rightarrow> bool" where
  "plain cs \<longleftrightarrow> (\<forall>c \<in> set cs. c \<noteq> [] \<and> slash \<notin> set c \<and> 0 \<notin> set c)"

text \<open>The index an XFS or FIEMAP handle prefixes its paths with.\<close>

definition basepath_of :: "xal \<Rightarrow> cstring" where
  "basepath_of xal =
     (case h_be xal of
        Be_fiemap be \<Rightarrow> (case f_subtree be of Some s \<Rightarrow> s | None \<Rightarrow> f_mountpoint be)
      | _ \<Rightarrow> [])"

lemma join_path_simps [simp]: "join_path [] = []" "join_path (c # cs) = slash # c @ join_path cs"
  by (simp_all add: join_path_def)

lemma join_path_append [simp]: "join_path (cs @ ds) = join_path cs @ join_path ds"
  by (simp add: join_path_def)

lemma resolves_snoc:
  assumes "resolves xal i cs d" "xal_inode_is_dir (inode_of xal d)" "c \<in> set (children xal d)"
  shows "resolves xal i (cs @ [i_cname (inode_of xal c)]) c"
  using assms by (induction rule: resolves.induct) (auto intro: resolves.intros)

lemma resolves_append:
  "resolves xal i (cs @ ds) j \<longleftrightarrow> (\<exists>k. resolves xal i cs k \<and> resolves xal k ds j)"
  by (induction cs arbitrary: i) (auto simp: resolves_Cons)

subsection \<open>Facts of a well-formed index\<close>

lemma children_nth: "k < unat (i_count (inode_of xal d)) \<Longrightarrow>
    unat (i_idx (inode_of xal d)) + k \<in> set (children xal d)"
  by (simp add: children_def)

lemma tree_okD: "tree_ok xal \<Longrightarrow> d < n_inodes xal \<Longrightarrow> xal_inode_is_dir (inode_of xal d) \<Longrightarrow> dir_ok xal d"
  by (simp add: tree_ok_def)

lemma dir_okD:
  assumes "dir_ok xal d" "c \<in> set (children xal d)"
  shows "d < c" "c < n_inodes xal" "unat (i_parent (inode_of xal c)) = d"
    "xal_inode_is_dir (inode_of xal c) \<or> xal_inode_is_file (inode_of xal c)"
  using assms by (auto simp: dir_ok_def)

lemma resolves_bound:
  assumes "tree_ok xal" "resolves xal i cs j" "i < n_inodes xal"
  shows "i + length cs \<le> j \<and> j < n_inodes xal"
  using assms(2,3)
proof (induction rule: resolves.induct)
  case (there d c cs i)
  have "dir_ok xal d" using there.prems there.hyps(1) by (rule tree_okD [OF assms(1)])
  note c = dir_okD(1,2) [OF this there.hyps(2)]
  show ?case using there.IH [OF c(2)] c(1) by simp
qed simp

lemma n_inodes_le_allocated: "tree_ok xal \<Longrightarrow> n_inodes xal \<le> unat (allocated (h_inodes xal))"
  by (auto simp: tree_ok_def dest: pool_invD)

text \<open>The stale check passes on every span of a well-formed index.\<close>

lemma span_not_stale:
  assumes "tree_ok xal" "d < n_inodes xal" "xal_inode_is_dir (inode_of xal d)"
  shows "\<not> span_stale xal (i_idx (inode_of xal d)) (i_count (inode_of xal d))"
proof (cases "i_count (inode_of xal d) = 0")
  case False
  let ?i = "i_idx (inode_of xal d)" and ?n = "i_count (inode_of xal d)"
  let ?a = "allocated (h_inodes xal)"
  have n: "unat ?n \<noteq> 0" using False by (simp add: unat_eq_0)
  have "unat ?i + (unat ?n - 1) < n_inodes xal"
    by (rule dir_okD(2) [OF tree_okD [OF assms] children_nth]) (use n in simp)
  then have le: "unat ?i + unat ?n \<le> unat ?a"
    using n_inodes_le_allocated [OF assms(1)] n by linarith
  then have "(ucast ?n :: u64) \<le> ?a" by (simp add: word_le_nat_alt)
  then have "unat (?a - ucast ?n) = unat ?a - unat ?n" by (simp add: unat_sub)
  moreover from le have "\<not> unat ?a - unat ?n < unat ?i" "unat ?n \<le> unat ?a" by linarith+
  ultimately show ?thesis by (simp add: span_stale_def word_less_nat_alt)
qed (simp add: span_stale_def)

text \<open>Searching a span finds the entry of that name.\<close>

lemma span_search_iff:
  assumes "tree_ok xal" "names_ok xal" "d < n_inodes xal" "xal_inode_is_dir (inode_of xal d)"
    and "0 \<notin> set component"
  shows "span_search xal component (i_idx (inode_of xal d)) (i_count (inode_of xal d)) = Some c \<longleftrightarrow>
    c \<in> set (children xal d) \<and> i_cname (inode_of xal c) = component"
proof -
  let ?i = "unat (i_idx (inode_of xal d))" and ?n = "unat (i_count (inode_of xal d))"
  let ?base = "\<lambda>k. inode_of xal (?i + k)"
  have names: "names_of xal (children xal d) = map (\<lambda>k. i_cname (?base k)) [0..<?n]"
    by (simp add: children_def map_add_upt [symmetric, of ?i] add.commute comp_def)
  have sorted: "sorted (map (\<lambda>k. i_cname (?base k)) [0..<?n])"
    using tree_okD [OF assms(1,3,4)] by (simp add: dir_ok_def names)
  have distinct: "distinct (map (\<lambda>k. i_cname (?base k)) [0..<?n])"
    using assms(2-4) by (auto simp: names_ok_def names)
  have key: "cstr component = component" using assms(5) by simp
  have zero: "i_count (inode_of xal d) = 0 \<longleftrightarrow> ?n = 0" by (simp add: unat_eq_0)
  show ?thesis
  proof
    assume "span_search xal component (i_idx (inode_of xal d)) (i_count (inode_of xal d)) = Some c"
    then obtain k where "bsearch compare_name_to_inode component ?base ?n = Some k" "c = ?i + k"
      by (auto simp: span_search_def split: if_splits)
    then show "c \<in> set (children xal d) \<and> i_cname (inode_of xal c) = component"
      using by_name.bsearch_Some [of component ?base ?n k] key by (auto simp: children_def)
  next
    assume c: "c \<in> set (children xal d) \<and> i_cname (inode_of xal c) = component"
    then obtain k where k: "c = ?i + k" "k < ?n"
      by (auto simp: children_def) (metis add_diff_inverse_nat less_diff_conv2 not_less)
    then have "bsearch compare_name_to_inode component ?base ?n = Some k"
      using by_name.bsearch_unique [OF sorted distinct k(2), of component] c key by simp
    then show "span_search xal component (i_idx (inode_of xal d)) (i_count (inode_of xal d)) = Some c"
      using k by (simp add: span_search_def zero)
  qed
qed

subsection \<open>The search computes the resolution\<close>

lemma plain_simps [simp]:
  "plain []" "plain (c # cs) \<longleftrightarrow> c \<noteq> [] \<and> slash \<notin> set c \<and> 0 \<notin> set c \<and> plain cs"
  by (auto simp: plain_def)

lemma plain_join_path: "plain cs \<Longrightarrow> 0 \<notin> set (join_path cs)"
  by (induction cs) auto

lemma takeWhile_component: "slash \<notin> set c \<Longrightarrow> takeWhile (\<lambda>b. b \<noteq> slash) (c @ join_path cs) = c"
  by (induction c) (cases cs, auto)

lemma dropWhile_component: "slash \<notin> set c \<Longrightarrow> dropWhile (\<lambda>b. b \<noteq> slash) (c @ join_path cs) = join_path cs"
  by (induction c) (cases cs, auto)

lemma search_loop_component:
  assumes "tree_ok xal" "d < n_inodes xal" "xal_inode_is_dir (inode_of xal d)" "slash \<notin> set c"
  shows "search_loop xal d (c @ join_path cs) =
    (case span_search xal c (i_idx (inode_of xal d)) (i_count (inode_of xal d)) of
       None \<Rightarrow> Fail ENOENT
     | Some child \<Rightarrow>
         (case cs of [] \<Rightarrow> Ok child | c' # cs' \<Rightarrow> search_loop xal child (c' @ join_path cs')))"
  using span_not_stale [OF assms(1-3)] takeWhile_component [OF assms(4)] dropWhile_component [OF assms(4)]
  by (subst search_loop.simps) (auto simp: Let_def split: option.split list.split)

text \<open>
  Every prefix of the path that resolves, short of the whole path, resolves to a directory.
\<close>

definition through_dirs :: "xal \<Rightarrow> nat \<Rightarrow> cstring list \<Rightarrow> bool" where
  "through_dirs xal d cs \<longleftrightarrow>
     (\<forall>k < length cs. \<forall>e. resolves xal d (take k cs) e \<longrightarrow> xal_inode_is_dir (inode_of xal e))"

lemma through_dirs_Cons:
  assumes "through_dirs xal d (c # cs)" "c = i_cname (inode_of xal e)" "e \<in> set (children xal d)"
  shows "xal_inode_is_dir (inode_of xal d)" "through_dirs xal e cs"
proof -
  show dir: "xal_inode_is_dir (inode_of xal d)"
    using assms(1) [unfolded through_dirs_def, rule_format, of 0 d] by simp
  show "through_dirs xal e cs"
    unfolding through_dirs_def
  proof (intro allI impI)
    fix k f assume k: "k < length cs" and r: "resolves xal e (take k cs) f"
    have "resolves xal d (take (Suc k) (c # cs)) f"
      using resolves.there [OF dir assms(3) r] assms(2) by simp
    then show "xal_inode_is_dir (inode_of xal f)"
      using assms(1) k by (auto simp: through_dirs_def)
  qed
qed

lemma search_loop_complete:
  assumes "tree_ok xal" "names_ok xal"
  shows "resolves xal d (c # cs) j \<Longrightarrow> d < n_inodes xal \<Longrightarrow> plain (c # cs) \<Longrightarrow>
    search_loop xal d (c @ join_path cs) = Ok j"
proof (induction cs arbitrary: c d)
  case (Cons c' cs)
  from Cons.prems(1) obtain e where e: "xal_inode_is_dir (inode_of xal d)" "e \<in> set (children xal d)"
    "c = i_cname (inode_of xal e)" "resolves xal e (c' # cs) j"
    by (auto simp: resolves_Cons [of xal d])
  have "span_search xal c (i_idx (inode_of xal d)) (i_count (inode_of xal d)) = Some e"
    using span_search_iff [OF assms Cons.prems(2) e(1)] e Cons.prems(3) by simp
  moreover have "e < n_inodes xal" using dir_okD(2) [OF tree_okD [OF assms(1) Cons.prems(2) e(1)] e(2)] .
  ultimately show ?case
    using Cons.IH [OF e(4)] Cons.prems(3) search_loop_component [OF assms(1) Cons.prems(2) e(1), of c "c' # cs"]
    by simp
next
  case Nil
  from Nil.prems(1) have e: "xal_inode_is_dir (inode_of xal d)" "j \<in> set (children xal d)"
    "c = i_cname (inode_of xal j)"
    by (auto simp: resolves_Cons)
  then have "span_search xal c (i_idx (inode_of xal d)) (i_count (inode_of xal d)) = Some j"
    using span_search_iff [OF assms Nil.prems(2) e(1)] Nil.prems(3) by simp
  then show ?case
    using Nil.prems(3) search_loop_component [OF assms(1) Nil.prems(2) e(1), of c "[]"] by simp
qed

lemma search_loop_sound:
  assumes "tree_ok xal" "names_ok xal"
  shows "d < n_inodes xal \<Longrightarrow> plain (c # cs) \<Longrightarrow> through_dirs xal d (c # cs) \<Longrightarrow>
    search_loop xal d (c @ join_path cs) = Fail ENOENT \<or>
    (\<exists>j. search_loop xal d (c @ join_path cs) = Ok j \<and> resolves xal d (c # cs) j)"
proof (induction cs arbitrary: c d)
  case Nil
  have dir: "xal_inode_is_dir (inode_of xal d)" using Nil.prems(3) by (auto simp: through_dirs_def)
  show ?case
    using search_loop_component [OF assms(1) Nil.prems(1) dir, of c "[]"] Nil.prems(2)
      span_search_iff [OF assms Nil.prems(1) dir, of c] dir
    by (auto simp: resolves_Cons split: option.splits)
next
  case (Cons c' cs)
  have dir: "xal_inode_is_dir (inode_of xal d)" using Cons.prems(3) by (auto simp: through_dirs_def)
  let ?s = "span_search xal c (i_idx (inode_of xal d)) (i_count (inode_of xal d))"
  note step = search_loop_component [OF assms(1) Cons.prems(1) dir, of c "c' # cs"]
  show ?case
  proof (cases ?s)
    case None
    then show ?thesis using step Cons.prems(2) by simp
  next
    case (Some e)
    then have e: "e \<in> set (children xal d)" "i_cname (inode_of xal e) = c"
      using span_search_iff [OF assms Cons.prems(1) dir, of c e] Cons.prems(2) by auto
    have "e < n_inodes xal" using dir_okD(2) [OF tree_okD [OF assms(1) Cons.prems(1) dir] e(1)] .
    moreover have "through_dirs xal e (c' # cs)"
      using through_dirs_Cons(2) [OF Cons.prems(3)] e by simp
    ultimately show ?thesis
      using Cons.IH [of e c'] Cons.prems(2) step Some resolves.there [OF dir e(1)] e(2) by auto
  qed
qed

lemma path_under_basepath_append:
  assumes "0 \<notin> set base" "plain cs"
  shows "path_under_basepath (base @ join_path cs) base = Some (join_path cs)"
proof -
  have "strncmp (base @ join_path cs) base (length base) = 0"
    using assms plain_join_path [OF assms(2)] by (simp add: strncmp_prefix)
  then show ?thesis by (cases cs) (simp_all add: path_under_basepath_def)
qed

lemma join_path_not_slash: "plain cs \<Longrightarrow> cs \<noteq> [] \<Longrightarrow> join_path cs \<noteq> [slash]"
  by (cases cs) auto

lemma search_by_traversal_join:
  assumes "0 \<notin> set base" "plain (c # cs)"
  shows "search_by_traversal xal (Some root) (base @ join_path (c # cs)) base =
    search_loop xal root (c @ join_path cs)"
proof -
  have "join_path (c # cs) \<noteq> [slash]" by (rule join_path_not_slash) (use assms in simp_all)
  then show ?thesis using path_under_basepath_append [OF assms] assms(2) by (simp add: search_by_traversal_def)
qed

section \<open>Lookup by path\<close>

text \<open>
  A reader that neither meets a rebuild nor a pending change: the handle is clean, its sequence lock
  is even and reads the same again at the end.
\<close>

definition undisturbed :: "xal \<Rightarrow> u32 \<Rightarrow> bool" where
  "undisturbed xal act_seqlock \<longleftrightarrow>
     h_index_state xal = XAL_STATE_CLEAN \<and> \<not> is_odd (h_seq_lock xal) \<and> act_seqlock = h_seq_lock xal"

text \<open>The backends that resolve by traversal: XFS, and FIEMAP without a path map.\<close>

definition by_traversal :: "xal \<Rightarrow> bool" where
  "by_traversal xal \<longleftrightarrow>
     (case h_be xal of Be_xfs _ \<Rightarrow> True | Be_fiemap be \<Rightarrow> f_path_inode_map be = None | Be_other _ \<Rightarrow> False)"

lemma root_in_pool:
  assumes "index_wf xal"
  shows "xal_inode_at xal (h_root_idx xal) = Some 0" "h_root_idx xal \<noteq> XAL_POOL_IDX_NONE"
    "0 < n_inodes xal" "xal_inode_is_dir (inode_of xal 0)"
  using assms n_inodes_le_allocated [of xal] by (auto simp: index_wf_def root_ok_def)

lemma xal_get_inode_traversal:
  assumes "index_wf xal" "undisturbed xal act" "by_traversal xal" "0 \<notin> set (basepath_of xal)"
    and "plain (c # cs)"
  shows "xal_get_inode (Some xal) (Some (basepath_of xal @ join_path (c # cs))) act =
    search_loop xal 0 (c @ join_path cs)"
proof -
  note root = root_in_pool [OF assms(1)]
  have pass: "\<not> xal_is_dirty xal" "\<not> is_odd (xal_get_seq_lock xal)" "act = xal_get_seq_lock xal"
    using assms(2) by (simp_all add: undisturbed_def xal_is_dirty_def xal_get_seq_lock_def)
  note path = path_under_basepath_append [OF assms(4,5)]
  note srch = search_by_traversal_join [OF assms(4,5), of xal 0]
  have ne: "join_path (c # cs) \<noteq> [slash]" by (rule join_path_not_slash [OF assms(5)]) simp
  show ?thesis
  proof (cases "h_be xal")
    case (Be_xfs be)
    then show ?thesis using pass srch by (simp add: root xal_get_inode_def basepath_of_def)
  next
    case (Be_fiemap be)
    then have "f_path_inode_map be = None" using assms(3) by (simp add: by_traversal_def)
    moreover have "basepath_of xal = (case f_subtree be of Some s \<Rightarrow> s | None \<Rightarrow> f_mountpoint be)"
      using Be_fiemap by (simp add: basepath_of_def)
    ultimately show ?thesis
      using Be_fiemap pass srch path ne assms(5)
      by (simp add: root xal_get_inode_def xal_be_fiemap_get_inode_def Let_def)
  qed (use assms(3) in \<open>simp add: by_traversal_def\<close>)
qed

lemma get_inode_found:
  assumes "index_wf xal" "names_ok xal" "undisturbed xal act" "by_traversal xal"
    and "0 \<notin> set (basepath_of xal)" "cs \<noteq> []" "plain cs" "through_dirs xal 0 cs"
  shows "xal_get_inode (Some xal) (Some (basepath_of xal @ join_path cs)) act = Ok j \<longleftrightarrow> resolves xal 0 cs j"
    "(\<And>j. \<not> resolves xal 0 cs j) \<Longrightarrow> xal_get_inode (Some xal) (Some (basepath_of xal @ join_path cs)) act = Fail ENOENT"
proof -
  obtain c ds where cs: "cs = c # ds" using assms(6) by (cases cs) auto
  have tree: "tree_ok xal" using assms(1) by (simp add: index_wf_def)
  note facts = xal_get_inode_traversal [OF assms(1,3-5), of c ds] search_loop_sound [OF tree assms(2), of 0 c ds]
    search_loop_complete [OF tree assms(2), of 0 c ds] root_in_pool(3) [OF assms(1)] assms(7,8)
  show "xal_get_inode (Some xal) (Some (basepath_of xal @ join_path cs)) act = Ok j \<longleftrightarrow> resolves xal 0 cs j"
    using facts unfolding cs by (metis Inl_Inr_False Inr_inject)
  show "xal_get_inode (Some xal) (Some (basepath_of xal @ join_path cs)) act = Fail ENOENT" if "\<And>j. \<not> resolves xal 0 cs j"
    using facts that unfolding cs by metis
qed


section \<open>A sample index\<close>

text \<open>
  A small index for the witnesses: the root with the directory \<open>a\<close> and the file \<open>c\<close>, and the file
  \<open>b\<close> in \<open>a\<close>. The extents of \<open>c\<close> are the extent pool's span of one element at 3.
\<close>

definition mk_inode :: "u64 \<Rightarrow> u8 \<Rightarrow> u32 \<Rightarrow> u32 \<Rightarrow> u32 \<Rightarrow> cstring \<Rightarrow> xal_inode" where
  "mk_inode ino ftype idx n parent nm =
     \<lparr>i_ino = ino, i_size = 0, i_idx = idx, i_count = n, i_ftype = ftype,
      i_namelen = of_nat (length nm), i_name = nm, i_parent = parent\<rparr>"

definition sample_inodes :: "nat \<Rightarrow> xal_inode" where
  "sample_inodes = (\<lambda>_. zero_inode)(
     0 := mk_inode 100 XAL_ODF_DIR3_FT_DIR 1 2 XAL_POOL_IDX_NONE [],
     1 := mk_inode 101 XAL_ODF_DIR3_FT_DIR 3 1 0 [0x61],
     2 := mk_inode 102 XAL_ODF_DIR3_FT_REG_FILE 3 1 0 [0x63],
     3 := mk_inode 103 XAL_ODF_DIR3_FT_REG_FILE 0 1 1 [0x62])"

definition sample_sb :: xal_sb where
  "sample_sb = \<lparr>sb_blocksize = 4096, sb_sectsize = 512, sb_inodesize = 512, sb_inopblock = 8,
     sb_inopblog = 3, sb_icount = 64, sb_nallocated = 4, sb_rootino = 100, sb_agblocks = 16384,
     sb_agblklog = 14, sb_agcount = 4, sb_dirblocksize = 4096, sb_lba_blksze = 512\<rparr>"

definition sample_pool :: "u64 \<Rightarrow> (nat \<Rightarrow> 'a) \<Rightarrow> 'a xal_pool" where
  "sample_pool n m = \<lparr>reserved = 1000, allocated = 100, growby = 100, free = n, element_size = 296,
     shm_name = None, mapped = True, memory = m\<rparr>"

definition sample_be :: xal_be_fiemap where
  "sample_be = \<lparr>f_mountpoint = [0x2F, 0x6D], f_subtree = None, f_inotify = None,
     f_path_inode_map = None, f_reflink = None\<rparr>"

definition sample_xal :: xal where
  "sample_xal = \<lparr>h_inodes = sample_pool 4 sample_inodes, h_extents = sample_pool 4 (\<lambda>_. zero_extent),
     h_root_idx = 0, h_sb = sample_sb, h_be = Be_fiemap sample_be, h_index_state = XAL_STATE_CLEAN,
     h_seq_lock = 2, h_state = False, h_state_shm_name = None, h_procrole = XAL_PROCROLE_SINGLE,
     h_indexing = False, h_last_err = None\<rparr>"

lemma sample_inode_simps [simp]:
  "inode_of sample_xal 0 = mk_inode 100 XAL_ODF_DIR3_FT_DIR 1 2 XAL_POOL_IDX_NONE []"
  "inode_of sample_xal (Suc 0) = mk_inode 101 XAL_ODF_DIR3_FT_DIR 3 1 0 [0x61]"
  "inode_of sample_xal 2 = mk_inode 102 XAL_ODF_DIR3_FT_REG_FILE 3 1 0 [0x63]"
  "inode_of sample_xal 3 = mk_inode 103 XAL_ODF_DIR3_FT_REG_FILE 0 1 1 [0x62]"
  "n_inodes sample_xal = 4"
  by (simp_all add: sample_xal_def sample_pool_def sample_inodes_def)

lemma all_less_4: "(\<forall>d<4. P d) \<longleftrightarrow> P 0 \<and> P (Suc 0) \<and> P 2 \<and> P (3::nat)"
  by (auto simp: eval_nat_numeral less_Suc_eq)

lemma sample_children [simp]:
  "children sample_xal 0 = [Suc 0, 2]" "children sample_xal (Suc 0) = [3]"
  by (simp_all add: children_def mk_inode_def upt_rec)

lemma sample_wf: "index_wf sample_xal"
  unfolding index_wf_def tree_ok_def root_ok_def
  by (simp add: all_less_4 dir_ok_def mk_inode_def xal_inode_is_dir_def xal_inode_is_file_def
      i_cname_def cstr_def pool_inv_def)
     (simp add: sample_xal_def sample_pool_def)

lemma sample_names: "names_ok sample_xal"
  unfolding names_ok_def
  by (simp add: all_less_4 mk_inode_def xal_inode_is_dir_def name_ok_def i_cname_def cstr_def)

lemma sample_undisturbed: "undisturbed sample_xal 2"
  by (simp add: undisturbed_def sample_xal_def)

lemma sample_by_traversal: "by_traversal sample_xal" "basepath_of sample_xal = [0x2F, 0x6D]"
  by (simp_all add: by_traversal_def basepath_of_def sample_xal_def sample_be_def)

lemma sample_dirs [simp]:
  "xal_inode_is_dir (inode_of sample_xal 0)" "xal_inode_is_dir (inode_of sample_xal (Suc 0))"
  "\<not> xal_inode_is_dir (inode_of sample_xal 2)" "\<not> xal_inode_is_dir (inode_of sample_xal 3)"
  by (simp_all add: mk_inode_def xal_inode_is_dir_def)

lemma sample_cnames [simp]:
  "i_cname (inode_of sample_xal (Suc 0)) = [0x61]" "i_cname (inode_of sample_xal 2) = [0x63]"
  "i_cname (inode_of sample_xal 3) = [0x62]"
  by (simp_all add: mk_inode_def i_cname_def cstr_def)

lemma sample_resolves [simp]:
  "resolves sample_xal 0 [[0x61]] j \<longleftrightarrow> j = Suc 0" "resolves sample_xal (Suc 0) [[0x62]] j \<longleftrightarrow> j = 3"
  "resolves sample_xal 0 [[0x61], [0x62]] j \<longleftrightarrow> j = 3"
  by (auto simp: resolves_Cons simp del: sample_inode_simps intro!: exI [of _ "Suc 0"])

lemma sample_through_dirs: "through_dirs sample_xal 0 [[0x61], [0x62]]"
  by (auto simp: through_dirs_def less_Suc_eq simp del: sample_inode_simps)


section \<open>Stale readers\<close>

lemma search_loop_in_pool: "search_loop xal d s = Ok j \<Longrightarrow> j < unat (allocated (h_inodes xal))"
proof (induction xal d s rule: search_loop.induct)
  case (1 xal d s)
  let ?i = "i_idx (inode_of xal d)" and ?n = "i_count (inode_of xal d)"
  let ?c = "takeWhile (\<lambda>b. b \<noteq> slash) s" and ?e = "dropWhile (\<lambda>b. b \<noteq> slash) s"
  have ok: "\<not> span_stale xal ?i ?n" using "1.prems" by (subst (asm) search_loop.simps) (auto simp: Let_def)
  then obtain child where child: "span_search xal ?c ?i ?n = Some child"
    using "1.prems" by (subst (asm) search_loop.simps) (auto simp: Let_def split: option.splits)
  then have n: "?n \<noteq> 0" by (auto simp: span_search_def)
  have "child < unat ?i + unat ?n"
    using child by (auto simp: span_search_def split: if_splits dest: by_name.bsearch_Some)
  moreover have "unat ?i + unat ?n \<le> unat (allocated (h_inodes xal))"
  proof -
    have le: "ucast ?n \<le> allocated (h_inodes xal)" "ucast ?i \<le> allocated (h_inodes xal) - ucast ?n"
      using ok n by (simp_all add: span_stale_def not_less)
    then show ?thesis by (simp add: word_le_nat_alt unat_sub)
  qed
  ultimately have in_pool: "child < unat (allocated (h_inodes xal))" by simp
  show ?case
  proof (cases ?e)
    case Nil
    then have "search_loop xal d s = Ok child"
      using ok child by (subst search_loop.simps) (simp only: Let_def list.case option.case if_False)
    then show ?thesis using "1.prems" in_pool by simp
  next
    case (Cons x b)
    then have "search_loop xal child b = Ok j"
      using "1.prems" ok child by (subst (asm) search_loop.simps) (simp add: Let_def)
    then show ?thesis using "1.IH" [OF refl refl refl refl ok child Cons] by blast
  qed
qed

text \<open>
  C2: a lookup that returns an inode did so on a handle that was clean, with an even
  sequence lock that had the same value before and after; and a traversal stays inside the inode pool
  whatever the pool holds, so a reader that races with a rebuild never leaves the mapped elements.
\<close>

theorem xal_get_inode_guarded:
  assumes "xal_get_inode (Some xal) path act = Ok j"
  shows "undisturbed xal act \<and> h_root_idx xal \<noteq> XAL_POOL_IDX_NONE
    \<and> (by_traversal xal \<longrightarrow> j < unat (allocated (h_inodes xal)))"
proof -
  obtain p where path: "path = Some p" using assms by (cases path) (auto simp: xal_get_inode_def)
  have pass: "\<not> xal_is_dirty xal" "\<not> is_odd (xal_get_seq_lock xal)" "h_root_idx xal \<noteq> XAL_POOL_IDX_NONE"
    using assms by (auto simp: xal_get_inode_def Let_def path split: if_splits)
  have act: "act = xal_get_seq_lock xal"
    using assms pass by (auto simp: xal_get_inode_def Let_def path split: if_splits xal_be.splits option.splits)
  have trav: "j < unat (allocated (h_inodes xal))"
    if "search_by_traversal xal (Some r) q b = Ok j" "r < unat (allocated (h_inodes xal))" for r q b
    using that by (auto simp: search_by_traversal_def split: if_splits option.splits dest: search_loop_in_pool)
  have "j < unat (allocated (h_inodes xal))" if "by_traversal xal"
    using assms pass act that trav
    by (auto simp: xal_get_inode_def Let_def path by_traversal_def xal_be_fiemap_get_inode_def
        split: if_splits xal_be.splits option.splits)
  then show ?thesis using pass act
    by (auto simp: undisturbed_def xal_is_dirty_def xal_get_seq_lock_def)
qed

theorem xal_get_inode_guarded_witness:
  "undisturbed sample_xal 2 \<and> 3 < unat (allocated (h_inodes sample_xal))"
proof -
  have "xal_get_inode (Some sample_xal) (Some ([0x2F, 0x6D] @ join_path [[0x61], [0x62]])) 2 = Ok 3"
    by code_simp
  then show ?thesis
    using xal_get_inode_guarded [of sample_xal "Some ([0x2F, 0x6D] @ join_path [[0x61], [0x62]])" 2 3]
      sample_by_traversal(1) by blast
qed

section \<open>Regular files on the way\<close>

text \<open>
  The loop reads the union of the current inode as directory entries without a look at its type. In
  the sample index the path \<open>/m/c/b\<close> names nothing, since \<open>c\<close> is a regular file; its extent span is
  taken for a span of inodes and the lookup returns the unrelated \<open>/m/a/b\<close>.
\<close>

lemma traversal_through_file:
  "xal_get_inode (Some sample_xal) (Some ([0x2F, 0x6D] @ join_path [[0x63], [0x62]])) 2 = Ok 3
   \<and> (\<nexists>j. resolves sample_xal 0 [[0x63], [0x62]] j)"
proof
  show "\<nexists>j. resolves sample_xal 0 [[0x63], [0x62]] j"
    by (auto simp: resolves_Cons simp del: sample_inode_simps)
qed code_simp

lemma resolves_kind:
  assumes "tree_ok xal" "resolves xal i cs j" "i < n_inodes xal" "cs \<noteq> []"
  shows "xal_inode_is_dir (inode_of xal j) \<or> xal_inode_is_file (inode_of xal j)"
  using assms(2-4)
proof (induction rule: resolves.induct)
  case (there d c cs i)
  note D = dir_okD [OF tree_okD [OF assms(1) there.prems(1) there.hyps(1)] there.hyps(2)]
  show ?case using there.IH D there.hyps(3) by (cases "cs = []") auto
qed simp



end
