(* ===== verification/Xal_Path.thy ===== *)
theory Xal_Path
  imports Xal_Lookup
begin

text \<open>
  The path of an inode (\<open>inode_path_assemble()\<close>, \<open>xal_inode_path()\<close> and \<open>xal_inode_path_pp()\<close> of
  \<open>src/src/xal.c\<close>): the names on the way up to the root, behind the base path. The theory shows that
  the path written is the one the inode is found under, and that looking the path up again gives
  the inode back.
\<close>

section \<open>Operations\<close>

text \<open>
  \<open>buf\<close> holds the \<open>nbytes\<close> bytes written so far. Indices decrease on the way up, which the code checks on
  every step, so the recursion ends whatever the pool holds.
\<close>

function inode_path_assemble :: "xal \<Rightarrow> nat \<Rightarrow> cstring \<Rightarrow> nat \<Rightarrow> cstring res" where
  "inode_path_assemble xal inode buf buf_nbytes =
     (let parent_idx = i_parent (inode_of xal inode);
          namelen = i_namelen (inode_of xal inode)
      in if parent_idx = XAL_POOL_IDX_NONE then Ok buf
         else if xal_inode_idx xal inode \<le> parent_idx \<or> xal_inode_at xal parent_idx = None then Fail ESTALE
         else
           bind_res (inode_path_assemble xal (unat parent_idx) buf buf_nbytes)
             (\<lambda>buf. if buf_nbytes < length buf + 1 + unat namelen + 1 then Fail ENAMETOOLONG
                    else Ok (buf @ slash # i_bytes (inode_of xal inode))))"
  by pat_completeness auto
termination
proof (relation "measure (\<lambda>(xal, inode, buf, n). inode)", goal_cases)
  case (2 xal inode buf n p nl)
  then have "unat p < unat (xal_inode_idx xal inode)" by (simp add: word_less_nat_alt not_le)
  also have "\<dots> \<le> inode" by (simp add: xal_inode_idx_def unat_of_nat)
  finally show ?case by simp
qed simp

declare inode_path_assemble.simps [simp del]

definition xal_inode_path :: "xal option \<Rightarrow> nat option \<Rightarrow> nat \<Rightarrow> u32 \<Rightarrow> cstring res" where
  "xal_inode_path xal inode buf_nbytes act_seqlock =
     (case (xal, inode) of
        (Some xal, Some inode) \<Rightarrow>
          if buf_nbytes = 0 then Fail EINVAL
          else if xal_is_dirty xal then Fail ESTALE
          else if is_odd (xal_get_seq_lock xal) then Fail ESTALE
          else
            (let basepath =
               (case h_be xal of
                  Be_fiemap be \<Rightarrow> (case f_subtree be of Some s \<Rightarrow> s | None \<Rightarrow> f_mountpoint be)
                | _ \<Rightarrow> [])
             in if buf_nbytes < length basepath + 1 then Fail ENAMETOOLONG
                else
                  bind_res (inode_path_assemble xal inode basepath buf_nbytes)
                    (\<lambda>buf.
                       bind_res (if buf = [] then if buf_nbytes < 2 then Fail ENAMETOOLONG else Ok [slash]
                                 else Ok buf)
                         (\<lambda>buf. if xal_get_seq_lock xal \<noteq> act_seqlock then Fail ESTALE else Ok buf)))
      | _ \<Rightarrow> Fail EINVAL)"

abbreviation (input) XAL_INODE_PATH_MAXLEN :: nat where "XAL_INODE_PATH_MAXLEN \<equiv> 4096"

text \<open>What is printed; nothing for a handle or an index that is not to be read.\<close>

definition xal_inode_path_pp :: "xal option \<Rightarrow> nat option \<Rightarrow> u32 \<Rightarrow> cstring" where
  "xal_inode_path_pp xal inode act_seqlock =
     (case (xal, inode) of
        (Some xal, Some inode) \<Rightarrow>
          if xal_is_dirty xal then []
          else if is_odd (xal_get_seq_lock xal) then []
          else
            (case inode_path_assemble xal inode [] (XAL_INODE_PATH_MAXLEN + 1) of
               Inl _ \<Rightarrow> []
             | Inr buf \<Rightarrow> if xal_get_seq_lock xal \<noteq> act_seqlock then [] else cstr buf)
      | _ \<Rightarrow> [])"

section \<open>The path written is the path of the inode\<close>

lemma i_bytes_name_ok: "name_ok i \<Longrightarrow> i_bytes i = i_cname i \<and> length (i_cname i) = unat (i_namelen i)"
  by (simp add: name_ok_def i_bytes_def i_cname_def)

lemma child_facts:
  assumes "tree_ok xal" "names_ok xal" "d < n_inodes xal" "xal_inode_is_dir (inode_of xal d)"
    and "c \<in> set (children xal d)"
  shows "d < c" "c < 2 ^ 32" "unat (i_parent (inode_of xal c)) = d" "i_parent (inode_of xal c) \<noteq> XAL_POOL_IDX_NONE"
    "xal_inode_at xal (i_parent (inode_of xal c)) = Some d" "name_ok (inode_of xal c)"
proof -
  note c = dir_okD [OF tree_okD [OF assms(1,3,4)] assms(5)]
  have lim: "n_inodes xal < 2 ^ 32" using assms(1) by (simp add: tree_ok_def)
  show "d < c" "unat (i_parent (inode_of xal c)) = d" by (fact c)+
  show "c < 2 ^ 32" using c(2) lim by simp
  show "i_parent (inode_of xal c) \<noteq> XAL_POOL_IDX_NONE" using c lim by auto
  show "xal_inode_at xal (i_parent (inode_of xal c)) = Some d"
    using c(3) assms(3) n_inodes_le_allocated [OF assms(1)] by simp
  show "name_ok (inode_of xal c)" using assms(2-5) by (auto simp: names_ok_def)
qed

lemma inode_path_assemble_child:
  assumes "tree_ok xal" "names_ok xal" "d < n_inodes xal" "xal_inode_is_dir (inode_of xal d)"
    and "c \<in> set (children xal d)"
  shows "inode_path_assemble xal c buf n =
    bind_res (inode_path_assemble xal d buf n)
      (\<lambda>buf. if n < length buf + 1 + length (i_cname (inode_of xal c)) + 1 then Fail ENAMETOOLONG
             else Ok (buf @ slash # i_cname (inode_of xal c)))"
proof -
  note c = child_facts [OF assms]
  have "\<not> xal_inode_idx xal c \<le> i_parent (inode_of xal c)"
    using c(1-3) by (simp add: word_le_nat_alt unat_xal_inode_idx)
  then show ?thesis using c i_bytes_name_ok [OF c(6)]
    by (subst inode_path_assemble.simps) (simp add: Let_def cong: if_cong del: xal_inode_at_Some xal_inode_at_None)
qed

lemma length_join_path: "length (join_path cs) = (\<Sum>c\<leftarrow>cs. length c + 1)"
  by (induction cs) simp_all

text \<open>
  Walking up from an inode writes the names of its path, and fails exactly when the path does not
  fit; the limit is only checked where a name is written.
\<close>

lemma inode_path_assemble_resolves:
  assumes wf: "index_wf xal" and names: "names_ok xal" and fits: "length buf + 1 \<le> n"
  shows "resolves xal 0 cs i \<Longrightarrow>
    inode_path_assemble xal i buf n =
      (if length (buf @ join_path cs) + 1 \<le> n then Ok (buf @ join_path cs) else Fail ENAMETOOLONG)"
proof (induction cs arbitrary: i rule: rev_induct)
  case Nil
  then show ?case using wf fits
    by (subst inode_path_assemble.simps) (simp add: index_wf_def root_ok_def)
next
  case (snoc c cs)
  have tree: "tree_ok xal" using wf by (simp add: index_wf_def)
  from snoc.prems obtain d where d: "resolves xal 0 cs d" "xal_inode_is_dir (inode_of xal d)"
    "i \<in> set (children xal d)" "c = i_cname (inode_of xal i)"
    by (auto simp: resolves_append resolves_Cons)
  have dn: "d < n_inodes xal" using resolves_bound [OF tree d(1)] root_in_pool(3) [OF wf] by simp
  show ?case
    unfolding inode_path_assemble_child [OF tree names dn d(2,3)] snoc.IH [OF d(1)]
    by (auto simp: d(4))
qed

definition path_of :: "xal \<Rightarrow> cstring list \<Rightarrow> cstring" where
  "path_of xal cs = (if basepath_of xal @ join_path cs = [] then [slash] else basepath_of xal @ join_path cs)"

lemma inode_path_written:
  assumes "index_wf xal" "names_ok xal" "undisturbed xal act" "resolves xal 0 cs i" "0 < n"
  shows "xal_inode_path (Some xal) (Some i) n act =
    (if length (path_of xal cs) + 1 \<le> n then Ok (path_of xal cs) else Fail ENAMETOOLONG)"
proof -
  have base: "(case h_be xal of Be_fiemap be \<Rightarrow> (case f_subtree be of Some s \<Rightarrow> s | None \<Rightarrow> f_mountpoint be)
      | _ \<Rightarrow> []) = basepath_of xal" by (simp add: basepath_of_def)
  have pass: "\<not> xal_is_dirty xal" "\<not> is_odd (xal_get_seq_lock xal)" "act = xal_get_seq_lock xal"
    using assms(3) by (simp_all add: undisturbed_def xal_is_dirty_def xal_get_seq_lock_def)
  show ?thesis
  proof (cases "length (basepath_of xal) + 1 \<le> n")
    case True
    then show ?thesis
      unfolding xal_inode_path_def using pass assms(5)
      by (auto simp: base Let_def path_of_def inode_path_assemble_resolves [OF assms(1,2) True assms(4)])
  next
    case False
    then show ?thesis unfolding xal_inode_path_def using pass assms(5) by (auto simp: base path_of_def)
  qed
qed

text \<open>
  C4: \<open>xal_inode_path()\<close> writes the base path followed by the names from the root to
  the inode, or a lone slash for the root of a tree without a base path, when this and its
  terminating NUL fit the buffer, and reports \<open>ENAMETOOLONG\<close> otherwise.
\<close>

theorem xal_inode_path_correct:
  assumes "index_wf xal" "names_ok xal" "undisturbed xal act" "resolves xal 0 cs i" "0 < n"
  shows "xal_inode_path (Some xal) (Some i) n act =
    (if length (path_of xal cs) + 1 \<le> n then Ok (path_of xal cs) else Fail ENAMETOOLONG)"
  by (rule inode_path_written [OF assms])

theorem xal_inode_path_correct_witness:
  "xal_inode_path (Some sample_xal) (Some 3) 7 2 = Ok [0x2F, 0x6D, 0x2F, 0x61, 0x2F, 0x62]"
  using xal_inode_path_correct [OF sample_wf sample_names sample_undisturbed, of "[[0x61], [0x62]]" 3 7]
  by (simp add: path_of_def sample_by_traversal(2) del: sample_inode_simps)

section \<open>Round trip\<close>

lemma resolves_plain:
  assumes tree: "tree_ok xal" and names: "names_ok xal"
  shows "resolves xal d cs i \<Longrightarrow> d < n_inodes xal \<Longrightarrow> plain cs"
proof (induction rule: resolves.induct)
  case (there d c cs i)
  note c = child_facts [OF tree names there.prems there.hyps(1,2)]
  have "c < n_inodes xal" by (rule dir_okD(2) [OF tree_okD [OF tree there.prems there.hyps(1)] there.hyps(2)])
  then show ?case using there.IH c(6) by (auto simp: name_ok_def i_cname_def)
qed simp

lemma xal_get_inode_root:
  assumes "index_wf xal" "undisturbed xal act" "by_traversal xal" "0 \<notin> set (basepath_of xal)"
  shows "xal_get_inode (Some xal) (Some (path_of xal [])) act = Ok 0"
proof -
  note root = root_in_pool [OF assms(1)]
  have pass: "\<not> xal_is_dirty xal" "\<not> is_odd (xal_get_seq_lock xal)" "act = xal_get_seq_lock xal"
    using assms(2) by (simp_all add: undisturbed_def xal_is_dirty_def xal_get_seq_lock_def)
  have path: "path_under_basepath (path_of xal []) (basepath_of xal) \<in> {Some [], Some [slash]}"
    using path_under_basepath_append [OF assms(4), of "[]"]
    by (cases "basepath_of xal = []") (simp_all add: path_of_def, simp add: path_under_basepath_def strncmp_def)
  show ?thesis
  proof (cases "h_be xal")
    case (Be_xfs be)
    then show ?thesis using pass
      by (simp add: root xal_get_inode_def path_of_def basepath_of_def search_by_traversal_def
          path_under_basepath_def strncmp_def)
  next
    case (Be_fiemap be)
    moreover have "(case f_subtree be of Some s \<Rightarrow> s | None \<Rightarrow> f_mountpoint be) = basepath_of xal"
      using Be_fiemap by (simp add: basepath_of_def)
    ultimately show ?thesis using pass path
      by (auto simp: root xal_get_inode_def xal_be_fiemap_get_inode_def Let_def)
  qed (use assms(3) in \<open>simp add: by_traversal_def\<close>)
qed

text \<open>
  C5: looking up the path of an inode gives the inode back, for every inode attached to the tree.
\<close>

theorem inode_path_roundtrip:
  assumes "index_wf xal" "names_ok xal" "undisturbed xal act" "by_traversal xal"
    and "0 \<notin> set (basepath_of xal)" "resolves xal 0 cs i" "length (path_of xal cs) < n"
  shows "bind_res (xal_inode_path (Some xal) (Some i) n act)
    (\<lambda>path. xal_get_inode (Some xal) (Some path) act) = Ok i"
proof -
  have tree: "tree_ok xal" using assms(1) by (simp add: index_wf_def)
  have plain: "plain cs" using resolves_plain [OF tree assms(2,6) root_in_pool(3) [OF assms(1)]] .
  have "xal_get_inode (Some xal) (Some (path_of xal cs)) act = Ok i"
  proof (cases cs)
    case Nil
    then show ?thesis using xal_get_inode_root [OF assms(1,3-5)] assms(6) by simp
  next
    case (Cons c ds)
    then show ?thesis
      using xal_get_inode_traversal [OF assms(1,3-5), of c ds] plain assms(6)
        search_loop_complete [OF tree assms(2), of 0 c ds i] root_in_pool(3) [OF assms(1)]
      by (simp add: path_of_def)
  qed
  then show ?thesis using inode_path_written [OF assms(1-3,6), of n] assms(7) by simp
qed

theorem inode_path_roundtrip_witness:
  "bind_res (xal_inode_path (Some sample_xal) (Some 3) 4096 2)
    (\<lambda>path. xal_get_inode (Some sample_xal) (Some path) 2) = Ok 3"
  by (rule inode_path_roundtrip [OF sample_wf sample_names sample_undisturbed sample_by_traversal(1),
        where cs = "[[0x61], [0x62]]"])
     (simp_all add: sample_by_traversal(2) path_of_def del: sample_inode_simps)

end
