(* ===== verification/Xal_Walk.thy ===== *)
theory Xal_Walk
  imports Xal_Path
begin

text \<open>
  Walking the index (\<open>walk_dentries()\<close>, \<open>_walk()\<close> and \<open>xal_walk()\<close> of \<open>src/src/xal.c\<close>). The callback gets
  and returns the handle along with its own data: what it does to the handle, and what another
  thread does to it at that point of the walk, is the change from one to the other.
\<close>

section \<open>Operations\<close>

type_synonym 'd walk_cb = "xal \<Rightarrow> nat \<Rightarrow> 'd \<Rightarrow> nat \<Rightarrow> errno option \<times> xal \<times> 'd"

text \<open>
  \<open>walk_node\<close> is \<open>_walk()\<close>; the last argument of \<open>walk_dentries\<close> is the loop counter. The recursion is
  counted by fuel, since on a pool that is no tree it need not end.
\<close>

fun walk_node :: "nat \<Rightarrow> 'd walk_cb option \<Rightarrow> xal \<Rightarrow> nat \<Rightarrow> 'd \<Rightarrow> nat \<Rightarrow> u32 \<Rightarrow> unit res \<times> xal \<times> 'd"
and walk_dentries :: "nat \<Rightarrow> 'd walk_cb option \<Rightarrow> xal \<Rightarrow> nat \<Rightarrow> 'd \<Rightarrow> nat \<Rightarrow> u32 \<Rightarrow> u32 \<Rightarrow> unit res \<times> xal \<times> 'd"
where
  "walk_node 0 cb_func xal inode cb_data depth exp_seqlock = (Inl Out_of_fuel, xal, cb_data)"
| "walk_node (Suc fuel) cb_func xal inode cb_data depth exp_seqlock =
     (if xal_is_dirty xal then (Fail ESTALE, xal, cb_data)
      else if exp_seqlock \<noteq> xal_get_seq_lock xal then (Fail ESTALE, xal, cb_data)
      else
        (case (case cb_func of None \<Rightarrow> (None, xal, cb_data) | Some cb \<Rightarrow> cb xal inode cb_data depth) of
           (Some err, xal, cb_data) \<Rightarrow> (Fail err, xal, cb_data)
         | (None, xal, cb_data) \<Rightarrow>
             if i_ftype (inode_of xal inode) = XAL_ODF_DIR3_FT_DIR then
               walk_dentries fuel cb_func xal inode cb_data depth exp_seqlock 0
             else if i_ftype (inode_of xal inode) = XAL_ODF_DIR3_FT_REG_FILE then (Ok (), xal, cb_data)
             else (Fail EINVAL, xal, cb_data)))"
| "walk_dentries 0 cb_func xal inode cb_data depth exp_seqlock i = (Inl Out_of_fuel, xal, cb_data)"
| "walk_dentries (Suc fuel) cb_func xal inode cb_data depth exp_seqlock i =
     (if i < i_count (inode_of xal inode) then
        (case xal_inode_at xal (i_idx (inode_of xal inode) + i) of
           None \<Rightarrow> (Fail ESTALE, xal, cb_data)
         | Some child \<Rightarrow>
             (case walk_node fuel cb_func xal child cb_data (depth + 1) exp_seqlock of
                (Inl err, xal, cb_data) \<Rightarrow> (Inl err, xal, cb_data)
              | (Inr _, xal, cb_data) \<Rightarrow>
                  walk_dentries fuel cb_func xal inode cb_data depth exp_seqlock (i + 1)))
      else (Ok (), xal, cb_data))"

definition xal_walk :: "nat \<Rightarrow> xal option \<Rightarrow> nat option \<Rightarrow> 'd walk_cb option \<Rightarrow> 'd \<Rightarrow> unit res \<times> xal option \<times> 'd" where
  "xal_walk fuel xal inode cb_func cb_data =
     (case xal of
        None \<Rightarrow> (Fail EINVAL, None, cb_data)
      | Some xal \<Rightarrow>
          if xal_is_dirty xal then (Fail ESTALE, Some xal, cb_data)
          else
            (case inode of
               None \<Rightarrow> (Fail EINVAL, Some xal, cb_data)
             | Some inode \<Rightarrow>
                 (let exp_seqlock = xal_get_seq_lock xal
                  in if is_odd exp_seqlock then (Fail ESTALE, Some xal, cb_data)
                     else
                       (case walk_node fuel cb_func xal inode cb_data 0 exp_seqlock of
                          (Inl err, xal, cb_data) \<Rightarrow> (Inl err, Some xal, cb_data)
                        | (Inr _, xal, cb_data) \<Rightarrow>
                            if exp_seqlock \<noteq> xal_get_seq_lock xal then (Fail ESTALE, Some xal, cb_data)
                            else (Ok (), Some xal, cb_data)))))"

section \<open>A walk visits the tree\<close>

text \<open>A callback that never fails and leaves the handle alone.\<close>

definition quiet :: "(xal \<Rightarrow> nat \<Rightarrow> 'd \<Rightarrow> nat \<Rightarrow> 'd) \<Rightarrow> 'd walk_cb" where
  "quiet f = (\<lambda>xal inode d depth. (None, xal, f xal inode d depth))"

text \<open>
  A list of visits: the components from the starting inode and the inode they lead to, in
  lexicographic order of the components, so that a directory comes right before what is under it.
\<close>

definition lists_tree :: "xal \<Rightarrow> nat \<Rightarrow> (cstring list \<times> nat) list \<Rightarrow> bool" where
  "lists_tree xal d vs \<longleftrightarrow> sorted_wrt (<) (map fst vs) \<and> (\<forall>cs i. (cs, i) \<in> set vs \<longleftrightarrow> resolves xal d cs i)"

definition lists_entries :: "xal \<Rightarrow> nat \<Rightarrow> nat \<Rightarrow> (cstring list \<times> nat) list \<Rightarrow> bool" where
  "lists_entries xal c e vs \<longleftrightarrow> sorted_wrt (<) (map fst vs)
     \<and> (\<forall>cs i. (cs, i) \<in> set vs \<longleftrightarrow>
          (\<exists>k cs'. c \<le> k \<and> k < e \<and> cs = i_cname (inode_of xal k) # cs' \<and> resolves xal k cs' i))"

definition visit :: "(xal \<Rightarrow> nat \<Rightarrow> 'd \<Rightarrow> nat \<Rightarrow> 'd) \<Rightarrow> xal \<Rightarrow> nat \<Rightarrow> cstring list \<times> nat \<Rightarrow> 'd \<Rightarrow> 'd" where
  "visit f xal depth v d = f xal (snd v) d (depth + length (fst v))"

lemma lists_tree_file: "\<not> xal_inode_is_dir (inode_of xal i) \<Longrightarrow> lists_tree xal i [([], i)]"
  by (auto simp: lists_tree_def elim: resolves.cases intro: resolves.intros)

lemma lists_tree_dir:
  assumes "xal_inode_is_dir (inode_of xal d)" "children xal d = [c..<e]" "lists_entries xal c e vs"
  shows "lists_tree xal d (([], d) # vs)"
proof -
  have "resolves xal d cs i \<longleftrightarrow> (cs, i) \<in> set (([], d) # vs)" for cs i
    using assms by (cases cs) (auto simp: lists_entries_def resolves_Cons)
  moreover have "\<forall>v \<in> set vs. [] < fst v" using assms(3) by (fastforce simp: lists_entries_def)
  ultimately show ?thesis using assms(3) by (auto simp: lists_tree_def lists_entries_def)
qed

lemma lists_entries_Nil: "e \<le> c \<Longrightarrow> lists_entries xal c e []"
  by (auto simp: lists_entries_def)

definition under :: "cstring \<Rightarrow> (cstring list \<times> nat) list \<Rightarrow> (cstring list \<times> nat) list" where
  "under c ts = map (\<lambda>(cs, i). (c # cs, i)) ts"

lemma set_under: "(cs, i) \<in> set (under c ts) \<longleftrightarrow> (\<exists>cs'. cs = c # cs' \<and> (cs', i) \<in> set ts)"
  by (force simp: under_def)

lemma sorted_under: "sorted_wrt (<) (map fst ts) \<Longrightarrow> sorted_wrt (<) (map fst (under c ts))"
  by (auto simp: under_def sorted_wrt_map case_prod_beta comp_def)

lemma lists_entries_Cons:
  assumes "c < e" "lists_tree xal c ts" "lists_entries xal (Suc c) e vs"
    and "\<And>k. c < k \<Longrightarrow> k < e \<Longrightarrow> i_cname (inode_of xal c) < i_cname (inode_of xal k)"
  shows "lists_entries xal c e (under (i_cname (inode_of xal c)) ts @ vs)"
proof -
  let ?ts = "under (i_cname (inode_of xal c)) ts"
  have "x < y" if x: "x \<in> set (map fst ?ts)" and y: "y \<in> set (map fst vs)" for x y
  proof -
    obtain x' where "x = i_cname (inode_of xal c) # x'" using x by (auto simp: set_under)
    moreover obtain k y' where "Suc c \<le> k" "k < e" "y = i_cname (inode_of xal k) # y'"
      using y assms(3) by (auto simp: lists_entries_def)
    ultimately show ?thesis using assms(4) [of k] by simp
  qed
  then have "sorted_wrt (<) (map fst (?ts @ vs))"
    using assms(2,3) by (simp add: sorted_wrt_append sorted_under lists_tree_def lists_entries_def)
  moreover have "(cs, i) \<in> set (?ts @ vs) \<longleftrightarrow>
      (\<exists>k cs'. c \<le> k \<and> k < e \<and> cs = i_cname (inode_of xal k) # cs' \<and> resolves xal k cs' i)" for cs i
  proof -
    define P where "P k \<longleftrightarrow> (\<exists>cs'. cs = i_cname (inode_of xal k) # cs' \<and> resolves xal k cs' i)" for k
    have "(cs, i) \<in> set ?ts \<longleftrightarrow> P c"
      using assms(2) by (simp add: lists_tree_def set_under P_def)
    moreover have "(cs, i) \<in> set vs \<longleftrightarrow> (\<exists>k. (Suc c \<le> k \<and> k < e) \<and> P k)"
      using assms(3) by (auto simp: lists_entries_def P_def)
    moreover have "(\<exists>k cs'. c \<le> k \<and> k < e \<and> cs = i_cname (inode_of xal k) # cs' \<and> resolves xal k cs' i)
        \<longleftrightarrow> (\<exists>k. (c \<le> k \<and> k < e) \<and> P k)" by (auto simp: P_def)
    moreover have "(\<exists>k. (c \<le> k \<and> k < e) \<and> P k) \<longleftrightarrow> P c \<or> (\<exists>k. (Suc c \<le> k \<and> k < e) \<and> P k)"
      using assms(1) by (metis Suc_leD Suc_leI le_neq_implies_less order.refl)
    ultimately show ?thesis unfolding set_append Un_iff by (simp only:)
  qed
  ultimately show ?thesis unfolding lists_entries_def by blast
qed

lemma fold_visit_under: "fold (visit f xal depth) (under c ts) d = fold (visit f xal (Suc depth)) ts d"
  by (induction ts arbitrary: d) (auto simp: under_def visit_def)

text \<open>Sibling names ascend strictly.\<close>

lemma sibling_names:
  assumes "tree_ok xal" "names_ok xal" "d < n_inodes xal" "xal_inode_is_dir (inode_of xal d)"
    and "children xal d = [a..<e]" "a \<le> c" "c < k" "k < e"
  shows "i_cname (inode_of xal c) < i_cname (inode_of xal k)"
proof -
  let ?ns = "names_of xal (children xal d)"
  have "sorted ?ns" using tree_okD [OF assms(1,3,4)] by (simp add: dir_ok_def)
  moreover have "distinct ?ns" using assms(2-4) by (auto simp: names_ok_def)
  ultimately have "sorted_wrt (<) ?ns" by (simp add: strict_sorted_iff)
  then have "?ns ! (c - a) < ?ns ! (k - a)"
    by (rule sorted_wrt_nth_less) (use assms(5-8) in auto)
  moreover have "a + (c - a) < e" "a + (k - a) < e" using assms(6-8) by linarith+
  ultimately show ?thesis using assms(5-8) by (simp add: nth_upt)
qed

text \<open>The fuel that is enough at an inode, and at an entry of a directory.\<close>

definition node_fuel :: "xal \<Rightarrow> nat \<Rightarrow> nat" where
  "node_fuel xal i = 3 * (n_inodes xal - i) + 1"

definition entry_fuel :: "xal \<Rightarrow> nat \<Rightarrow> u32 \<Rightarrow> nat" where
  "entry_fuel xal d i =
     (if i < i_count (inode_of xal d) then node_fuel xal (unat (i_idx (inode_of xal d)) + unat i) + 1 else 1)"

definition node_visits :: "(xal \<Rightarrow> nat \<Rightarrow> 'd \<Rightarrow> nat \<Rightarrow> 'd) \<Rightarrow> xal \<Rightarrow> nat \<Rightarrow> bool" where
  "node_visits f xal i \<longleftrightarrow> (\<exists>vs. lists_tree xal i vs \<and> (\<forall>fuel \<ge> node_fuel xal i. \<forall>depth d.
     walk_node fuel (Some (quiet f)) xal i d depth (h_seq_lock xal) =
       (Ok (), xal, fold (visit f xal depth) vs d)))"

definition entry_visits :: "(xal \<Rightarrow> nat \<Rightarrow> 'd \<Rightarrow> nat \<Rightarrow> 'd) \<Rightarrow> xal \<Rightarrow> nat \<Rightarrow> u32 \<Rightarrow> bool" where
  "entry_visits f xal d i \<longleftrightarrow> (\<exists>vs.
     lists_entries xal (unat (i_idx (inode_of xal d)) + unat i)
       (unat (i_idx (inode_of xal d)) + unat (i_count (inode_of xal d))) vs
     \<and> (\<forall>fuel \<ge> entry_fuel xal d i. \<forall>depth s.
     walk_dentries fuel (Some (quiet f)) xal d s depth (h_seq_lock xal) i =
       (Ok (), xal, fold (visit f xal depth) vs s)))"

lemma entries_visited:
  assumes tree: "tree_ok xal" and names: "names_ok xal" and d: "d < n_inodes xal"
    and dir: "xal_inode_is_dir (inode_of xal d)"
    and child: "\<And>c. c \<in> set (children xal d) \<Longrightarrow> node_visits f xal c"
  shows "i \<le> i_count (inode_of xal d) \<Longrightarrow> entry_visits f xal d i"
proof (induction "unat (i_count (inode_of xal d)) - unat i" arbitrary: i)
  case 0
  then have "i = i_count (inode_of xal d)" by (simp add: word_le_nat_alt word_unat_eq_iff)
  moreover have "\<exists>k. fuel = Suc k" if "fuel \<ge> entry_fuel xal d i" for fuel i
    using that by (cases fuel) (auto simp: entry_fuel_def split: if_splits)
  ultimately show ?case unfolding entry_visits_def
    by (intro exI [of _ "[]"]) (fastforce intro: lists_entries_Nil)
next
  case (Suc k)
  let ?x = "i_idx (inode_of xal d)" and ?n = "i_count (inode_of xal d)"
  let ?c = "unat ?x + unat i"
  have i: "unat i < unat ?n" using Suc.hyps(2) by simp
  have i1: "unat (i + 1) = unat i + 1"
    by (rule unat_Suc_less) (use i in \<open>simp add: word_less_nat_alt\<close>)
  have mem: "?c \<in> set (children xal d)" using i by (simp add: children_def)
  note c = dir_okD [OF tree_okD [OF tree d dir] mem]
  have x: "unat (?x + i) = ?c"
    by (rule unat_add_no_wrap) (use c(2) tree in \<open>simp add: tree_ok_def\<close>)
  have at: "xal_inode_at xal (?x + i) = Some ?c"
    using x c(2) n_inodes_le_allocated [OF tree] by simp
  obtain ts where ts: "lists_tree xal ?c ts" "\<And>fuel depth s. fuel \<ge> node_fuel xal ?c \<Longrightarrow>
      walk_node fuel (Some (quiet f)) xal ?c s depth (h_seq_lock xal) =
       (Ok (), xal, fold (visit f xal depth) ts s)"
    using child [OF mem] by (auto simp: node_visits_def)
  have "entry_visits f xal d (i + 1)"
    by (rule Suc.hyps(1)) (use Suc.hyps(2) i i1 in \<open>simp_all add: word_le_nat_alt\<close>)
  then obtain vs where vs: "lists_entries xal (Suc ?c) (unat ?x + unat ?n) vs"
    "\<And>fuel depth s. fuel \<ge> entry_fuel xal d (i + 1) \<Longrightarrow>
     walk_dentries fuel (Some (quiet f)) xal d s depth (h_seq_lock xal) (i + 1) =
       (Ok (), xal, fold (visit f xal depth) vs s)"
    by (auto simp: entry_visits_def i1)
  have "lists_entries xal ?c (unat ?x + unat ?n) (under (i_cname (inode_of xal ?c)) ts @ vs)"
    by (rule lists_entries_Cons [OF _ ts(1) vs(1)])
       (use i sibling_names [OF tree names d dir] in \<open>auto simp: children_def\<close>)
  moreover have "walk_dentries fuel (Some (quiet f)) xal d s depth (h_seq_lock xal) i =
      (Ok (), xal, fold (visit f xal depth) (under (i_cname (inode_of xal ?c)) ts @ vs) s)"
    if enough: "fuel \<ge> entry_fuel xal d i" for fuel depth s
  proof -
    obtain g where g: "fuel = Suc g" "g \<ge> node_fuel xal ?c"
      using enough i by (cases fuel) (auto simp: entry_fuel_def word_less_nat_alt)
    moreover have "node_fuel xal (Suc ?c) + 1 \<le> node_fuel xal ?c" using c(2) by (simp add: node_fuel_def)
    ultimately have "g \<ge> entry_fuel xal d (i + 1)" using i1 by (simp add: entry_fuel_def node_fuel_def)
    then show ?thesis using i g(2) ts(2) vs(2) at
      by (simp add: g(1) word_less_nat_alt fold_visit_under del: xal_inode_at_Some)
  qed
  ultimately show ?case unfolding entry_visits_def by blast
qed

lemma node_visited:
  assumes tree: "tree_ok xal" and names: "names_ok xal" and clean: "\<not> xal_is_dirty xal"
  shows "d < n_inodes xal \<Longrightarrow> xal_inode_is_dir (inode_of xal d) \<or> xal_inode_is_file (inode_of xal d) \<Longrightarrow>
    node_visits f xal d"
proof (induction "n_inodes xal - d" arbitrary: d rule: less_induct)
  case less
  have suc: "\<exists>g. fuel = Suc g \<and> g \<ge> 3 * (n_inodes xal - d)" if "fuel \<ge> node_fuel xal d" for fuel
    using that by (cases fuel) (auto simp: node_fuel_def)
  show ?case
  proof (cases "xal_inode_is_dir (inode_of xal d)")
    case False
    then have "i_ftype (inode_of xal d) = XAL_ODF_DIR3_FT_REG_FILE"
      using less.prems(2) by (simp add: xal_inode_is_file_def)
    then show ?thesis using lists_tree_file [OF False] suc clean unfolding node_visits_def
      by (intro exI [of _ "[([], d)]"]) (fastforce simp: quiet_def visit_def xal_get_seq_lock_def)
  next
    case dir: True
    note ok = tree_okD [OF tree less.prems(1) dir]
    have "entry_visits f xal d 0"
    proof (rule entries_visited [OF tree names less.prems(1) dir])
      fix c assume c: "c \<in> set (children xal d)"
      show "node_visits f xal c"
        by (rule less.hyps [OF diff_less_mono2 [OF dir_okD(1) [OF ok c] less.prems(1)]
              dir_okD(2,4) [OF ok c]])
    qed simp
    then obtain vs where vs: "lists_entries xal (unat (i_idx (inode_of xal d)))
       (unat (i_idx (inode_of xal d)) + unat (i_count (inode_of xal d))) vs"
      "\<And>fuel depth s. fuel \<ge> entry_fuel xal d 0 \<Longrightarrow>
       walk_dentries fuel (Some (quiet f)) xal d s depth (h_seq_lock xal) 0 =
       (Ok (), xal, fold (visit f xal depth) vs s)"
      by (auto simp: entry_visits_def)
    have fuel: "entry_fuel xal d 0 \<le> 3 * (n_inodes xal - d)"
    proof (cases "i_count (inode_of xal d) = 0")
      case False
      then have "unat (i_idx (inode_of xal d)) \<in> set (children xal d)"
        by (simp add: children_def unat_gt_0)
      then show ?thesis using dir_okD(1,2) [OF ok] less.prems(1)
        by (force simp: entry_fuel_def node_fuel_def)
    qed (use less.prems(1) in \<open>simp add: entry_fuel_def\<close>)
    have "walk_node fuel (Some (quiet f)) xal d s depth (h_seq_lock xal) =
        (Ok (), xal, fold (visit f xal depth) (([], d) # vs) s)" if "fuel \<ge> node_fuel xal d" for fuel s depth
      using suc [OF that] vs(2) fuel clean dir
      by (auto simp: quiet_def visit_def xal_get_seq_lock_def xal_inode_is_dir_def)
    then show ?thesis
      using lists_tree_dir [OF dir _ vs(1)] unfolding node_visits_def by (auto simp: children_def)
  qed
qed

lemma walk_visits:
  assumes "tree_ok xal" "names_ok xal" "h_index_state xal = XAL_STATE_CLEAN" "\<not> is_odd (h_seq_lock xal)"
    and "i < n_inodes xal" "xal_inode_is_dir (inode_of xal i) \<or> xal_inode_is_file (inode_of xal i)"
  shows "\<exists>vs. lists_tree xal i vs \<and> (\<forall>fuel \<ge> 3 * n_inodes xal + 1. \<forall>d.
    xal_walk fuel (Some xal) (Some i) (Some (quiet f)) d = (Ok (), Some xal, fold (visit f xal 0) vs d))"
proof -
  have clean: "\<not> xal_is_dirty xal" using assms(3) by (simp add: xal_is_dirty_def)
  have fuel: "node_fuel xal i \<le> 3 * n_inodes xal + 1" by (simp add: node_fuel_def)
  show ?thesis
    using node_visited [OF assms(1,2) clean assms(5,6), of f] order_trans [OF fuel] clean assms(4)
    unfolding node_visits_def xal_walk_def by (auto simp: xal_get_seq_lock_def Let_def)
qed

text \<open>
  C6: on a well-formed index, with fuel for three steps an inode, a walk from an inode
  returns success and calls the callback for exactly the inodes below it, once each, with their
  depth, and in the lexicographic order of their paths.
\<close>

theorem xal_walk_visits:
  assumes "tree_ok xal" "names_ok xal" "h_index_state xal = XAL_STATE_CLEAN" "\<not> is_odd (h_seq_lock xal)"
    and "i < n_inodes xal" "xal_inode_is_dir (inode_of xal i) \<or> xal_inode_is_file (inode_of xal i)"
  shows "\<exists>vs. lists_tree xal i vs \<and> (\<forall>fuel \<ge> 3 * n_inodes xal + 1. \<forall>d.
    xal_walk fuel (Some xal) (Some i) (Some (quiet f)) d = (Ok (), Some xal, fold (visit f xal 0) vs d))"
  by (rule walk_visits [OF assms])

lemma sample_tree: "tree_ok sample_xal"
  using sample_wf by (simp add: index_wf_def)

lemma sample_clean: "h_index_state sample_xal = XAL_STATE_CLEAN" "\<not> is_odd (h_seq_lock sample_xal)"
  by (simp_all add: sample_xal_def)

theorem xal_walk_visits_witness:
  "\<exists>vs. lists_tree sample_xal 0 vs \<and> (\<forall>fuel \<ge> 3 * n_inodes sample_xal + 1. \<forall>d.
    xal_walk fuel (Some sample_xal) (Some 0) (Some (quiet (\<lambda>xal i d k. d @ [(i, k)]))) d =
      (Ok (), Some sample_xal, fold (visit (\<lambda>xal i d k. d @ [(i, k)]) sample_xal 0) vs d))"
  by (rule xal_walk_visits [OF sample_tree sample_names sample_clean])
     (simp_all del: sample_inode_simps(1-4))

lemma walk_agree:
  assumes agree: "\<And>xal i d k. \<not> xal_is_dirty xal \<Longrightarrow> h_seq_lock xal = exp_seqlock \<Longrightarrow> cb xal i d k = cb' xal i d k"
  shows "walk_node fuel (Some cb) xal i d k exp_seqlock = walk_node fuel (Some cb') xal i d k exp_seqlock"
    "walk_dentries fuel (Some cb) xal i d k exp_seqlock j = walk_dentries fuel (Some cb') xal i d k exp_seqlock j"
proof (induction fuel arbitrary: xal i d k j)
  case (Suc fuel)
  { case 1
    show ?case using agree Suc by (auto simp: xal_get_seq_lock_def split: option.split prod.split)
  next
    case 2
    show ?case using Suc by (auto split: option.split sum.split prod.split) }
qed simp_all



end
