(* ===== verification/Xal_State.thy ===== *)
theory Xal_State
  imports Xal_Walk
begin

text \<open>
  The state of the index (\<open>xal_mark_dirty()\<close>, \<open>xal_mark_index_done()\<close> and \<open>xal_index()\<close> of
  \<open>src/src/xal.c\<close>, and the bracket that \<open>xal_be_xfs_index()\<close> and \<open>xal_be_fiemap_index()\<close> put around a
  rebuild). Threads and processes share the state word and the sequence lock, so the theory also has
  a step relation in which every atomic access is a step of its own, with the invariants that make a
  reader safe.
\<close>

section \<open>Operations\<close>

definition xal_mark_dirty :: "xal \<Rightarrow> xal" where
  "xal_mark_dirty xal = xal\<lparr>h_index_state := XAL_STATE_DIRTY\<rparr>"

definition xal_mark_index_done :: "xal \<Rightarrow> errno option \<Rightarrow> xal" where
  "xal_mark_index_done xal err =
     (if err \<noteq> None then xal\<lparr>h_index_state := XAL_STATE_DIRTY\<rparr>
      else if h_index_state xal = XAL_STATE_INDEXING then xal\<lparr>h_index_state := XAL_STATE_CLEAN\<rparr>
      else xal)"

definition seq_advance :: "xal \<Rightarrow> xal" where
  "seq_advance xal = xal\<lparr>h_seq_lock := h_seq_lock xal + 1\<rparr>"

text \<open>What both backends do around a rebuild.\<close>

definition index_enter :: "xal \<Rightarrow> xal" where
  "index_enter xal = seq_advance (xal\<lparr>h_index_state := XAL_STATE_INDEXING\<rparr>)"

definition index_exit :: "xal \<Rightarrow> errno option \<Rightarrow> xal" where
  "index_exit xal err = xal_mark_index_done (seq_advance xal) err"

text \<open>
  The end of a rebuild. A failed assertion ends the process, and with it the call, where it happens.
\<close>

definition finish_index :: "unit res \<times> xal \<Rightarrow> unit res \<times> xal" where
  "finish_index r =
     (case r of
        (Inr _, xal) \<Rightarrow> (Ok (), index_exit xal None)
      | (Inl (Errno e), xal) \<Rightarrow> (Fail e, index_exit xal (Some e))
      | (Inl f, xal) \<Rightarrow> (Inl f, xal))"

text \<open>\<open>be_index\<close> is the function the backend has set as \<open>be->index\<close>.\<close>

definition xal_index :: "(xal \<Rightarrow> unit res \<times> xal) \<Rightarrow> xal \<Rightarrow> unit res \<times> xal" where
  "xal_index be_index xal =
     (if h_procrole xal = XAL_PROCROLE_SECONDARY then (Fail EINVAL, xal)
      else if h_indexing xal then (Fail EBUSY, xal)
      else
        (case be_index (xal\<lparr>h_indexing := True\<rparr>) of
           (Inr _, xal) \<Rightarrow> (Ok (), xal\<lparr>h_last_err := None, h_indexing := False\<rparr>)
         | (Inl (Errno e), xal) \<Rightarrow> (Fail e, xal\<lparr>h_last_err := Some e, h_indexing := False\<rparr>)
         | (Inl f, xal) \<Rightarrow> (Inl f, xal)))"

section \<open>Interleavings\<close>

text \<open>
  Where a thread is within \<open>xal_index()\<close>, one point between any two atomic accesses.
\<close>

datatype index_pc =
    Idle
  | Claimed
  | Marked
  | Writing
  | Written "errno option"
  | Reported "errno option"
  | Stored

text \<open>
  A reader takes the state word, then the sequence lock, reads the pools any number of times and
  takes the sequence lock again. \<open>Reading seq n obs\<close> holds the value taken, the number of rebuild steps
  there had been, and the pools read so far; \<open>Accepted obs\<close> is a reader whose last check passed.
\<close>

type_synonym pools = "xal_inode xal_pool \<times> xal_extent xal_pool \<times> u32"

datatype reader_pc =
    R_start
  | R_clean
  | Reading u32 nat "pools list"
  | Accepted "pools list"
  | R_stale

text \<open>
  The shared handle, the threads and the readers. Two components only record history: \<open>k_marked\<close>
  that a mark has landed since the last rebuild stored \<open>XAL_STATE_INDEXING\<close>, and \<open>k_moves\<close> how many times the
  sequence lock was advanced.
\<close>

record conc =
  k_xal :: xal
  k_pc :: "nat \<Rightarrow> index_pc"
  k_reader :: "nat \<Rightarrow> reader_pc"
  k_marked :: bool
  k_moves :: nat

definition pools_of :: "xal \<Rightarrow> pools" where
  "pools_of xal = (h_inodes xal, h_extents xal, h_root_idx xal)"

text \<open>
  The steps of a thread at work, in the order of the code. \<open>refuse\<close> is a backend that returns before it
  touches the state, \<open>rewrite\<close> any store to the pools or the backend during the rebuild.
\<close>

inductive work :: "index_pc \<Rightarrow> conc \<Rightarrow> index_pc \<Rightarrow> conc \<Rightarrow> bool" where
  refuse: "work Claimed k (Reported (Some EINVAL)) k"
| start: "work Claimed k Marked
    (k\<lparr>k_xal := (k_xal k)\<lparr>h_index_state := XAL_STATE_INDEXING\<rparr>, k_marked := False\<rparr>)"
| enter: "work Marked k Writing (k\<lparr>k_xal := seq_advance (k_xal k), k_moves := Suc (k_moves k)\<rparr>)"
| rewrite: "work Writing k Writing
    (k\<lparr>k_xal := (k_xal k)\<lparr>h_inodes := i, h_extents := e, h_root_idx := r, h_be := b\<rparr>\<rparr>)"
| leave: "work Writing k (Written err) (k\<lparr>k_xal := seq_advance (k_xal k), k_moves := Suc (k_moves k)\<rparr>)"
| report: "work (Written err) k (Reported err) (k\<lparr>k_xal := xal_mark_index_done (k_xal k) err\<rparr>)"
| store: "work (Reported err) k Stored (k\<lparr>k_xal := (k_xal k)\<lparr>h_last_err := err\<rparr>\<rparr>)"
| release: "work Stored k Idle (k\<lparr>k_xal := (k_xal k)\<lparr>h_indexing := False\<rparr>\<rparr>)"

text \<open>The steps of a reader.\<close>

inductive look :: "reader_pc \<Rightarrow> conc \<Rightarrow> reader_pc \<Rightarrow> bool" where
  dirty: "look R_start k (if xal_is_dirty (k_xal k) then R_stale else R_clean)"
| seq: "look R_clean k (if is_odd (xal_get_seq_lock (k_xal k)) then R_stale
    else Reading (xal_get_seq_lock (k_xal k)) (k_moves k) [])"
| read: "look (Reading s n obs) k (Reading s n (pools_of (k_xal k) # obs))"
| check: "look (Reading s n obs) k (if s \<noteq> xal_get_seq_lock (k_xal k) then R_stale else Accepted obs)"

inductive kstep :: "conc \<Rightarrow> conc \<Rightarrow> bool" where
  mark: "kstep k (k\<lparr>k_xal := xal_mark_dirty (k_xal k), k_marked := True\<rparr>)"
| claim: "k_pc k t = Idle \<Longrightarrow> h_procrole (k_xal k) \<noteq> XAL_PROCROLE_SECONDARY \<Longrightarrow> \<not> h_indexing (k_xal k) \<Longrightarrow>
    kstep k (k\<lparr>k_xal := (k_xal k)\<lparr>h_indexing := True\<rparr>, k_pc := (k_pc k)(t := Claimed)\<rparr>)"
| work: "work (k_pc k t) k pc' k' \<Longrightarrow> kstep k (k'\<lparr>k_pc := (k_pc k)(t := pc')\<rparr>)"
| look: "look (k_reader k r) k rp' \<Longrightarrow> kstep k (k\<lparr>k_reader := (k_reader k)(r := rp')\<rparr>)"

text \<open>A handle no thread is working on.\<close>

definition k_init :: "xal \<Rightarrow> conc" where
  "k_init xal = \<lparr>k_xal = xal, k_pc = (\<lambda>_. Idle), k_reader = (\<lambda>_. R_start), k_marked = False, k_moves = 0\<rparr>"

inductive kreach :: "xal \<Rightarrow> conc \<Rightarrow> bool" for xal where
  init: "h_seq_lock xal = 0 \<Longrightarrow> \<not> h_indexing xal \<Longrightarrow> kreach xal (k_init xal)"
| step: "kreach xal k \<Longrightarrow> kstep k k' \<Longrightarrow> kreach xal k'"

section \<open>Invariants\<close>

definition k_mutex :: "conc \<Rightarrow> bool" where
  "k_mutex k \<longleftrightarrow>
     (if h_indexing (k_xal k) then \<exists>t pc. pc \<noteq> Idle \<and> k_pc k = (\<lambda>_. Idle)(t := pc) else k_pc k = (\<lambda>_. Idle))"

definition k_seq :: "conc \<Rightarrow> bool" where
  "k_seq k \<longleftrightarrow> h_seq_lock (k_xal k) = of_nat (k_moves k) \<and> (odd (k_moves k) \<longleftrightarrow> (\<exists>t. k_pc k t = Writing))"

fun rebuilding :: "index_pc \<Rightarrow> bool" where
  "rebuilding Marked = True"
| "rebuilding Writing = True"
| "rebuilding (Written err) = True"
| "rebuilding _ = False"

definition k_state :: "conc \<Rightarrow> bool" where
  "k_state k \<longleftrightarrow> (k_marked k \<longrightarrow> h_index_state (k_xal k) = XAL_STATE_DIRTY)
     \<and> (\<forall>t. rebuilding (k_pc k t) \<longrightarrow> h_index_state (k_xal k) \<noteq> XAL_STATE_CLEAN)"

definition k_readers :: "conc \<Rightarrow> bool" where
  "k_readers k \<longleftrightarrow> (\<forall>r s n obs. k_reader k r = Reading s n obs \<longrightarrow>
     s = of_nat n \<and> even n \<and> n \<le> k_moves k \<and> (n = k_moves k \<longrightarrow> (\<forall>o' \<in> set obs. o' = pools_of (k_xal k))))"

lemmas k_invs = k_mutex_def k_seq_def k_state_def k_readers_def

lemma seq_advance_simps [simp]:
  "h_seq_lock (seq_advance xal) = h_seq_lock xal + 1" "h_index_state (seq_advance xal) = h_index_state xal"
  "h_indexing (seq_advance xal) = h_indexing xal" "pools_of (seq_advance xal) = pools_of xal"
  "h_procrole (seq_advance xal) = h_procrole xal"
  by (simp_all add: seq_advance_def pools_of_def)

lemma mark_simps [simp]:
  "h_seq_lock (xal_mark_dirty xal) = h_seq_lock xal" "h_index_state (xal_mark_dirty xal) = XAL_STATE_DIRTY"
  "h_indexing (xal_mark_dirty xal) = h_indexing xal" "pools_of (xal_mark_dirty xal) = pools_of xal"
  by (simp_all add: xal_mark_dirty_def pools_of_def)

lemma mark_done_simps [simp]:
  "h_seq_lock (xal_mark_index_done xal err) = h_seq_lock xal"
  "h_indexing (xal_mark_index_done xal err) = h_indexing xal"
  "pools_of (xal_mark_index_done xal err) = pools_of xal"
  by (simp_all add: xal_mark_index_done_def pools_of_def)

lemma pools_of_frame [simp]:
  "pools_of (xal\<lparr>h_indexing := b\<rparr>) = pools_of xal" "pools_of (xal\<lparr>h_last_err := e\<rparr>) = pools_of xal"
  "pools_of (xal\<lparr>h_index_state := s\<rparr>) = pools_of xal"
  by (simp_all add: pools_of_def)

lemma k_owner:
  assumes "k_mutex k" "k_pc k t = pc" "pc \<noteq> Idle"
  shows "h_indexing (k_xal k)" "k_pc k = (\<lambda>_. Idle)(t := pc)"
  using assms by (auto simp: k_mutex_def fun_eq_iff split: if_splits)

lemma k_others: "k_mutex k \<Longrightarrow> k_pc k t \<noteq> Idle \<Longrightarrow> u \<noteq> t \<Longrightarrow> k_pc k u = Idle"
  by (auto simp: k_mutex_def split: if_splits)

lemma k_free: "k_mutex k \<Longrightarrow> \<not> h_indexing (k_xal k) \<Longrightarrow> k_pc k = (\<lambda>_. Idle)"
  by (simp add: k_mutex_def)

lemma k_owned:
  assumes "h_indexing (k_xal k)" "k_pc k = (\<lambda>_. Idle)(t := pc)" "pc \<noteq> Idle"
  shows "k_mutex k"
  using assms by (auto simp: k_mutex_def)

lemma work_frame:
  assumes "work pc k pc' k'"
  shows "pc \<noteq> Idle" "k_reader k' = k_reader k"
    "h_indexing (k_xal k') \<longleftrightarrow> h_indexing (k_xal k) \<and> pc' \<noteq> Idle"
  using assms by (induction rule: work.induct) simp_all

lemma kstep_mutex: "kstep k k' \<Longrightarrow> k_mutex k \<Longrightarrow> k_mutex k'"
proof (induction rule: kstep.induct)
  case (work k t pc' k')
  note w = work_frame [OF work.hyps]
  note o = k_owner [OF work.prems refl w(1)]
  show ?case
  proof (cases "pc' = Idle")
    case True
    then show ?thesis using w(3) o(2) by (auto simp: k_mutex_def fun_eq_iff)
  next
    case False
    then show ?thesis using w(3) o by (intro k_owned [of _ t pc']) (auto simp: fun_eq_iff)
  qed
qed (auto simp: k_mutex_def)

lemma kstep_seq: "kstep k k' \<Longrightarrow> k_mutex k \<Longrightarrow> k_seq k \<Longrightarrow> k_seq k'"
proof (induction rule: kstep.induct)
  case (work k t pc' k')
  note o = k_owner(2) [OF work.prems(1) refl work_frame(1) [OF work.hyps]]
  have "odd (k_moves k) \<longleftrightarrow> k_pc k t = Writing" using work.prems(2) o
    by (auto simp: k_seq_def) (metis fun_upd_apply index_pc.distinct(5))
  with work.hyps work.prems(2) o show ?case
    by (induction "k_pc k t" k pc' k' rule: work.induct) (auto simp: k_seq_def)
qed (auto simp: k_seq_def dest: k_free)

lemma kstep_state: "kstep k k' \<Longrightarrow> k_mutex k \<Longrightarrow> k_state k \<Longrightarrow> k_state k'"
proof (induction rule: kstep.induct)
  case (work k t pc' k')
  have others: "\<not> rebuilding (k_pc k u)" if "u \<noteq> t" for u
    using k_others [OF work.prems(1) work_frame(1) [OF work.hyps] that] by simp
  have "rebuilding (k_pc k t) \<Longrightarrow> h_index_state (k_xal k) \<noteq> XAL_STATE_CLEAN"
    using work.prems(2) by (auto simp: k_state_def)
  with work.hyps show ?case
    by cases (use work.prems(2) others in
        \<open>auto simp: k_state_def xal_mark_index_done_def split: if_splits\<close>)
qed (auto simp: k_state_def dest: k_free)

lemma kstep_readers: "kstep k k' \<Longrightarrow> k_seq k \<Longrightarrow> k_readers k \<Longrightarrow> k_readers k'"
proof (induction rule: kstep.induct)
  case (work k t pc' k')
  have "k_pc k t = Writing \<Longrightarrow> odd (k_moves k)" using work.prems(1) by (auto simp: k_seq_def)
  with work.hyps work.prems(2) show ?case
    by (induction "k_pc k t" k pc' k' rule: work.induct)
       (fastforce simp: k_readers_def)+
next
  case (look k r rp')
  from look.hyps show ?case
  proof cases
    case (read s n obs)
    then show ?thesis using look.prems by (auto simp: k_readers_def)
  qed (use look.prems in \<open>auto simp: k_readers_def k_seq_def xal_get_seq_lock_def is_odd_iff split: if_splits\<close>)
qed (auto simp: k_readers_def)

lemma kreach_inv: "kreach xal k \<Longrightarrow> k_mutex k \<and> k_seq k \<and> k_state k \<and> k_readers k"
proof (induction rule: kreach.induct)
  case init
  then show ?case by (simp add: k_invs k_init_def)
qed (blast intro: kstep_mutex kstep_seq kstep_state kstep_readers)

section \<open>Threads and readers\<close>

text \<open>
  C8: at any moment at most one thread is inside \<open>xal_index()\<close>, the sequence lock is odd
  exactly while that thread rewrites the pools, and from the moment it announces the rebuild until
  it reports the outcome no reader sees a clean handle.
\<close>

theorem index_exclusive:
  assumes "kreach xal k"
  shows "(\<forall>t u. k_pc k t \<noteq> Idle \<longrightarrow> k_pc k u \<noteq> Idle \<longrightarrow> t = u)
    \<and> (is_odd (h_seq_lock (k_xal k)) \<longleftrightarrow> (\<exists>t. k_pc k t = Writing))
    \<and> (\<forall>t. rebuilding (k_pc k t) \<longrightarrow> xal_is_dirty (k_xal k))"
proof (intro conjI)
  have inv: "k_mutex k" "k_seq k" "k_state k" using kreach_inv [OF assms] by auto
  show "\<forall>t u. k_pc k t \<noteq> Idle \<longrightarrow> k_pc k u \<noteq> Idle \<longrightarrow> t = u" using k_others [OF inv(1)] by blast
  show "is_odd (h_seq_lock (k_xal k)) \<longleftrightarrow> (\<exists>t. k_pc k t = Writing)"
    using inv(2) by (simp add: k_seq_def is_odd_iff)
  show "\<forall>t. rebuilding (k_pc k t) \<longrightarrow> xal_is_dirty (k_xal k)"
    using inv(3) by (auto simp: k_state_def xal_is_dirty_def)
qed

text \<open>A run for the witnesses: a thread claims the index, announces a rebuild and begins it.\<close>

definition sample_idle :: xal where
  "sample_idle = sample_xal\<lparr>h_seq_lock := 0\<rparr>"

definition sample_claimed :: conc where
  "sample_claimed = (k_init sample_idle)
     \<lparr>k_xal := sample_idle\<lparr>h_indexing := True\<rparr>, k_pc := (\<lambda>_. Idle)(0 := Claimed)\<rparr>"

definition sample_started :: conc where
  "sample_started = sample_claimed
     \<lparr>k_xal := (k_xal sample_claimed)\<lparr>h_index_state := XAL_STATE_INDEXING\<rparr>,
      k_marked := False, k_pc := (k_pc sample_claimed)(0 := Marked)\<rparr>"

lemma sample_idle_reach: "kreach sample_idle (k_init sample_idle)"
  by (rule kreach.init) (simp_all add: sample_idle_def sample_xal_def)

lemma sample_claimed_reach: "kreach sample_idle sample_claimed"
  using kreach.step [OF sample_idle_reach kstep.claim [of _ 0]]
  by (simp add: sample_claimed_def k_init_def sample_idle_def sample_xal_def)

lemma sample_started_reach: "kreach sample_idle sample_started"
proof -
  have "work (k_pc sample_claimed 0) sample_claimed Marked
      (sample_claimed\<lparr>k_xal := (k_xal sample_claimed)\<lparr>h_index_state := XAL_STATE_INDEXING\<rparr>, k_marked := False\<rparr>)"
    using work.start [of sample_claimed] by (simp add: sample_claimed_def)
  from kreach.step [OF sample_claimed_reach kstep.work [OF this]]
  show ?thesis by (simp add: sample_started_def)
qed

theorem index_exclusive_witness:
  "is_odd (h_seq_lock (k_xal sample_started)) \<longleftrightarrow> (\<exists>t. k_pc sample_started t = Writing)"
  using index_exclusive [OF sample_started_reach] by blast

text \<open>
  C9: a mark that lands after a rebuild was announced survives it: the handle stays dirty
  through the end of that rebuild, whatever its outcome, until the next rebuild is announced.
\<close>

theorem mark_survives:
  assumes "kreach xal k" "kstep k k'"
  shows "(k_marked k \<longrightarrow> h_index_state (k_xal k) = XAL_STATE_DIRTY)
    \<and> (k_marked k \<and> \<not> k_marked k' \<longrightarrow> (\<exists>t. k_pc k t = Claimed \<and> k_pc k' t = Marked))
    \<and> k_marked (k\<lparr>k_xal := xal_mark_dirty (k_xal k), k_marked := True\<rparr>)"
proof (intro conjI impI)
  show "k_marked k \<Longrightarrow> h_index_state (k_xal k) = XAL_STATE_DIRTY"
    using kreach_inv [OF assms(1)] by (simp add: k_state_def)
  show "\<exists>t. k_pc k t = Claimed \<and> k_pc k' t = Marked" if "k_marked k \<and> \<not> k_marked k'"
    using assms(2) that by cases (auto elim!: work.cases)
qed simp

theorem mark_survives_witness:
  "h_index_state (k_xal (sample_started\<lparr>k_xal := xal_mark_dirty (k_xal sample_started), k_marked := True\<rparr>))
     = XAL_STATE_DIRTY"
  using mark_survives [OF kreach.step [OF sample_started_reach kstep.mark] kstep.mark] by simp

text \<open>
  C10: when the last check of a reader passes, everything it read since its first check
  came from one and the same state of the pools, which is still current, and no thread is
  rewriting them. The sequence lock has 32 bits, so this needs fewer than \<open>2 ^ 32\<close> advances, that is
  \<open>2 ^ 31\<close> rebuilds, during the read.
\<close>

theorem reader_snapshot:
  assumes "kreach xal k" "k_reader k r = Reading s n obs" "s = xal_get_seq_lock (k_xal k)"
    and "k_moves k < n + 2 ^ 32"
  shows "n = k_moves k \<and> (\<forall>o' \<in> set obs. o' = pools_of (k_xal k)) \<and> (\<nexists>t. k_pc k t = Writing)"
proof -
  have inv: "k_seq k" "k_readers k" using kreach_inv [OF assms(1)] by auto
  have r: "s = of_nat n" "even n" "n \<le> k_moves k"
    "n = k_moves k \<Longrightarrow> \<forall>o' \<in> set obs. o' = pools_of (k_xal k)"
    using inv(2) assms(2) by (auto simp: k_readers_def)
  have "(of_nat n :: u32) = of_nat (k_moves k)"
    using r(1) assms(3) inv(1) by (simp add: k_seq_def xal_get_seq_lock_def)
  then have "n mod 2 ^ 32 = k_moves k mod 2 ^ 32"
    by (simp add: word_of_nat_eq_iff take_bit_eq_mod)
  then have "2 ^ 32 dvd k_moves k - n" using mod_eq_dvd_iff_nat [OF r(3)] by metis
  then have "n = k_moves k" using r(3) assms(4) by (cases "k_moves k - n = 0") (auto dest!: dvd_imp_le)
  then show ?thesis using r inv(1) by (auto simp: k_seq_def)
qed

lemma sample_look:
  assumes "kreach xal k" "look (k_reader k r) k rp"
  shows "kreach xal (k\<lparr>k_reader := (k_reader k)(r := rp)\<rparr>)"
  using kreach.step [OF assms(1) kstep.look [OF assms(2)]] .

lemma sample_reading:
  "kreach sample_idle ((k_init sample_idle)\<lparr>k_reader := (\<lambda>_. R_start)(0 := Reading 0 0 [pools_of sample_idle])\<rparr>)"
proof -
  have clean: "\<not> xal_is_dirty sample_idle" "xal_get_seq_lock sample_idle = 0"
    by (simp_all add: sample_idle_def sample_xal_def xal_is_dirty_def xal_get_seq_lock_def)
  have "kreach sample_idle ((k_init sample_idle)\<lparr>k_reader := (\<lambda>_. R_start)(0 := R_clean)\<rparr>)"
    using sample_look [OF sample_idle_reach, of 0 R_clean] look.dirty [of "k_init sample_idle"] clean
    by (simp add: k_init_def)
  from sample_look [OF this, of 0 "Reading 0 0 []"]
  have "kreach sample_idle ((k_init sample_idle)\<lparr>k_reader := (\<lambda>_. R_start)(0 := Reading 0 0 [])\<rparr>)"
    using look.seq [of "(k_init sample_idle)\<lparr>k_reader := (\<lambda>_. R_start)(0 := R_clean)\<rparr>"] clean
    by (simp add: k_init_def)
  from sample_look [OF this, of 0 "Reading 0 0 [pools_of sample_idle]"] show ?thesis
    using look.read [of 0 0 "[]" "(k_init sample_idle)\<lparr>k_reader := (\<lambda>_. R_start)(0 := Reading 0 0 [])\<rparr>"]
    by (simp add: k_init_def)
qed

theorem reader_snapshot_witness:
  "\<nexists>t. k_pc ((k_init sample_idle)\<lparr>k_reader := (\<lambda>_. R_start)(0 := Reading 0 0 [pools_of sample_idle])\<rparr>) t = Writing"
  using reader_snapshot [OF sample_reading, of 0 0 0]
  by (simp add: k_init_def xal_get_seq_lock_def sample_idle_def)

section \<open>The contract of a backend\<close>

text \<open>
  What \<open>xal_index()\<close> relies on: \<open>be->index\<close> either refuses with \<open>EINVAL\<close> and touches nothing, or puts the
  bracket around changes to nothing but the pools, the root and the backend. A rebuild that succeeds
  on a handle that is \<open>ready\<close> leaves a well-formed index.
\<close>

definition rebuilt :: "xal \<Rightarrow> xal \<Rightarrow> bool" where
  "rebuilt xal xal' \<longleftrightarrow> (\<exists>i e r b. xal' = xal\<lparr>h_inodes := i, h_extents := e, h_root_idx := r, h_be := b\<rparr>)"

lemma index_wf_frame:
  assumes "h_inodes xal' = h_inodes xal" "h_root_idx xal' = h_root_idx xal"
  shows "index_wf xal' \<longleftrightarrow> index_wf xal"
  unfolding index_wf_def tree_ok_def root_ok_def dir_ok_def children_def assms ..

locale index_backend =
  fixes be_index :: "xal \<Rightarrow> unit res \<times> xal"
    and ready :: "xal \<Rightarrow> bool"
  assumes bracket: "be_index xal = (r, xal') \<Longrightarrow>
      r = Fail EINVAL \<and> xal' = xal
      \<or> (\<exists>mid. rebuilt (index_enter xal) mid \<and> finish_index (r, mid) = (r, xal'))"
    and builds: "ready xal \<Longrightarrow> be_index xal = (Ok (), xal') \<Longrightarrow> index_wf xal'"
    and ready_claim: "ready (xal\<lparr>h_indexing := True\<rparr>) = ready xal"
begin

lemma index_ok:
  assumes "xal_index be_index xal = (Ok (), xal')"
  shows "h_seq_lock xal' = h_seq_lock xal + 2" "h_index_state xal' = XAL_STATE_CLEAN"
    "h_last_err xal' = None" "\<not> h_indexing xal'" "ready xal \<Longrightarrow> index_wf xal'"
proof -
  obtain x where x: "be_index (xal\<lparr>h_indexing := True\<rparr>) = (Ok (), x)"
    "xal' = x\<lparr>h_last_err := None, h_indexing := False\<rparr>"
    using assms by (auto simp: xal_index_def split: if_splits prod.splits sum.splits fault.splits)
  then obtain mid where mid: "rebuilt (index_enter (xal\<lparr>h_indexing := True\<rparr>)) mid" "x = index_exit mid None"
    using bracket [OF x(1)] by (auto simp: finish_index_def)
  show "h_seq_lock xal' = h_seq_lock xal + 2" "h_index_state xal' = XAL_STATE_CLEAN"
    using mid x(2) by (auto simp: rebuilt_def index_enter_def index_exit_def xal_mark_index_done_def)
  show "h_last_err xal' = None" "\<not> h_indexing xal'" using x(2) by simp_all
  show "index_wf xal'" if "ready xal"
    using builds [OF _ x(1)] x(2) that ready_claim index_wf_frame [of xal' x] by simp
qed

lemma index_fail:
  assumes "xal_index be_index xal = (Fail e, xal')"
  shows "xal' = xal \<and> e \<in> {EINVAL, EBUSY}
    \<or> e = EINVAL \<and> xal' = xal\<lparr>h_last_err := Some EINVAL, h_indexing := False\<rparr>
    \<or> h_seq_lock xal' = h_seq_lock xal + 2 \<and> h_index_state xal' = XAL_STATE_DIRTY
      \<and> h_last_err xal' = Some e \<and> \<not> h_indexing xal'"
proof (cases "h_procrole xal = XAL_PROCROLE_SECONDARY \<or> h_indexing xal")
  case True
  then show ?thesis using assms by (auto simp: xal_index_def split: if_splits)
next
  case False
  then obtain x where x: "be_index (xal\<lparr>h_indexing := True\<rparr>) = (Fail e, x)"
    "xal' = x\<lparr>h_last_err := Some e, h_indexing := False\<rparr>"
    using assms by (auto simp: xal_index_def split: if_splits prod.splits sum.splits fault.splits)
  from bracket [OF x(1)] show ?thesis
  proof
    assume "Fail e = Fail EINVAL \<and> x = xal\<lparr>h_indexing := True\<rparr>"
    then show ?thesis using x(2) by simp
  next
    assume "\<exists>mid. rebuilt (index_enter (xal\<lparr>h_indexing := True\<rparr>)) mid \<and> finish_index (Fail e, mid) = (Fail e, x)"
    then show ?thesis using x(2)
      by (auto simp: finish_index_def rebuilt_def index_enter_def index_exit_def xal_mark_index_done_def)
  qed
qed

end

section \<open>A call of xal_index is a run of the steps\<close>

definition at_pc :: "conc \<Rightarrow> nat \<Rightarrow> index_pc \<Rightarrow> xal \<Rightarrow> bool \<Rightarrow> nat \<Rightarrow> conc" where
  "at_pc k t pc x m n =
     \<lparr>k_xal = x, k_pc = (k_pc k)(t := pc), k_reader = k_reader k, k_marked = m, k_moves = n\<rparr>"

lemmas ksteps_one = r_into_rtranclp [of kstep]
lemmas ksteps_snoc = rtranclp.rtrancl_into_rtrancl [of kstep]

lemma at_pc_step:
  assumes "work pc (at_pc k t pc x m n) pc' (at_pc k t pc x' m' n')"
  shows "kstep (at_pc k t pc x m n) (at_pc k t pc' x' m' n')"
proof -
  have "work (k_pc (at_pc k t pc x m n) t) (at_pc k t pc x m n) pc' (at_pc k t pc x' m' n')"
    using assms by (simp add: at_pc_def)
  from kstep.work [OF this] show ?thesis by (simp add: at_pc_def)
qed

lemma at_pc_rebuild:
  assumes "rebuilt (index_enter x) mid"
  shows "\<exists>m' n'. kstep\<^sup>*\<^sup>* (at_pc k t Claimed x m n) (at_pc k t (Reported err) (index_exit mid err) m' n')"
proof -
  let ?x1 = "x\<lparr>h_index_state := XAL_STATE_INDEXING\<rparr>"
  have 1: "kstep (at_pc k t Claimed x m n) (at_pc k t Marked ?x1 False n)"
    using work.start [of "at_pc k t Claimed x m n"] by (intro at_pc_step) (simp add: at_pc_def)
  have 2: "kstep (at_pc k t Marked ?x1 False n) (at_pc k t Writing (index_enter x) False (Suc n))"
    using work.enter [of "at_pc k t Marked ?x1 False n"] by (intro at_pc_step) (simp add: at_pc_def index_enter_def)
  obtain i e r b where mid: "mid = (index_enter x)\<lparr>h_inodes := i, h_extents := e, h_root_idx := r, h_be := b\<rparr>"
    using assms by (auto simp: rebuilt_def)
  have 3: "kstep (at_pc k t Writing (index_enter x) False (Suc n)) (at_pc k t Writing mid False (Suc n))"
    using work.rewrite [where k = "at_pc k t Writing (index_enter x) False (Suc n)" and i = i and e = e and r = r and b = b]
    by (intro at_pc_step) (simp add: at_pc_def mid)
  have 4: "kstep (at_pc k t Writing mid False (Suc n)) (at_pc k t (Written err) (seq_advance mid) False (Suc (Suc n)))"
    using work.leave [of "at_pc k t Writing mid False (Suc n)" err] by (intro at_pc_step) (simp add: at_pc_def)
  have 5: "kstep (at_pc k t (Written err) (seq_advance mid) False (Suc (Suc n)))
      (at_pc k t (Reported err) (index_exit mid err) False (Suc (Suc n)))"
    using work.report [of err "at_pc k t (Written err) (seq_advance mid) False (Suc (Suc n))"]
    by (intro at_pc_step) (simp add: at_pc_def index_exit_def)
  have "kstep\<^sup>*\<^sup>* (at_pc k t Claimed x m n) (at_pc k t (Written err) (seq_advance mid) False (Suc (Suc n)))"
    by (rule ksteps_snoc [OF ksteps_snoc
          [OF ksteps_snoc [OF ksteps_one [OF 1] 2] 3] 4])
  then show ?thesis using 5 by (blast intro: ksteps_snoc)
qed

lemma at_pc_return:
  "kstep\<^sup>*\<^sup>* (at_pc k t (Reported err) x m n) (at_pc k t Idle (x\<lparr>h_last_err := err, h_indexing := False\<rparr>) m n)"
proof -
  have 1: "kstep (at_pc k t (Reported err) x m n) (at_pc k t Stored (x\<lparr>h_last_err := err\<rparr>) m n)"
    using work.store [of err "at_pc k t (Reported err) x m n"] by (intro at_pc_step) (simp add: at_pc_def)
  have 2: "kstep (at_pc k t Stored (x\<lparr>h_last_err := err\<rparr>) m n)
      (at_pc k t Idle (x\<lparr>h_last_err := err, h_indexing := False\<rparr>) m n)"
    using work.release [of "at_pc k t Stored (x\<lparr>h_last_err := err\<rparr>) m n"] by (intro at_pc_step) (simp add: at_pc_def)
  show ?thesis by (rule ksteps_snoc [OF ksteps_one [OF 1] 2])
qed

context index_backend
begin

lemma index_runs:
  assumes idle: "k_pc k t = Idle" and ret: "r = Ok () \<or> r = Fail err"
    and index: "xal_index be_index (k_xal k) = (r, xal')"
  shows "\<exists>k'. kstep\<^sup>*\<^sup>* k k' \<and> k_xal k' = xal' \<and> k_pc k' = k_pc k"
proof (cases "h_procrole (k_xal k) = XAL_PROCROLE_SECONDARY \<or> h_indexing (k_xal k)")
  case True
  then show ?thesis using index by (auto simp: xal_index_def split: if_splits)
next
  case False
  let ?x = "(k_xal k)\<lparr>h_indexing := True\<rparr>"
  define e where "e = (if r = Ok () then None else Some err)"
  obtain y where y: "be_index ?x = (r, y)" "xal' = y\<lparr>h_last_err := e, h_indexing := False\<rparr>"
    using index ret False by (auto simp: xal_index_def e_def split: prod.splits sum.splits fault.splits)
  have claim: "kstep k (at_pc k t Claimed ?x (k_marked k) (k_moves k))"
  proof -
    have "at_pc k t Claimed ?x (k_marked k) (k_moves k) = k\<lparr>k_xal := ?x, k_pc := (k_pc k)(t := Claimed)\<rparr>"
      by (cases k) (simp add: at_pc_def)
    then show ?thesis using kstep.claim [of k t] idle False by simp
  qed
  have "\<exists>m n. kstep\<^sup>*\<^sup>* (at_pc k t Claimed ?x (k_marked k) (k_moves k)) (at_pc k t (Reported e) y m n)"
  proof (rule disjE [OF bracket [OF y(1)]])
    assume "r = Fail EINVAL \<and> y = ?x"
    then have "e = Some EINVAL" "y = ?x" using ret by (auto simp: e_def)
    then show ?thesis
      using at_pc_step [of Claimed k t ?x _ _ "Reported e" ?x] work.refuse by blast
  next
    assume "\<exists>mid. rebuilt (index_enter ?x) mid \<and> finish_index (r, mid) = (r, y)"
    then obtain mid where "rebuilt (index_enter ?x) mid" "y = index_exit mid e"
      using ret by (auto simp: finish_index_def e_def)
    then show ?thesis using at_pc_rebuild by blast
  qed
  then obtain m n where "kstep\<^sup>*\<^sup>* k (at_pc k t (Reported e) y m n)"
    using claim by (meson converse_rtranclp_into_rtranclp)
  then have "kstep\<^sup>*\<^sup>* k (at_pc k t Idle xal' m n)"
    using at_pc_return [of k t e y m n] y(2) by (meson rtranclp_trans)
  moreover have "k_xal (at_pc k t Idle xal' m n) = xal'" "k_pc (at_pc k t Idle xal' m n) = k_pc k"
    using idle by (auto simp: at_pc_def)
  ultimately show ?thesis by blast
qed

end

end
