(* ===== verification/Xal_Xfs_Disk.thy ===== *)
theory Xal_Xfs_Disk
  imports Xal_State
begin

text \<open>
  The XFS backend, part one (\<open>src/src/xal_be_xfs.c\<close>, \<open>src/include/xal_odf.h\<close>): reading the device, the
  layout of the btree blocks, retrieving the on-disk inodes through the inode B+tree of every
  allocation group, and the fields of the superblock. The
  device is a parameter; what it transfers is memory, from which the big-endian fields are read at the
  offsets of the on-disk structures.
\<close>

section \<open>The device\<close>

text \<open>
  The geometry of the device, the read command (the first block and the zero-based number of blocks,
  as NVMe counts them), whether growing the hash map fails, the operating system of the pools,
  and the value \<open>errno\<close> has when a call of the library fails.
\<close>

record xfs_env =
  dev_mdts_nbytes :: u32
  dev_lba_nbytes :: u32
  xnvme_nvm_read :: "u64 \<Rightarrow> u16 \<Rightarrow> mem option"
  kh_put_fails :: "u64 \<Rightarrow> bool"
  env_os :: pool_os
  env_errno :: "errno option"

abbreviation (input) BUF_NBYTES :: u64 where "BUF_NBYTES \<equiv> 131072"
abbreviation (input) CHUNK_NINO :: nat where "CHUNK_NINO \<equiv> 64"
abbreviation (input) ODF_BLOCK_FS_BYTES_MAX :: u32 where "ODF_BLOCK_FS_BYTES_MAX \<equiv> 65536"

definition mem_prefix :: "nat \<Rightarrow> mem \<Rightarrow> mem \<Rightarrow> mem" where
  "mem_prefix n src dst = (\<lambda>i. if i < n then src i else dst i)"

definition dev_read :: "xfs_env \<Rightarrow> mem \<Rightarrow> u64 \<Rightarrow> u64 \<Rightarrow> unit res \<times> mem" where
  "dev_read env buf cnt offset =
     (let lba = ucast (dev_lba_nbytes env)
      in if ucast (dev_mdts_nbytes env) < cnt then (Fail EINVAL, buf)
         else if lba = 0 then (Inl Abort, buf)
         else if cnt mod lba \<noteq> 0 then (Fail EINVAL, buf)
         else if offset mod lba \<noteq> 0 then (Fail EINVAL, buf)
         else
           (let buf = mem_prefix (unat cnt) (\<lambda>_. 0) buf;
                nlb = ucast (cnt div lba - 1)
            in case xnvme_nvm_read env (offset div lba) nlb of
                 None \<Rightarrow> (Fail EIO, buf)
               | Some data \<Rightarrow> (Ok (), mem_prefix ((unat nlb + 1) * unat lba) data buf)))"

text \<open>The backend of an XFS handle, and reading through its buffer.\<close>

definition no_be_xfs :: xal_be_xfs where
  "no_be_xfs = \<lparr>xfs_buf = (\<lambda>_. 0), xfs_dinodes = None, xfs_dinodes_map = (\<lambda>_. None), xfs_ags = []\<rparr>"

definition be_of :: "xal \<Rightarrow> xal_be_xfs" where
  "be_of xal = (case h_be xal of Be_xfs be \<Rightarrow> be | _ \<Rightarrow> no_be_xfs)"

definition set_be :: "xal \<Rightarrow> xal_be_xfs \<Rightarrow> xal" where
  "set_be xal be = xal\<lparr>h_be := Be_xfs be\<rparr>"

definition dev_read_buf :: "xfs_env \<Rightarrow> xal \<Rightarrow> u64 \<Rightarrow> u64 \<Rightarrow> unit res \<times> xal" where
  "dev_read_buf env xal cnt offset =
     (let (r, buf) = dev_read env (xfs_buf (be_of xal)) cnt offset
      in (r, set_be xal ((be_of xal)\<lparr>xfs_buf := buf\<rparr>)))"

text \<open>The destination is a local array that is zero to begin with.\<close>

definition dev_read_into :: "xfs_env \<Rightarrow> xal \<Rightarrow> u64 \<Rightarrow> u64 \<Rightarrow> mem res \<times> xal" where
  "dev_read_into env xal cnt offset =
     bind_st (dev_read_buf env xal cnt offset)
       (\<lambda>_ xal. (Ok (mem_prefix (unat cnt) (xfs_buf (be_of xal)) (\<lambda>_. 0)), xal))"

section \<open>On-disk structures\<close>

abbreviation (input) XAL_ODF_AGF_MAGIC :: u32 where "XAL_ODF_AGF_MAGIC \<equiv> 0x58414746"
abbreviation (input) XAL_ODF_AGI_MAGIC :: u32 where "XAL_ODF_AGI_MAGIC \<equiv> 0x58414749"
abbreviation (input) XAL_ODF_IBT_CRC_MAGIC :: u32 where "XAL_ODF_IBT_CRC_MAGIC \<equiv> 0x49414233"
abbreviation (input) XAL_ODF_BMAP_CRC_MAGIC :: u32 where "XAL_ODF_BMAP_CRC_MAGIC \<equiv> 0x424D4133"
abbreviation (input) XAL_ODF_DIR3_BLOCK_MAGIC :: u32 where "XAL_ODF_DIR3_BLOCK_MAGIC \<equiv> 0x58444233"
abbreviation (input) XAL_ODF_DIR3_DATA_MAGIC :: u32 where "XAL_ODF_DIR3_DATA_MAGIC \<equiv> 0x58444433"

text \<open>\<open>struct xal_odf_sb\<close>; the fields of a superblock at their offsets.\<close>

definition odf_sb :: "mem \<Rightarrow> xal_sb" where
  "odf_sb m = \<lparr>sb_blocksize = be32 m 4, sb_sectsize = be16 m 102, sb_inodesize = be16 m 104,
     sb_inopblock = be16 m 106, sb_inopblog = m 123, sb_icount = be64 m 128, sb_nallocated = 0,
     sb_rootino = be64 m 56, sb_agblocks = be32 m 84, sb_agblklog = m 124, sb_agcount = be32 m 88,
     sb_dirblocksize = push_bit (unat (m 192)) (be32 m 4), sb_lba_blksze = 0\<rparr>"

text \<open>\<open>struct xal_odf_dinode\<close>, 176 bytes; an inode starts at offset \<open>o'\<close> of the array of inodes.\<close>

abbreviation (input) DINODE_NBYTES :: nat where "DINODE_NBYTES \<equiv> 176"

definition di_mode :: "mem \<Rightarrow> nat \<Rightarrow> u16" where "di_mode m o' = be16 m (o' + 2)"
definition di_format :: "mem \<Rightarrow> nat \<Rightarrow> u8" where "di_format m o' = m (o' + 5)"
definition di_big_nextents :: "mem \<Rightarrow> nat \<Rightarrow> u64" where "di_big_nextents m o' = be64 m (o' + 24)"
definition di_size :: "mem \<Rightarrow> nat \<Rightarrow> u64" where "di_size m o' = be64 m (o' + 56)"
definition di_nextents :: "mem \<Rightarrow> nat \<Rightarrow> u32" where "di_nextents m o' = be32 m (o' + 76)"
definition di_forkoff :: "mem \<Rightarrow> nat \<Rightarrow> u8" where "di_forkoff m o' = m (o' + 82)"
definition di_ino :: "mem \<Rightarrow> nat \<Rightarrow> u64" where "di_ino m o' = be64 m (o' + 152)"

text \<open>\<open>struct xal_odf_btree_sfmt\<close>, 56 bytes, and \<open>struct xal_odf_btree_lfmt\<close>, 72 bytes, begin alike.\<close>

abbreviation (input) SFMT_NBYTES :: nat where "SFMT_NBYTES \<equiv> 56"
abbreviation (input) LFMT_NBYTES :: nat where "LFMT_NBYTES \<equiv> 72"

definition bt_magic :: "mem \<Rightarrow> u32" where "bt_magic m = be32 m 0"
definition bt_level :: "mem \<Rightarrow> u16" where "bt_level m = be16 m 4"
definition bt_numrecs :: "mem \<Rightarrow> u16" where "bt_numrecs m = be16 m 6"

section \<open>Layout of btree blocks\<close>

text \<open>
  The number of records that fit, and where keys and pointers start: in a dinode, in a long-format
  block and in a short-format block. The arithmetic is that of \<open>size_t\<close>.
\<close>

definition btree_dinode_meta :: "xal_sb \<Rightarrow> mem \<Rightarrow> nat \<Rightarrow> u64 \<times> u64 \<times> u64" where
  "btree_dinode_meta sb m o' =
     (let core_nbytes = 176;
          attr_ofz = core_nbytes + ucast (di_forkoff m o') * 8;
          attr_nbytes = ucast (sb_inodesize sb) - attr_ofz;
          data_nbytes = ucast (sb_inodesize sb) - core_nbytes - attr_nbytes;
          mrecs = (data_nbytes - 4) div 16
      in (mrecs, core_nbytes + 2 + 2, core_nbytes + 2 + 2 + mrecs * 8))"

definition btree_lblock_meta :: "xal_sb \<Rightarrow> u64 \<times> u64 \<times> u64" where
  "btree_lblock_meta sb =
     (let hdr_nbytes = 72; mrecs = (ucast (sb_blocksize sb) - hdr_nbytes) div 16
      in (mrecs, hdr_nbytes, hdr_nbytes + mrecs * 8))"

definition btree_sblock_meta :: "xal_sb \<Rightarrow> u64 \<times> u64 \<times> u64" where
  "btree_sblock_meta sb =
     (let hdr_nbytes = 56; mrecs = (ucast (sb_blocksize sb) - hdr_nbytes) div 8
      in (mrecs, hdr_nbytes, hdr_nbytes + mrecs * 4))"

section \<open>Retrieving the on-disk inodes\<close>

definition read_iab3_block :: "xfs_env \<Rightarrow> xal_ag \<Rightarrow> u64 \<Rightarrow> xal \<Rightarrow> mem res \<times> xal" where
  "read_iab3_block env ag blkno xal =
     bind_st (dev_read_into env xal (ucast (sb_blocksize (h_sb xal)))
                (xal_agbno_absolute_offset (h_sb xal) (ag_seqno ag) blkno))
       (\<lambda>block xal. if bt_magic block \<noteq> XAL_ODF_IBT_CRC_MAGIC then (Fail EINVAL, xal) else (Ok block, xal))"

text \<open>
  One inode of a chunk: skipped when its bit of the hole mask or of the free mask is set, otherwise
  copied to the next place of the array and entered into the map under the number it holds.
\<close>

definition chunk_inode ::
  "xfs_env \<Rightarrow> mem \<Rightarrow> u16 \<Rightarrow> u64 \<Rightarrow> nat \<Rightarrow> u64 \<times> xal \<Rightarrow> unit res \<times> u64 \<times> xal" where
  "chunk_inode env inodechunk holemask free_mask chunk_index s =
     (let (index, xal) = s;
          inodesize = unat (sb_inodesize (h_sb xal));
          is_unused = drop_bit (chunk_index div 4) holemask AND 1;
          is_free = drop_bit chunk_index (free_mask AND push_bit chunk_index 1)
      in if is_unused \<noteq> 0 \<or> is_free \<noteq> 0 then (Ok (), s)
         else
           (let be = be_of xal;
                place = unat (index * ucast (sb_inodesize (h_sb xal)));
                dinodes = (\<lambda>i. if place \<le> i \<and> i < place + inodesize
                               then inodechunk (chunk_index * inodesize + (i - place))
                               else (case xfs_dinodes be of None \<Rightarrow> 0 | Some m \<Rightarrow> m i));
                be = be\<lparr>xfs_dinodes := Some dinodes\<rparr>;
                ino = di_ino dinodes place
            in if kh_put_fails env ino then (Fail EIO, index, set_be xal be)
               else (Ok (), index + 1,
                     set_be xal (be\<lparr>xfs_dinodes_map := (xfs_dinodes_map be)(ino \<mapsto> place)\<rparr>))))"

definition decode_iab3_leaf_record ::
  "xfs_env \<Rightarrow> xal_ag \<Rightarrow> mem \<Rightarrow> nat \<Rightarrow> u64 \<times> xal \<Rightarrow> unit res \<times> u64 \<times> xal" where
  "decode_iab3_leaf_record env ag block reci s =
     (let (index, xal) = s;
          sb = h_sb xal;
          o' = SFMT_NBYTES + reci * 16;
          startino = be32 block o';
          holemask = be16 block (o' + 4);
          free_mask = be64 block (o' + 8);
          (agbno, agbino) = xal_ino_decode_relative sb startino
      in if agbino \<noteq> 0 \<or> sb_inopblock sb = 0 then (Inl Abort, s)
         else
           (let chunk_nbytes = ucast (of_nat (CHUNK_NINO div unat (sb_inopblock sb)) * sb_blocksize sb) :: u64;
                chunk_offset = agbno * ucast (sb_blocksize sb) + ag_offset ag
            in if BUF_NBYTES \<le> chunk_nbytes then (Inl Abort, s)
               else
                 (case dev_read_into env xal chunk_nbytes chunk_offset of
                    (Inl f, xal) \<Rightarrow> (Inl f, index, xal)
                  | (Inr inodechunk, xal) \<Rightarrow>
                      for_st [0..<CHUNK_NINO] (chunk_inode env inodechunk holemask free_mask) (index, xal))))"

definition decode_iab3_leaf_records ::
  "xfs_env \<Rightarrow> xal_ag \<Rightarrow> mem \<Rightarrow> u64 \<times> xal \<Rightarrow> unit res \<times> u64 \<times> xal" where
  "decode_iab3_leaf_records env ag block s =
     for_st [0..<unat (bt_numrecs block)] (decode_iab3_leaf_record env ag block) s"

text \<open>The pointers of an interior node, each followed by \<open>retrieve\<close>.\<close>

definition decode_iab3_node_records ::
  "(u64 \<Rightarrow> u64 \<times> xal \<Rightarrow> unit res \<times> u64 \<times> xal) \<Rightarrow> mem \<Rightarrow> u64 \<times> xal \<Rightarrow> unit res \<times> u64 \<times> xal" where
  "decode_iab3_node_records retrieve block s =
     (let pointers_ofz = snd (snd (btree_sblock_meta (h_sb (snd s))))
      in for_st [0..<unat (bt_numrecs block)] (\<lambda>rec. retrieve (ucast (be32 block (unat pointers_ofz + rec * 4)))) s)"

text \<open>
  A block of level 1 is an interior node, whatever the level of the block it was found through; the
  recursion is counted by fuel, since a block may point at itself.
\<close>

fun retrieve_dinodes_via_iab3 ::
  "nat \<Rightarrow> xfs_env \<Rightarrow> xal_ag \<Rightarrow> u64 \<Rightarrow> u64 \<times> xal \<Rightarrow> unit res \<times> u64 \<times> xal" where
  "retrieve_dinodes_via_iab3 0 env ag blkno s = (Inl Out_of_fuel, s)"
| "retrieve_dinodes_via_iab3 (Suc fuel) env ag blkno s =
     (case read_iab3_block env ag blkno (snd s) of
        (Inl f, xal) \<Rightarrow> (Inl f, fst s, xal)
      | (Inr block, xal) \<Rightarrow>
          if bt_level block = 1 then decode_iab3_node_records (retrieve_dinodes_via_iab3 fuel env ag) block (fst s, xal)
          else if bt_level block = 0 then decode_iab3_leaf_records env ag block (fst s, xal)
          else (Fail EINVAL, fst s, xal))"

text \<open>\<open>calloc_fails\<close> says that the array of inodes cannot be allocated.\<close>

definition xal_dinodes_retrieve :: "nat \<Rightarrow> xfs_env \<Rightarrow> bool \<Rightarrow> xal \<Rightarrow> unit res \<times> xal" where
  "xal_dinodes_retrieve fuel env calloc_fails xal =
     (if h_procrole xal = XAL_PROCROLE_SECONDARY then (Fail EINVAL, xal)
      else
        (case h_be xal of
           Be_xfs be \<Rightarrow>
             (let xal = set_be xal (be\<lparr>xfs_dinodes_map := (\<lambda>_. None)\<rparr>)
              in if calloc_fails then
                   (case env_errno env of None \<Rightarrow> Ok () | Some e \<Rightarrow> Fail e,
                    set_be xal ((be_of xal)\<lparr>xfs_dinodes := None\<rparr>))
                 else
                   (let xal = set_be xal ((be_of xal)\<lparr>xfs_dinodes := Some (\<lambda>_. 0)\<rparr>)
                    in case for_st [0..<unat (sb_agcount (h_sb xal))]
                         (\<lambda>seqno s. let ag = xfs_ags be ! seqno
                                    in retrieve_dinodes_via_iab3 fuel env ag (ucast (agi_root ag)) s) (0, xal) of
                         (Inr _, _, xal) \<Rightarrow> (Ok (), xal)
                       | (Inl f, _, xal) \<Rightarrow> (Inl f, set_be xal ((be_of xal)\<lparr>xfs_dinodes := None\<rparr>))))
         | _ \<Rightarrow> (Ok (), xal)))"

text \<open>The inode of a number is its place in the array.\<close>

definition dinodes_get :: "xal \<Rightarrow> u64 \<Rightarrow> nat res" where
  "dinodes_get xal ino =
     (case xfs_dinodes_map (be_of xal) ino of None \<Rightarrow> Fail EINVAL | Some place \<Rightarrow> Ok place)"

end
