(* ===== verification/Xal_Build.thy ===== *)
theory Xal_Build
  imports Xal_State
begin

text \<open>
  What the two backends have in common when they build the tree: a directory claims a range of inodes
  behind everything claimed so far, fills it with its entries in the order of their names, and
  visits them one after the other, each visit claiming more. The theory states what processing one
  inode may do to the pool (\<open>ino_post\<close>) and shows that processing all entries of a directory this way
  does it again for the directory. The backends only have to establish the steps.
\<close>

section \<open>Operations the backends share\<close>

text \<open>The file type bits of a mode.\<close>

definition S_ISDIR :: "u16 \<Rightarrow> bool" where "S_ISDIR mode \<longleftrightarrow> mode AND 0xF000 = 0x4000"
definition S_ISREG :: "u16 \<Rightarrow> bool" where "S_ISREG mode \<longleftrightarrow> mode AND 0xF000 = 0x8000"

text \<open>Clearing both pools, and the root of the new index.\<close>

definition clear_pools :: "xal \<Rightarrow> xal" where
  "clear_pools xal = xal\<lparr>h_inodes := xal_pool_clear zero_inode (h_inodes xal),
     h_extents := xal_pool_clear zero_extent (h_extents xal)\<rparr>"

definition init_root :: "xal \<Rightarrow> nat \<Rightarrow> xal" where
  "init_root xal root = put_inode xal root
     ((inode_of xal root)\<lparr>i_ino := sb_rootino (h_sb xal), i_ftype := XAL_ODF_DIR3_FT_DIR, i_namelen := 0,
        i_name := [], i_parent := XAL_POOL_IDX_NONE, i_count := 0\<rparr>)"

definition claim_root :: "pool_os \<Rightarrow> xal \<Rightarrow> unit res \<times> xal" where
  "claim_root os xal =
     (case xal_pool_claim_inodes os (h_inodes xal) 1 of
        (Inl f, pool) \<Rightarrow> (Inl f, xal\<lparr>h_inodes := pool\<rparr>)
      | (Inr idx, pool) \<Rightarrow>
          (let xal = xal\<lparr>h_inodes := pool, h_root_idx := idx\<rparr>
           in case xal_inode_at xal idx of
                None \<Rightarrow> (Inl Undef, xal)
              | Some root \<Rightarrow> (Ok (), init_root xal root)))"

section \<open>Processing one inode\<close>

definition pool_ok :: "xal \<Rightarrow> bool" where
  "pool_ok xal \<longleftrightarrow> pool_inv (h_inodes xal) \<and> n_inodes xal < 2 ^ 32"

text \<open>A directory is in order, and its entries lie behind \<open>lo\<close>.\<close>

definition sub_ok :: "nat \<Rightarrow> xal \<Rightarrow> nat \<Rightarrow> bool" where
  "sub_ok lo xal d \<longleftrightarrow>
     (xal_inode_is_dir (inode_of xal d) \<longrightarrow> dir_ok xal d \<and> (\<forall>c \<in> set (children xal d). lo \<le> c))"

text \<open>The name and the parent of an inode are fixed before it is processed, and its type once it has one.\<close>

definition same_label :: "xal_inode \<Rightarrow> xal_inode \<Rightarrow> bool" where
  "same_label i j \<longleftrightarrow> i_name j = i_name i \<and> i_namelen j = i_namelen i \<and> i_parent j = i_parent i
     \<and> (i_ftype i \<noteq> XAL_ODF_DIR3_FT_UNKNOWN \<longrightarrow> i_ftype j = i_ftype i)"

text \<open>
  Processing \<open>self\<close> leaves every other inode claimed before as it was, and puts \<open>self\<close> and everything
  claimed meanwhile in order.
\<close>

definition ino_post :: "xal \<Rightarrow> nat \<Rightarrow> xal \<Rightarrow> bool" where
  "ino_post xal self xal' \<longleftrightarrow>
     pool_ok xal' \<and> n_inodes xal \<le> n_inodes xal' \<and> h_root_idx xal' = h_root_idx xal
     \<and> (\<forall>j < n_inodes xal. j \<noteq> self \<longrightarrow> inode_of xal' j = inode_of xal j)
     \<and> same_label (inode_of xal self) (inode_of xal' self)
     \<and> (\<forall>d. d = self \<or> (n_inodes xal \<le> d \<and> d < n_inodes xal') \<longrightarrow> sub_ok (n_inodes xal) xal' d)"

lemma ino_postD:
  assumes "ino_post xal self xal'"
  shows "pool_ok xal'" "n_inodes xal \<le> n_inodes xal'" "h_root_idx xal' = h_root_idx xal"
    "\<And>j. j < n_inodes xal \<Longrightarrow> j \<noteq> self \<Longrightarrow> inode_of xal' j = inode_of xal j"
    "same_label (inode_of xal self) (inode_of xal' self)"
    "\<And>d. d = self \<or> (n_inodes xal \<le> d \<and> d < n_inodes xal') \<Longrightarrow> sub_ok (n_inodes xal) xal' d"
  using assms by (auto simp: ino_post_def)

lemma same_label_refl [simp]: "same_label i i"
  by (simp add: same_label_def)

lemma same_label_cname: "same_label i j \<Longrightarrow> i_cname j = i_cname i"
  by (simp add: same_label_def i_cname_def)

lemma sub_ok_weaken: "sub_ok lo xal d \<Longrightarrow> lo' \<le> lo \<Longrightarrow> sub_ok lo' xal d"
  by (auto simp: sub_ok_def)

text \<open>
  A directory stays in order when neither it nor an entry of it changes and the pool only grows.
\<close>

lemma sub_ok_frame:
  assumes "sub_ok lo xal d" "inode_of xal' d = inode_of xal d" "n_inodes xal \<le> n_inodes xal'"
    and "\<And>c. xal_inode_is_dir (inode_of xal d) \<Longrightarrow> c \<in> set (children xal d) \<Longrightarrow>
      inode_of xal' c = inode_of xal c"
  shows "sub_ok lo xal' d"
proof (cases "xal_inode_is_dir (inode_of xal d)")
  case True
  have ch: "children xal' d = children xal d" using assms(2) by (simp add: children_def)
  have eq: "inode_of xal' c = inode_of xal c" if "c \<in> set (children xal d)" for c
    using assms(4) True that by blast
  then have names: "names_of xal' (children xal d) = names_of xal (children xal d)" by simp
  have ok: "dir_ok xal d" "\<forall>c \<in> set (children xal d). lo \<le> c"
    using assms(1) True by (simp_all add: sub_ok_def)
  have "dir_ok xal' d" unfolding dir_ok_def ch names
    using ok(1) assms(3) by (auto simp: dir_ok_def eq)
  then show ?thesis using ok(2) ch by (simp add: sub_ok_def)
qed (use assms(2) in \<open>simp add: sub_ok_def\<close>)

section \<open>Processing the entries of a directory\<close>

text \<open>
  The entries of \<open>self\<close> are the elements from \<open>lo\<close> on, claimed up to \<open>b\<close>. Those with the names \<open>ns\<close> are
  done; \<open>xal1\<close> is the handle before the first of them was processed.
\<close>

definition visiting :: "xal \<Rightarrow> nat \<Rightarrow> nat \<Rightarrow> nat \<Rightarrow> cstring list \<Rightarrow> xal \<Rightarrow> bool" where
  "visiting xal1 self lo b ns xal \<longleftrightarrow>
     pool_ok xal \<and> self < lo \<and> lo + length ns \<le> b \<and> b \<le> n_inodes xal \<and> h_root_idx xal = h_root_idx xal1
     \<and> (\<forall>j < b. j \<noteq> self \<longrightarrow> \<not> (lo \<le> j \<and> j < lo + length ns) \<longrightarrow> inode_of xal j = inode_of xal1 j)
     \<and> names_of xal [lo..<lo + length ns] = ns
     \<and> (\<forall>j. lo \<le> j \<and> j < lo + length ns \<longrightarrow> unat (i_parent (inode_of xal j)) = self
          \<and> (xal_inode_is_dir (inode_of xal j) \<or> xal_inode_is_file (inode_of xal j)))
     \<and> (\<forall>d. (lo \<le> d \<and> d < lo + length ns) \<or> (b \<le> d \<and> d < n_inodes xal) \<longrightarrow> sub_ok b xal d)"

lemma visitingD:
  assumes "visiting xal1 self lo b ns xal"
  shows "pool_ok xal" "self < lo" "lo + length ns \<le> b" "b \<le> n_inodes xal" "h_root_idx xal = h_root_idx xal1"
    "\<And>j. j < b \<Longrightarrow> j \<noteq> self \<Longrightarrow> \<not> (lo \<le> j \<and> j < lo + length ns) \<Longrightarrow> inode_of xal j = inode_of xal1 j"
    "names_of xal [lo..<lo + length ns] = ns"
    "\<And>j. lo \<le> j \<Longrightarrow> j < lo + length ns \<Longrightarrow> unat (i_parent (inode_of xal j)) = self
      \<and> (xal_inode_is_dir (inode_of xal j) \<or> xal_inode_is_file (inode_of xal j))"
    "\<And>d. (lo \<le> d \<and> d < lo + length ns) \<or> (b \<le> d \<and> d < n_inodes xal) \<Longrightarrow> sub_ok b xal d"
  using assms by (auto simp: visiting_def)

lemma visiting_start:
  assumes "pool_ok xal" "self < lo" "lo \<le> n_inodes xal"
  shows "visiting xal self lo (n_inodes xal) [] xal"
  using assms by (auto simp: visiting_def)

text \<open>The next entry is prepared in its slot and processed.\<close>

lemma visiting_step:
  fixes xal child i
  defines "xalc \<equiv> put_inode xal child i"
  assumes v: "visiting xal1 self lo b ns xal" and child: "child = lo + length ns" "child < b"
    and parent: "unat (i_parent i) = self"
    and post: "ino_post xalc child xal'"
    and kind: "xal_inode_is_dir (inode_of xal' child) \<or> xal_inode_is_file (inode_of xal' child)"
  shows "visiting xal1 self lo b (ns @ [i_cname i]) xal'" "inode_of xal' self = inode_of xal self"
proof -
  note V = visitingD [OF v]
  note P = ino_postD [OF post]
  have n: "n_inodes xalc = n_inodes xal" by (simp add: xalc_def)
  have keep: "inode_of xal' j = inode_of xal j" if "j < n_inodes xal" "j \<noteq> child" for j
    using P(4) [of j] that by (simp add: n) (simp add: xalc_def)
  have cb: "child < n_inodes xal" using child(2) V(4) by simp
  show self: "inode_of xal' self = inode_of xal self"
    by (rule keep) (use V(2) cb child(1) in simp_all)
  have label: "same_label i (inode_of xal' child)" using P(5) by (simp add: xalc_def)
  have names: "names_of xal' [lo..<lo + length ns] = names_of xal [lo..<lo + length ns]"
    using keep cb child(1) by auto
  have old: "sub_ok b xal' d" if "(lo \<le> d \<and> d < lo + length ns) \<or> (b \<le> d \<and> d < n_inodes xal)" for d
  proof (rule sub_ok_frame [OF V(9) [OF that]])
    show "inode_of xal' d = inode_of xal d" using keep [of d] that cb child by auto
    show "n_inodes xal \<le> n_inodes xal'" using P(2) n by simp
    fix c assume c: "xal_inode_is_dir (inode_of xal d)" "c \<in> set (children xal d)"
    then have "b \<le> c" "dir_ok xal d" using V(9) [OF that] by (auto simp: sub_ok_def)
    then show "inode_of xal' c = inode_of xal c"
      using keep [of c] dir_okD(2) [OF _ c(2)] child(2) by simp
  qed
  have new: "sub_ok b xal' d" if "d = child \<or> (n_inodes xal \<le> d \<and> d < n_inodes xal')" for d
    using P(6) [of d] that n sub_ok_weaken [OF _ V(4)] by simp
  have ns: "names_of xal' [lo..<lo + length (ns @ [i_cname i])] = ns @ [i_cname i]"
    using names V(7) same_label_cname [OF label] child(1) by simp
  have kinds: "unat (i_parent (inode_of xal' j)) = self
      \<and> (xal_inode_is_dir (inode_of xal' j) \<or> xal_inode_is_file (inode_of xal' j))"
    if "lo \<le> j \<and> j < lo + length (ns @ [i_cname i])" for j
  proof (cases "j = child")
    case True
    then show ?thesis using kind label parent by (simp add: same_label_def)
  next
    case False
    then have j: "j < lo + length ns" using that child(1) by simp
    then show ?thesis using V(8) [of j] keep [of j] that False cb child(1) by simp
  qed
  have subs: "sub_ok b xal' d"
    if "(lo \<le> d \<and> d < lo + length (ns @ [i_cname i])) \<or> (b \<le> d \<and> d < n_inodes xal')" for d
  proof (cases "d = child \<or> (n_inodes xal \<le> d \<and> d < n_inodes xal')")
    case False
    then show ?thesis using old [of d] that child(1) by auto
  qed (use new in blast)
  have rest: "inode_of xal' j = inode_of xal1 j"
    if "j < b" "j \<noteq> self" "\<not> (lo \<le> j \<and> j < lo + length (ns @ [i_cname i]))" for j
    using V(6) [of j] keep [of j] that V(4) child(1) by auto
  have "b \<le> n_inodes xal'" using V(4) P(2) n by linarith
  then show "visiting xal1 self lo b (ns @ [i_cname i]) xal'"
    using P(1,3) V(2,5) child rest ns kinds subs unfolding visiting_def
    by (simp add: xalc_def)
qed

text \<open>When all entries are done the directory itself is in order.\<close>

lemma visiting_finish:
  assumes v: "visiting xal1 self lo b ns xal" and n: "n_inodes xal0 = lo"
    and idx: "unat (i_idx (inode_of xal self)) = lo" "unat (i_count (inode_of xal self)) = length ns"
    and sorted: "sorted ns"
    and rest: "\<And>j. lo + length ns \<le> j \<Longrightarrow> j < b \<Longrightarrow> \<not> xal_inode_is_dir (inode_of xal j)"
    and frame: "\<And>j. j < lo \<Longrightarrow> j \<noteq> self \<Longrightarrow> inode_of xal1 j = inode_of xal0 j"
    and root: "h_root_idx xal1 = h_root_idx xal0"
    and label: "same_label (inode_of xal0 self) (inode_of xal self)"
  shows "ino_post xal0 self xal"
proof -
  note V = visitingD [OF v]
  have ch: "children xal self = [lo..<lo + length ns]" by (simp add: children_def idx)
  have self: "sub_ok lo xal self"
    using V(2,3,4,7,8) sorted by (auto simp: sub_ok_def dir_ok_def ch)
  have subs: "sub_ok lo xal d" if "lo \<le> d" "d < n_inodes xal" for d
  proof -
    consider "d < lo + length ns" | "lo + length ns \<le> d" "d < b" | "b \<le> d" using not_less by blast
    then show ?thesis
    proof cases
      case 2
      then show ?thesis using rest [of d] by (simp add: sub_ok_def)
    qed (use V(3) V(9) [of d] that in \<open>auto intro: sub_ok_weaken\<close>)
  qed
  have "inode_of xal j = inode_of xal0 j" if "j < lo" "j \<noteq> self" for j
    using V(6) [of j] frame [of j] that V(3) by simp
  then show ?thesis unfolding ino_post_def n
    using V(1,3,4,5) root label self subs by auto
qed

section \<open>Steps that claim no inode\<close>

text \<open>A step that writes to no inode but \<open>self\<close> and claims none.\<close>

definition only_self :: "xal \<Rightarrow> nat \<Rightarrow> xal \<Rightarrow> bool" where
  "only_self xal self xal' \<longleftrightarrow> pool_ok xal' \<and> n_inodes xal' = n_inodes xal \<and> h_root_idx xal' = h_root_idx xal
     \<and> (\<forall>j. j \<noteq> self \<longrightarrow> inode_of xal' j = inode_of xal j) \<and> same_label (inode_of xal self) (inode_of xal' self)"

lemma only_self_refl: "pool_ok xal \<Longrightarrow> only_self xal self xal"
  by (simp add: only_self_def)

lemma same_label_trans: "same_label i j \<Longrightarrow> same_label j k \<Longrightarrow> same_label i k"
  by (auto simp: same_label_def)

lemma only_self_trans: "only_self xal self xal1 \<Longrightarrow> only_self xal1 self xal2 \<Longrightarrow> only_self xal self xal2"
  by (auto simp: only_self_def intro: same_label_trans)

lemma only_self_put:
  "pool_ok xal \<Longrightarrow> same_label (inode_of xal self) i \<Longrightarrow> only_self xal self (put_inode xal self i)"
  by (simp add: only_self_def pool_ok_def)

lemma only_self_frame:
  "pool_ok xal \<Longrightarrow> h_inodes xal' = h_inodes xal \<Longrightarrow> h_root_idx xal' = h_root_idx xal \<Longrightarrow> only_self xal self xal'"
  by (simp add: only_self_def pool_ok_def)

lemma only_self_post:
  "only_self xal self xal' \<Longrightarrow> \<not> xal_inode_is_dir (inode_of xal' self) \<Longrightarrow> ino_post xal self xal'"
  by (auto simp: only_self_def ino_post_def sub_ok_def)

lemma ino_post_after:
  "only_self xal self xal1 \<Longrightarrow> ino_post xal1 self xal' \<Longrightarrow> ino_post xal self xal'"
  unfolding only_self_def ino_post_def by (auto intro: same_label_trans)

lemma pool_ok_idx: "pool_ok xal \<Longrightarrow> self < n_inodes xal \<Longrightarrow> unat (xal_inode_idx xal' self) = self"
  by (rule unat_xal_inode_idx) (simp add: pool_ok_def)

lemma unat_free_u32: "pool_ok xal \<Longrightarrow> unat (ucast (free (h_inodes xal)) :: u32) = n_inodes xal"
  by (simp add: pool_ok_def unat_ucast_u32)

section \<open>What a rebuild leaves alone\<close>

text \<open>
  Everything of a handle but the pools, the root and the backend, and the size of the inode pool.
\<close>

definition core :: "xal \<Rightarrow> u64 \<times> xal_sb \<times> xal_state \<times> u32 \<times> bool \<times> cstring option \<times> xal_procrole \<times> bool \<times> errno option" where
  "core xal = (reserved (h_inodes xal), h_sb xal, h_index_state xal, h_seq_lock xal, h_state xal, h_state_shm_name xal,
     h_procrole xal, h_indexing xal, h_last_err xal)"

lemma rebuilt_core:
  assumes "core xal' = core xal"
  shows "rebuilt xal xal'"
proof -
  have "xal' = xal\<lparr>h_inodes := h_inodes xal', h_extents := h_extents xal', h_root_idx := h_root_idx xal',
      h_be := h_be xal'\<rparr>"
    using assms by (simp add: core_def)
  then show ?thesis unfolding rebuilt_def by blast
qed

lemma core_update [simp]:
  "core (xal\<lparr>h_extents := e\<rparr>) = core xal"
  "core (xal\<lparr>h_root_idx := r\<rparr>) = core xal" "core (xal\<lparr>h_be := b\<rparr>) = core xal"
  "core (put_inode xal k v) = core xal" "core (put_extent xal k x) = core xal"
  by (simp_all add: core_def put_inode_def put_extent_def)

text \<open>A property of the state that the parts of a sequence keep is kept by the sequence.\<close>

lemma snd_bind_st:
  assumes "\<And>v s. g (snd (f v s)) = g s"
  shows "g (snd (bind_st r f)) = g (snd r)"
  using assms by (cases r; cases "fst r") auto

lemma snd_for_st:
  assumes "\<And>i s. g (snd (f i s)) = g s"
  shows "g (snd (for_st is f s)) = g s"
  by (induction "is" arbitrary: s) (simp_all add: snd_bind_st [of g] assms)

lemma core_claim [simp]:
  "xal_pool_claim_inodes os (h_inodes xal) n = (r, q) \<Longrightarrow> core (xal\<lparr>h_inodes := q\<rparr>) = core xal"
  by (drule ino_pool.claim_frame) (simp add: core_def)

section \<open>The bracket around a rebuild\<close>

lemma claim_root_empty:
  assumes "claim_root os xal = (Ok (), xal')" "pool_inv (h_inodes xal)" "free (h_inodes xal) = 0"
  shows "pool_ok xal'" "h_root_idx xal' = 0" "n_inodes xal' = 1"
    "inode_of xal' = (inode_of xal)(0 := (inode_of xal 0)\<lparr>i_ino := sb_rootino (h_sb xal), i_ftype := XAL_ODF_DIR3_FT_DIR,
       i_namelen := 0, i_name := [], i_parent := XAL_POOL_IDX_NONE, i_count := 0\<rparr>)"
proof -
  let ?p = "h_inodes xal"
  obtain idx q where claim: "xal_pool_claim_inodes os ?p 1 = (Inr idx, q)"
    and xal': "xal' = init_root (xal\<lparr>h_inodes := q, h_root_idx := idx\<rparr>) (unat idx)"
    using assms(1) by (auto simp: claim_root_def Let_def split: prod.splits sum.splits option.splits)
  have "unat (free ?p) + unat (1 :: u64) < 2 ^ 64" by (simp add: assms(3))
  note ok = ino_pool.claim_ok [OF assms(2) this claim]
  have idx: "idx = 0" using ok assms(3) by (simp add: unat_eq_0)
  show "pool_ok xal'" using ok ino_pool.claim_bound [OF claim] assms(3)
    by (simp add: xal' init_root_def pool_ok_def)
  show "h_root_idx xal' = 0" "n_inodes xal' = 1" using ok assms(3) by (simp_all add: xal' init_root_def idx)
  show "inode_of xal' = (inode_of xal)(0 := (inode_of xal 0)\<lparr>i_ino := sb_rootino (h_sb xal), i_ftype := XAL_ODF_DIR3_FT_DIR,
       i_namelen := 0, i_name := [], i_parent := XAL_POOL_IDX_NONE, i_count := 0\<rparr>)"
    using ino_pool.claim_frame [OF claim] by (simp add: xal' init_root_def idx)
qed

lemma claim_root_ok:
  assumes "claim_root os (clear_pools xal) = (Ok (), xal')" "pool_inv (h_inodes xal)"
  shows "pool_ok xal'" "h_root_idx xal' = 0" "n_inodes xal' = 1"
    "inode_of xal' 0 = \<lparr>i_ino = sb_rootino (h_sb xal), i_size = i_size (inode_of xal' 0), i_idx = i_idx (inode_of xal' 0),
       i_count = 0, i_ftype = XAL_ODF_DIR3_FT_DIR, i_namelen = 0, i_name = [], i_parent = XAL_POOL_IDX_NONE\<rparr>"
proof -
  have clear: "pool_inv (h_inodes (clear_pools xal))" "free (h_inodes (clear_pools xal)) = 0"
    using assms(2) by (simp_all add: clear_pools_def xal_pool_clear_def pool_inv_def)
  note R = claim_root_empty [OF assms(1) clear]
  show "pool_ok xal'" "h_root_idx xal' = 0" "n_inodes xal' = 1" by (rule R)+
  show "inode_of xal' 0 = \<lparr>i_ino = sb_rootino (h_sb xal), i_size = i_size (inode_of xal' 0), i_idx = i_idx (inode_of xal' 0),
       i_count = 0, i_ftype = XAL_ODF_DIR3_FT_DIR, i_namelen = 0, i_name = [], i_parent = XAL_POOL_IDX_NONE\<rparr>"
    by (simp add: R(4) clear_pools_def)
qed

text \<open>Processing the root completes the tree.\<close>

lemma root_processed:
  assumes "pool_ok xal" "h_root_idx xal = 0" "n_inodes xal = 1"
    and "i_ftype (inode_of xal 0) = XAL_ODF_DIR3_FT_DIR" "i_parent (inode_of xal 0) = XAL_POOL_IDX_NONE"
    and "ino_post xal 0 xal'"
  shows "index_wf xal'"
proof -
  note P = ino_postD [OF assms(6)]
  have "dir_ok xal' d" if "d < n_inodes xal'" "xal_inode_is_dir (inode_of xal' d)" for d
    using P(6) [of d] that assms(3) by (cases "d = 0") (auto simp: sub_ok_def)
  then have "tree_ok xal'" using P(1) by (simp add: tree_ok_def pool_ok_def)
  moreover have "root_ok xal'"
    using P(2,3,5) assms(2-5) by (auto simp: root_ok_def same_label_def xal_inode_is_dir_def)
  ultimately show ?thesis by (simp add: index_wf_def)
qed

lemma index_exit_frame:
  "h_inodes (index_exit xal e) = h_inodes xal" "h_root_idx (index_exit xal e) = h_root_idx xal"
  "h_extents (index_exit xal e) = h_extents xal"
  by (simp_all add: index_exit_def xal_mark_index_done_def seq_advance_def)

lemma finish_index_Ok: "finish_index r = (Ok (), xal') \<Longrightarrow> \<exists>xal. r = (Ok (), xal) \<and> xal' = index_exit xal None"
  by (auto simp: finish_index_def split: prod.splits sum.splits fault.splits)

lemma finish_index_fst: "finish_index (r, xal) = (r', xal') \<Longrightarrow> r' = r"
  by (auto simp: finish_index_def split: sum.splits fault.splits)

lemma index_enter_frame [simp]:
  "h_inodes (index_enter xal) = h_inodes xal" "h_extents (index_enter xal) = h_extents xal"
  "h_be (index_enter xal) = h_be xal" "h_sb (index_enter xal) = h_sb xal"
  by (simp_all add: index_enter_def seq_advance_def)

lemma core_claim_root [simp]: "core (snd (claim_root os xal)) = core xal"
proof -
  have "core (xal\<lparr>h_inodes := q, h_root_idx := i\<rparr>) = core xal"
    if "xal_pool_claim_inodes os (h_inodes xal) 1 = (r, q)" for i q r
    using ino_pool.claim_frame [OF that] by (simp add: core_def)
  then show ?thesis unfolding claim_root_def init_root_def Let_def
    by (auto split: prod.split sum.split option.split)
qed

lemma core_clear_pools [simp]: "core (clear_pools xal) = core xal"
  by (simp add: clear_pools_def core_def xal_pool_clear_def)

end
