(* ===== verification/Xal_Xfs_Index.thy ===== *)
theory Xal_Xfs_Index
  imports Xal_Xfs_Disk Xal_Build
begin

text \<open>
  The XFS backend, part two (\<open>src/src/xal_be_xfs.c\<close>): building the index from the on-disk inodes.
  Directories are decoded in their three forms (inline, extents, B+tree), their entries claimed from the
  inode pool, sorted and visited in turn; the extents of files are decoded from the inode or from a
  B+tree. \<open>Xal_Xfs_Correct\<close> shows that a rebuild that succeeds leaves a well-formed index.
\<close>

section \<open>Directory entries\<close>

definition dinodes_of :: "xal \<Rightarrow> mem" where
  "dinodes_of xal = (case xfs_dinodes (be_of xal) of None \<Rightarrow> (\<lambda>_. 0) | Some m \<Rightarrow> m)"

text \<open>\<open>_should_skip()\<close>: whether to skip the entry, and the entry with its type filled in.\<close>

definition should_skip :: "xal \<Rightarrow> xal_inode \<Rightarrow> (bool \<times> xal_inode) res" where
  "should_skip xal dentry =
     bind_res
       (if i_ftype dentry = XAL_ODF_DIR3_FT_UNKNOWN then
          bind_res (dinodes_get xal (i_ino dentry))
            (\<lambda>dinode. let mode = di_mode (dinodes_of xal) dinode
                      in Ok (if S_ISDIR mode then dentry\<lparr>i_ftype := XAL_ODF_DIR3_FT_DIR\<rparr>
                             else if S_ISREG mode then dentry\<lparr>i_ftype := XAL_ODF_DIR3_FT_REG_FILE\<rparr>
                             else dentry))
        else Ok dentry)
       (\<lambda>dentry. if XAL_ODF_DIR3_FT_MAX \<le> i_ftype dentry then Fail EINVAL
                 else Ok (i_ftype dentry \<noteq> XAL_ODF_DIR3_FT_DIR \<and> i_ftype dentry \<noteq> XAL_ODF_DIR3_FT_REG_FILE,
                          dentry))"

text \<open>The entry at an offset of a directory block, and its length with padding.\<close>

definition decode_dentry :: "mem \<Rightarrow> nat \<Rightarrow> nat \<times> xal_inode" where
  "decode_dentry m o' =
     (if be16 m o' = 0xFFFF then (unat (be16 m (o' + 2)), zero_inode)
      else
        (let namelen = m (o' + 8)
         in ((12 + unat namelen + 7) div 8 * 8,
             zero_inode\<lparr>i_ino := be64 m o', i_namelen := namelen,
                        i_name := mem_bytes m (o' + 9) (unat namelen),
                        i_ftype := m (o' + 9 + unat namelen)\<rparr>)))"

definition claim_inode :: "xfs_env \<Rightarrow> xal \<Rightarrow> u32 res \<times> xal" where
  "claim_inode env xal =
     (let (r, pool) = xal_pool_claim_inodes (env_os env) (h_inodes xal) 1
      in (r, xal\<lparr>h_inodes := pool\<rparr>))"

text \<open>An entry is stored in its slot and counted by its directory.\<close>

definition add_dentry :: "xal \<Rightarrow> nat \<Rightarrow> u32 \<Rightarrow> xal_inode \<Rightarrow> xal" where
  "add_dentry xal self slot dentry =
     (let xal = put_inode xal (unat slot) dentry
      in put_inode xal self ((inode_of xal self)\<lparr>i_count := i_count (inode_of xal self) + 1\<rparr>))"

definition is_dot :: "xal_inode \<Rightarrow> bool" where
  "is_dot dentry \<longleftrightarrow> (i_namelen dentry = 1 \<and> hd (i_name dentry) = dot)
     \<or> (i_namelen dentry = 2 \<and> hd (i_name dentry) = dot \<and> i_name dentry ! 1 = dot)"

text \<open>
  The entries of a directory block from an offset on. The scan ends at the first entry without an
  inode number or a name.
\<close>

function scan_dblock :: "xfs_env \<Rightarrow> mem \<Rightarrow> nat \<Rightarrow> nat \<Rightarrow> nat \<Rightarrow> xal \<Rightarrow> unit res \<times> xal" where
  "scan_dblock env dblock dirblocksize self ofz xal =
     (if ofz < dirblocksize then
        (let (nbytes, dentry) = decode_dentry dblock ofz; ofz = ofz + nbytes
         in if i_ino dentry = 0 \<or> i_namelen dentry = 0 then (Ok (), xal)
            else if is_dot dentry then scan_dblock env dblock dirblocksize self ofz xal
            else
              (case should_skip xal dentry of
                 Inl f \<Rightarrow> (Inl f, xal)
               | Inr (skip, dentry) \<Rightarrow>
                   if skip then scan_dblock env dblock dirblocksize self ofz xal
                   else
                     (case claim_inode env xal of
                        (Inl f, xal) \<Rightarrow> (Inl f, xal)
                      | (Inr slot, xal) \<Rightarrow>
                          scan_dblock env dblock dirblocksize self ofz
                            (add_dentry xal self slot (dentry\<lparr>i_parent := xal_inode_idx xal self\<rparr>)))))
      else (Ok (), xal))"
  by pat_completeness auto
termination
  by (relation "measure (\<lambda>(env, dblock, n, self, ofz, xal). n - ofz)")
     (auto simp: decode_dentry_def zero_inode_def Let_def split: if_splits)

declare scan_dblock.simps [simp del]

definition dir_magic_ok :: "mem \<Rightarrow> bool" where
  "dir_magic_ok dblock \<longleftrightarrow>
     bt_magic dblock = XAL_ODF_DIR3_DATA_MAGIC \<or> bt_magic dblock = XAL_ODF_DIR3_BLOCK_MAGIC"

definition read_dblock :: "xfs_env \<Rightarrow> xal \<Rightarrow> u64 \<Rightarrow> mem res \<times> xal" where
  "read_dblock env xal fsbno =
     dev_read_into env xal (ucast (sb_dirblocksize (h_sb xal))) (xal_fsbno_offset xal fsbno)"

definition process_dinode_dir_extents_dblock ::
  "xfs_env \<Rightarrow> nat \<Rightarrow> u64 \<Rightarrow> xal \<Rightarrow> unit res \<times> xal" where
  "process_dinode_dir_extents_dblock env self fsbno xal =
     bind_st (read_dblock env xal fsbno)
       (\<lambda>dblock xal. if \<not> dir_magic_ok dblock then (Ok (), xal)
                     else scan_dblock env dblock (unat (sb_dirblocksize (h_sb xal))) self 64 xal)"

section \<open>Sorting and visiting the entries\<close>

definition sort_dentries :: "nat \<Rightarrow> xal \<Rightarrow> xal" where
  "sort_dentries self xal =
     (let idx = unat (i_idx (inode_of xal self));
          cnt = unat (i_count (inode_of xal self));
          sorted = qsort compare_inode (map (inode_of xal) [idx..<idx + cnt])
      in xal\<lparr>h_inodes := (h_inodes xal)\<lparr>memory :=
           (\<lambda>i. if idx \<le> i \<and> i < idx + cnt then sorted ! (i - idx) else inode_of xal i)\<rparr>\<rparr>)"

text \<open>
  \<open>visit_child\<close> is the body of the loop over the entries of a directory, \<open>pi\<close> the recursive call of
  \<open>process_ino()\<close>. Only the inline form still has to set the parent here.
\<close>

type_synonym process_ino_fn = "u64 \<Rightarrow> nat \<Rightarrow> xal \<Rightarrow> unit res \<times> xal"

definition visit_child :: "process_ino_fn \<Rightarrow> bool \<Rightarrow> nat \<Rightarrow> nat \<Rightarrow> xal \<Rightarrow> unit res \<times> xal" where
  "visit_child pi set_parent self i xal =
     (case xal_inode_at xal (i_idx (inode_of xal self) + of_nat i) of
        None \<Rightarrow> (Inl Undef, xal)
      | Some child \<Rightarrow>
          (let xal = (if set_parent
                      then put_inode xal child ((inode_of xal child)\<lparr>i_parent := xal_inode_idx xal self\<rparr>)
                      else xal)
           in pi (i_ino (inode_of xal child)) child xal))"

definition visit_children :: "process_ino_fn \<Rightarrow> bool \<Rightarrow> nat \<Rightarrow> xal \<Rightarrow> unit res \<times> xal" where
  "visit_children pi set_parent self xal =
     for_st [0..<unat (i_count (inode_of xal self))] (visit_child pi set_parent self) xal"

definition begin_dentries :: "nat \<Rightarrow> xal \<Rightarrow> xal" where
  "begin_dentries self xal =
     put_inode xal self ((inode_of xal self)\<lparr>i_idx := ucast (free (h_inodes xal))\<rparr>)"

section \<open>Directories with inline entries\<close>

text \<open>Entry by entry from a cursor: namelen, offset, name, ftype, inode number of 4 or 8 bytes.\<close>

fun local_entries :: "nat \<Rightarrow> xfs_env \<Rightarrow> mem \<Rightarrow> bool \<Rightarrow> nat \<Rightarrow> nat \<Rightarrow> xal \<Rightarrow> unit res \<times> xal" where
  "local_entries 0 env m i8 self cursor xal = (Ok (), xal)"
| "local_entries (Suc n) env m i8 self cursor xal =
     (let namelen = unat (m cursor);
          o' = cursor + 3 + namelen + 1;
          dentry = zero_inode\<lparr>i_namelen := m cursor, i_name := mem_bytes m (cursor + 3) namelen,
                              i_ftype := m (cursor + 3 + namelen),
                              i_ino := (if i8 then be64 m o' else ucast (be32 m o'))\<rparr>;
          cursor = o' + (if i8 then 8 else 4)
      in case should_skip xal dentry of
           Inl f \<Rightarrow> (Inl f, xal)
         | Inr (skip, dentry) \<Rightarrow>
             if skip then local_entries n env m i8 self cursor xal
             else
               (case claim_inode env xal of
                  (Inl f, xal) \<Rightarrow> (Inl f, xal)
                | (Inr slot, xal) \<Rightarrow> local_entries n env m i8 self cursor (add_dentry xal self slot dentry)))"

definition process_dinode_dir_local ::
  "process_ino_fn \<Rightarrow> xfs_env \<Rightarrow> nat \<Rightarrow> nat \<Rightarrow> xal \<Rightarrow> unit res \<times> xal" where
  "process_dinode_dir_local pi env dinode self xal =
     (let m = dinodes_of xal;
          cnt = m (dinode + DINODE_NBYTES);
          i8count = m (dinode + DINODE_NBYTES + 1);
          cursor = dinode + DINODE_NBYTES + 2 + (if i8count \<noteq> 0 then 8 else 4)
      in bind_st (local_entries (unat cnt) env m (i8count \<noteq> 0) self cursor (begin_dentries self xal))
           (\<lambda>_ xal. visit_children pi True self (sort_dentries self xal)))"

section \<open>Directories with extents\<close>

text \<open>
  The directory blocks of one extent. The counter advances by the file system blocks of a directory
  block, which is at least one unless the sizes in the superblock make no sense; fuel for as many turns
  as the extent has blocks is enough.
\<close>

fun extent_dblocks ::
  "nat \<Rightarrow> (u64 \<Rightarrow> xal \<Rightarrow> unit res \<times> xal) \<Rightarrow> nat \<Rightarrow> nat \<Rightarrow> xal_extent \<Rightarrow> xal \<Rightarrow> unit res \<times> xal" where
  "extent_dblocks fuel dblock per fsblk extent xal =
     (if fsblk < unat (x_nblocks extent) then
        (case fuel of
           0 \<Rightarrow> (Inl Out_of_fuel, xal)
         | Suc fuel \<Rightarrow>
             bind_st (dblock (x_start_block extent + of_nat fsblk) xal)
               (\<lambda>_ xal. extent_dblocks fuel dblock per (fsblk + per) extent xal))
      else (Ok (), xal))"

declare extent_dblocks.simps [simp del]

text \<open>
  The extents embedded in the inode, while bytes of the directory are left. \<open>n\<close> counts the extents
  left; the last component of the result says whether \<open>err\<close> was ever assigned.
\<close>

fun dir_extents ::
  "nat \<Rightarrow> xfs_env \<Rightarrow> mem \<Rightarrow> nat \<Rightarrow> nat \<Rightarrow> nat \<Rightarrow> nat \<Rightarrow> u64 \<Rightarrow> bool \<Rightarrow> xal \<Rightarrow> bool res \<times> xal" where
  "dir_extents 0 env m dinode self per i nbytes err_set xal = (Ok err_set, xal)"
| "dir_extents (Suc n) env m dinode self per i nbytes err_set xal =
     (if sint nbytes \<le> 0 then (Ok err_set, xal)
      else
        (let o' = dinode + DINODE_NBYTES + i * 16;
             extent = decode_xfs_extent (be64 m o') (be64 m (o' + 8))
         in bind_st (extent_dblocks (unat (x_nblocks extent)) (process_dinode_dir_extents_dblock env self) per 0 extent xal)
              (\<lambda>_ xal. dir_extents n env m dinode self per (Suc i)
                 (nbytes - x_nblocks extent * ucast (sb_blocksize (h_sb xal)))
                 (err_set \<or> x_nblocks extent \<noteq> 0) xal)))"

definition fsblk_per_dblk :: "xal_sb \<Rightarrow> nat" where
  "fsblk_per_dblk sb = unat (sb_dirblocksize sb) div unat (sb_blocksize sb)"

definition process_dinode_dir_extents ::
  "process_ino_fn \<Rightarrow> xfs_env \<Rightarrow> nat \<Rightarrow> nat \<Rightarrow> xal \<Rightarrow> unit res \<times> xal" where
  "process_dinode_dir_extents pi env dinode self xal =
     (let m = dinodes_of xal;
          nextents = (if di_nextents m dinode \<noteq> 0 then ucast (di_nextents m dinode) else di_big_nextents m dinode);
          nbytes = di_size m dinode
      in if sb_blocksize (h_sb xal) = 0 then (Inl Abort, xal)
         else
           bind_st (dir_extents (unat nextents) env m dinode self (fsblk_per_dblk (h_sb xal)) 0 nbytes False
                      (begin_dentries self xal))
             (\<lambda>err_set xal.
                bind_st (visit_children pi False self (sort_dentries self xal))
                  (\<lambda>_ xal'. if err_set \<or> i_count (inode_of xal self) \<noteq> 0 then (Ok (), xal')
                            else (Inl Undef, xal'))))"

section \<open>Directories with a B+tree of extents\<close>

text \<open>
  The extents of a leaf. A directory block with another magic ends the whole leaf with success, so the
  loops carry whether to go on.
\<close>

fun leaf_dblocks ::
  "nat \<Rightarrow> xfs_env \<Rightarrow> nat \<Rightarrow> nat \<Rightarrow> nat \<Rightarrow> xal_extent \<Rightarrow> xal \<Rightarrow> bool res \<times> xal" where
  "leaf_dblocks fuel env self per fsblk extent xal =
     (if fsblk < unat (x_nblocks extent) then
        (case fuel of
           0 \<Rightarrow> (Inl Out_of_fuel, xal)
         | Suc fuel \<Rightarrow>
             bind_st (read_dblock env xal (x_start_block extent + of_nat fsblk))
               (\<lambda>dblock xal.
                  if \<not> dir_magic_ok dblock then (Ok False, xal)
                  else
                    bind_st (scan_dblock env dblock (unat (sb_dirblocksize (h_sb xal))) self 64 xal)
                      (\<lambda>_ xal. leaf_dblocks fuel env self per (fsblk + per) extent xal)))
      else (Ok True, xal))"

declare leaf_dblocks.simps [simp del]

fun leaf_records :: "nat list \<Rightarrow> xfs_env \<Rightarrow> mem \<Rightarrow> nat \<Rightarrow> nat \<Rightarrow> xal \<Rightarrow> unit res \<times> xal" where
  "leaf_records [] env buf self per xal = (Ok (), xal)"
| "leaf_records (rec # recs) env buf self per xal =
     (let o' = LFMT_NBYTES + rec * 16;
          extent = decode_xfs_extent (be64 buf o') (be64 buf (o' + 8))
      in bind_st (leaf_dblocks (unat (x_nblocks extent)) env self per 0 extent xal)
           (\<lambda>more' xal. if more' then leaf_records recs env buf self per xal else (Ok (), xal)))"

definition btree_lblock_read :: "xfs_env \<Rightarrow> xal \<Rightarrow> u64 \<Rightarrow> mem res \<times> xal" where
  "btree_lblock_read env xal fsbno =
     dev_read_into env xal (ucast (sb_blocksize (h_sb xal))) (xal_fsbno_offset xal fsbno)"

definition btree_lblock_decode_leaf_records :: "xfs_env \<Rightarrow> mem \<Rightarrow> nat \<Rightarrow> xal \<Rightarrow> unit res \<times> xal" where
  "btree_lblock_decode_leaf_records env buf self xal =
     (if sb_blocksize (h_sb xal) = 0 then (Inl Abort, xal)
      else if bt_magic buf \<noteq> XAL_ODF_BMAP_CRC_MAGIC then (Fail EINVAL, xal)
      else if bt_level buf \<noteq> 0 then (Fail EINVAL, xal)
      else leaf_records [0..<unat (bt_numrecs buf)] env buf self (fsblk_per_dblk (h_sb xal)) xal)"

definition btree_lblock_decode_node_records :: "xal \<Rightarrow> unit res \<times> xal" where
  "btree_lblock_decode_node_records xal = (Fail ENOSYS, xal)"

definition btree_lblock_process :: "xfs_env \<Rightarrow> nat \<Rightarrow> u64 \<Rightarrow> xal \<Rightarrow> unit res \<times> xal" where
  "btree_lblock_process env self fsbno xal =
     bind_st (btree_lblock_read env xal fsbno)
       (\<lambda>lblock xal. if bt_level lblock = 0 then btree_lblock_decode_leaf_records env lblock self xal
                     else btree_lblock_decode_node_records xal)"

text \<open>The code reads the level and the number of records from the same two bytes.\<close>

definition process_dinode_dir_btree_root ::
  "process_ino_fn \<Rightarrow> xfs_env \<Rightarrow> nat \<Rightarrow> nat \<Rightarrow> xal \<Rightarrow> unit res \<times> xal" where
  "process_dinode_dir_btree_root pi env dinode self xal =
     (let m = dinodes_of xal;
          level = be16 m (dinode + DINODE_NBYTES);
          numrecs = be16 m (dinode + DINODE_NBYTES);
          ofz_ptr = unat (snd (snd (btree_dinode_meta (h_sb xal) m dinode)))
      in if level < 1 then (Fail EINVAL, xal)
         else if i_count (inode_of xal self) \<noteq> 0 then (Fail EINVAL, xal)
         else
           bind_st (for_st [0..<unat numrecs]
                      (\<lambda>rec. btree_lblock_process env self (be64 m (dinode + ofz_ptr + rec * 8)))
                      (begin_dentries self xal))
             (\<lambda>_ xal. visit_children pi False self (sort_dentries self xal)))"

section \<open>File extents\<close>

text \<open>
  Storing decoded records into claimed elements; a store outside the accessible elements is undefined.
\<close>

definition put_extents :: "u32 \<Rightarrow> nat \<Rightarrow> (nat \<Rightarrow> xal_extent) \<Rightarrow> xal \<Rightarrow> unit res \<times> xal" where
  "put_extents start n f xal =
     (if n \<noteq> 0 \<and> unat (allocated (h_extents xal)) < unat start + n then (Inl Undef, xal)
      else (Ok (), xal\<lparr>h_extents := (h_extents xal)\<lparr>memory :=
              (\<lambda>i. if unat start \<le> i \<and> i < unat start + n then f (i - unat start) else extent_of xal i)\<rparr>\<rparr>))"

definition claim_extents :: "xfs_env \<Rightarrow> u64 \<Rightarrow> xal \<Rightarrow> u32 res \<times> xal" where
  "claim_extents env n xal =
     (let (r, pool) = xal_pool_claim_extents (env_os env) (h_extents xal) n
      in (r, xal\<lparr>h_extents := pool\<rparr>))"

definition process_file_btree_leaf :: "xfs_env \<Rightarrow> nat \<Rightarrow> u64 \<Rightarrow> xal \<Rightarrow> unit res \<times> xal" where
  "process_file_btree_leaf env self fsbno xal =
     bind_st (dev_read_buf env xal (ucast (sb_blocksize (h_sb xal))) (xal_fsbno_offset xal fsbno))
       (\<lambda>_ xal.
          let buf = xfs_buf (be_of xal)
          in if bt_magic buf \<noteq> XAL_ODF_BMAP_CRC_MAGIC then (Fail EINVAL, xal)
             else if bt_level buf \<noteq> 0 then (Fail EINVAL, xal)
             else
               bind_st (claim_extents env (ucast (bt_numrecs buf)) xal)
                 (\<lambda>extent_start xal.
                    let i = inode_of xal self;
                        xal = put_inode xal self (i\<lparr>i_count := i_count i + ucast (bt_numrecs buf)\<rparr>)
                    in put_extents extent_start (unat (bt_numrecs buf))
                         (\<lambda>rec. decode_xfs_extent (be64 buf (LFMT_NBYTES + 16 * rec)) (be64 buf (LFMT_NBYTES + 16 * rec + 8)))
                         xal))"

text \<open>
  An interior node sends its pointers on by its own level; nothing makes the levels decrease on the way
  down, so the recursion is counted by fuel.
\<close>

fun process_file_btree_node :: "nat \<Rightarrow> xfs_env \<Rightarrow> nat \<Rightarrow> u64 \<Rightarrow> xal \<Rightarrow> unit res \<times> xal" where
  "process_file_btree_node 0 env self fsbno xal = (Inl Out_of_fuel, xal)"
| "process_file_btree_node (Suc fuel) env self fsbno xal =
     (if ODF_BLOCK_FS_BYTES_MAX < sb_blocksize (h_sb xal) then (Fail EINVAL, xal)
      else
        (let pointers_ofz = unat (snd (snd (btree_lblock_meta (h_sb xal))))
         in bind_st (dev_read_into env xal (ucast (sb_blocksize (h_sb xal))) (xal_fsbno_offset xal fsbno))
              (\<lambda>node xal.
                 if bt_magic node \<noteq> XAL_ODF_BMAP_CRC_MAGIC then (Fail EINVAL, xal)
                 else if bt_level node = 0 then (Fail EINVAL, xal)
                 else
                   for_st [0..<unat (bt_numrecs node)]
                     (\<lambda>rec xal. let pointer = be64 node (pointers_ofz + rec * 8)
                                in if bt_level node = 1 then process_file_btree_leaf env self pointer xal
                                   else process_file_btree_node fuel env self pointer xal)
                     xal)))"

definition process_dinode_file_btree_root ::
  "nat \<Rightarrow> xfs_env \<Rightarrow> nat \<Rightarrow> nat \<Rightarrow> xal \<Rightarrow> unit res \<times> xal" where
  "process_dinode_file_btree_root fuel env dinode self xal =
     (let m = dinodes_of xal;
          level = be16 m (dinode + DINODE_NBYTES);
          numrecs = be16 m (dinode + DINODE_NBYTES + 2);
          ofz_ptr = unat (snd (snd (btree_dinode_meta (h_sb xal) m dinode)))
      in if level < 1 then (Fail EINVAL, xal)
         else if i_count (inode_of xal self) \<noteq> 0 then (Fail EINVAL, xal)
         else
           for_st [0..<unat numrecs]
             (\<lambda>rec xal. let pointer = be64 m (dinode + ofz_ptr + rec * 8)
                        in if level = 1 then process_file_btree_leaf env self pointer xal
                           else process_file_btree_node fuel env self pointer xal)
             (put_inode xal self ((inode_of xal self)\<lparr>i_idx := ucast (free (h_extents xal))\<rparr>)))"

definition process_dinode_file_extents :: "xfs_env \<Rightarrow> nat \<Rightarrow> nat \<Rightarrow> xal \<Rightarrow> unit res \<times> xal" where
  "process_dinode_file_extents env dinode self xal =
     (let m = dinodes_of xal;
          nextents = (if di_nextents m dinode \<noteq> 0 then ucast (di_nextents m dinode) else di_big_nextents m dinode)
      in bind_st (claim_extents env nextents xal)
           (\<lambda>extent_idx xal.
              put_extents extent_idx (unat nextents)
                (\<lambda>rec. let o' = dinode + DINODE_NBYTES + rec * 16
                       in decode_xfs_extent (be64 m o') (be64 m (o' + 8)))
                (put_inode xal self ((inode_of xal self)\<lparr>i_idx := extent_idx, i_count := ucast nextents\<rparr>))))"

section \<open>The recursion and the rebuild\<close>

abbreviation (input) XAL_DINODE_FMT_DEV :: u8 where "XAL_DINODE_FMT_DEV \<equiv> 0"
abbreviation (input) XAL_DINODE_FMT_LOCAL :: u8 where "XAL_DINODE_FMT_LOCAL \<equiv> 1"
abbreviation (input) XAL_DINODE_FMT_EXTENTS :: u8 where "XAL_DINODE_FMT_EXTENTS \<equiv> 2"
abbreviation (input) XAL_DINODE_FMT_BTREE :: u8 where "XAL_DINODE_FMT_BTREE \<equiv> 3"
abbreviation (input) XAL_DINODE_FMT_UUID :: u8 where "XAL_DINODE_FMT_UUID \<equiv> 4"

text \<open>The part of \<open>process_ino()\<close> before the switch: the type, the size and the number of the inode.\<close>

definition ino_enter :: "nat \<Rightarrow> nat \<Rightarrow> xal \<Rightarrow> unit res \<times> xal" where
  "ino_enter dinode self xal =
     (let m = dinodes_of xal;
          mode = di_mode m dinode;
          i = inode_of xal self;
          fill = (\<lambda>i. put_inode xal self (i\<lparr>i_size := di_size m dinode, i_ino := di_ino m dinode\<rparr>))
      in if i_ftype i \<noteq> XAL_ODF_DIR3_FT_UNKNOWN then (Ok (), fill i)
         else if S_ISDIR mode then (Ok (), fill (i\<lparr>i_ftype := XAL_ODF_DIR3_FT_DIR\<rparr>))
         else if S_ISREG mode then (Ok (), fill (i\<lparr>i_ftype := XAL_ODF_DIR3_FT_REG_FILE\<rparr>))
         else (Fail EINVAL, xal))"

text \<open>The switch over the format of the inode, with \<open>pi\<close> the recursive call.\<close>

definition process_fmt :: "process_ino_fn \<Rightarrow> nat \<Rightarrow> xfs_env \<Rightarrow> nat \<Rightarrow> nat \<Rightarrow> xal \<Rightarrow> unit res \<times> xal" where
  "process_fmt pi bfuel env dinode self xal =
     (let fmt = di_format (dinodes_of xal) dinode;
          ftype = i_ftype (inode_of xal self)
      in if fmt = XAL_DINODE_FMT_BTREE then
           if ftype = XAL_ODF_DIR3_FT_DIR then
             process_dinode_dir_btree_root pi env dinode self (begin_dentries self xal)
           else if ftype = XAL_ODF_DIR3_FT_REG_FILE then
             process_dinode_file_btree_root bfuel env dinode self xal
           else (Fail ENOSYS, xal)
         else if fmt = XAL_DINODE_FMT_EXTENTS then
           if ftype = XAL_ODF_DIR3_FT_DIR then process_dinode_dir_extents pi env dinode self xal
           else if ftype = XAL_ODF_DIR3_FT_REG_FILE then process_dinode_file_extents env dinode self xal
           else (Fail ENOSYS, xal)
         else if fmt = XAL_DINODE_FMT_LOCAL then
           if ftype = XAL_ODF_DIR3_FT_DIR then process_dinode_dir_local pi env dinode self xal
           else (Fail ENOSYS, xal)
         else if fmt = XAL_DINODE_FMT_DEV \<or> fmt = XAL_DINODE_FMT_UUID then (Fail ENOSYS, xal)
         else (Ok (), xal))"

text \<open>
  \<open>fuel\<close> bounds the depth of the tree and \<open>bfuel\<close> the depth of an extent B+tree.
\<close>

fun process_ino :: "nat \<Rightarrow> nat \<Rightarrow> xfs_env \<Rightarrow> process_ino_fn" where
  "process_ino 0 bfuel env ino self xal = (Inl Out_of_fuel, xal)"
| "process_ino (Suc fuel) bfuel env ino self xal =
     (case dinodes_get xal ino of
        Inl f \<Rightarrow> (Inl f, xal)
      | Inr dinode \<Rightarrow>
          bind_st (ino_enter dinode self xal)
            (\<lambda>_ xal. process_fmt (process_ino fuel bfuel env) bfuel env dinode self xal))"

definition xal_be_xfs_index :: "nat \<Rightarrow> nat \<Rightarrow> xfs_env \<Rightarrow> xal \<Rightarrow> unit res \<times> xal" where
  "xal_be_xfs_index fuel bfuel env xal =
     (if xfs_dinodes (be_of xal) = None then (Fail EINVAL, xal)
      else
        finish_index
          (bind_st (claim_root (env_os env) (clear_pools (index_enter xal)))
             (\<lambda>_ xal. let root = unat (h_root_idx xal)
                      in process_ino fuel bfuel env (i_ino (inode_of xal root)) root xal)))"

end
