(* ===== verification/Xal_Xfs_Correct.thy ===== *)
theory Xal_Xfs_Correct
  imports Xal_Xfs_Index
begin

text \<open>
  Correctness of the XFS rebuild: every directory form fills a range of pending entries behind
  everything claimed before, sorting makes their names ascend, and visiting them keeps what
  \<open>Xal_Build\<close> asks for. The rebuild therefore leaves a well-formed index whenever it succeeds, whatever
  the device returned.
\<close>

section \<open>Scanning\<close>

text \<open>
  An entry that waits to be visited. In the inline form its parent is not yet set.
\<close>

definition pending :: "bool \<Rightarrow> nat \<Rightarrow> xal_inode \<Rightarrow> bool" where
  "pending p self e \<longleftrightarrow> i_count e = 0 \<and> (xal_inode_is_dir e \<or> xal_inode_is_file e)
     \<and> (p \<longrightarrow> unat (i_parent e) = self)"

definition scanned :: "bool \<Rightarrow> nat \<Rightarrow> xal \<Rightarrow> xal \<Rightarrow> bool" where
  "scanned p self xal0 xal \<longleftrightarrow>
     pool_ok xal \<and> n_inodes xal = n_inodes xal0 + unat (i_count (inode_of xal self))
     \<and> h_root_idx xal = h_root_idx xal0
     \<and> (\<forall>j < n_inodes xal0. j \<noteq> self \<longrightarrow> inode_of xal j = inode_of xal0 j)
     \<and> i_idx (inode_of xal self) = i_idx (inode_of xal0 self)
     \<and> i_ftype (inode_of xal self) = i_ftype (inode_of xal0 self)
     \<and> same_label (inode_of xal0 self) (inode_of xal self)
     \<and> (\<forall>j. n_inodes xal0 \<le> j \<and> j < n_inodes xal \<longrightarrow> pending p self (inode_of xal j))"

lemma scanned_frame:
  "h_inodes xal' = h_inodes xal \<Longrightarrow> h_root_idx xal' = h_root_idx xal \<Longrightarrow>
     scanned p self xal0 xal' \<longleftrightarrow> scanned p self xal0 xal"
  by (simp add: scanned_def pool_ok_def)

lemma claim_inode_ok:
  assumes "claim_inode env xal = (Inr slot, xal')" "pool_ok xal"
  shows "unat slot = n_inodes xal" "n_inodes xal' = n_inodes xal + 1" "pool_ok xal'"
    "inode_of xal' = inode_of xal" "h_root_idx xal' = h_root_idx xal"
proof -
  obtain q where q: "xal_pool_claim_inodes (env_os env) (h_inodes xal) 1 = (Inr slot, q)"
    "xal' = xal\<lparr>h_inodes := q\<rparr>"
    using assms(1) by (auto simp: claim_inode_def split: prod.splits)
  have inv: "pool_inv (h_inodes xal)" "n_inodes xal < 2 ^ 32" using assms(2) by (simp_all add: pool_ok_def)
  have nw: "unat (free (h_inodes xal)) + unat (1 :: u64) < 2 ^ 64" using inv(2) by simp
  note ok = ino_pool.claim_ok [OF inv(1) nw q(1)]
  note fr = ino_pool.claim_frame [OF q(1)]
  show "unat slot = n_inodes xal" "n_inodes xal' = n_inodes xal + 1" using ok q(2) by simp_all
  show "pool_ok xal'" using ok ino_pool.claim_bound [OF q(1)] q(2) by (simp add: pool_ok_def)
  show "inode_of xal' = inode_of xal" "h_root_idx xal' = h_root_idx xal" using fr q(2) by simp_all
qed

lemma scanned_add:
  assumes s: "scanned p self xal0 xal" and self: "self < n_inodes xal0"
    and claim: "claim_inode env xal = (Inr slot, xal')" and d: "pending p self dentry"
  shows "scanned p self xal0 (add_dentry xal' self slot dentry)"
proof -
  have ok: "pool_ok xal" using s by (simp add: scanned_def)
  note C = claim_inode_ok [OF claim ok]
  let ?y = "add_dentry xal' self slot dentry"
  have ne: "unat slot \<noteq> self" using C(1) s self by (auto simp: scanned_def)
  have mem: "inode_of ?y = (inode_of xal)(n_inodes xal := dentry,
      self := (inode_of xal self)\<lparr>i_count := i_count (inode_of xal self) + 1\<rparr>)"
    using ne C(1,4) by (simp add: add_dentry_def Let_def)
  have n: "n_inodes ?y = n_inodes xal + 1" using C(2) by (simp add: add_dentry_def Let_def)
  have lim: "n_inodes xal + 1 < 2 ^ 32" using C(2,3) by (simp add: pool_ok_def)
  have cnt: "unat (i_count (inode_of xal self) + 1) = unat (i_count (inode_of xal self)) + 1"
    using unat_add_no_wrap [of "i_count (inode_of xal self)" 1] lim s by (simp add: scanned_def)
  have "pool_ok ?y" using C(3) by (simp add: add_dentry_def Let_def pool_ok_def)
  moreover have "h_root_idx ?y = h_root_idx xal0" using C(5) s by (simp add: add_dentry_def Let_def scanned_def)
  ultimately show ?thesis
    using s self d n cnt unfolding scanned_def mem by (auto simp: same_label_def less_Suc_eq)
qed

text \<open>An entry that is not skipped is a directory or a regular file and otherwise as decoded.\<close>

lemma should_skip_kept:
  assumes "should_skip xal dentry = Inr (False, dentry')"
  shows "xal_inode_is_dir dentry' \<or> xal_inode_is_file dentry'" "i_count dentry' = i_count dentry"
    "i_parent dentry' = i_parent dentry" "i_name dentry' = i_name dentry"
  using assms by (auto simp: should_skip_def bind_res_Ok_iff Let_def xal_inode_is_dir_def
      xal_inode_is_file_def split: if_splits)

lemma decode_dentry_zero: "i_count (snd (decode_dentry m o')) = 0"
  by (simp add: decode_dentry_def zero_inode_def Let_def)

lemma scan_dblock_scanned:
  "scan_dblock env dblock dirblocksize self ofz xal = (Ok (), xal') \<Longrightarrow> self < n_inodes xal0 \<Longrightarrow>
     scanned True self xal0 xal \<Longrightarrow> scanned True self xal0 xal'"
proof (induction env dblock dirblocksize self ofz xal rule: scan_dblock.induct)
  case (1 env dblock dirblocksize self ofz xal)
  obtain nbytes dentry where dec: "decode_dentry dblock ofz = (nbytes, dentry)" by fastforce
  note unf = scan_dblock.simps [of env dblock dirblocksize self ofz xal]
  show ?case
  proof (cases "ofz < dirblocksize \<and> i_ino dentry \<noteq> 0 \<and> i_namelen dentry \<noteq> 0")
    case False
    then show ?thesis using "1.prems" dec by (auto simp: unf split: if_splits)
  next
    case more: True
    then have go: "ofz < dirblocksize" "\<not> (i_ino dentry = 0 \<or> i_namelen dentry = 0)" by auto
    note IH = "1.IH" [OF go(1) refl dec [symmetric] refl go(2)]
    show ?thesis
    proof (cases "is_dot dentry")
      case True
      then show ?thesis using IH(1) "1.prems" dec go by (simp add: unf)
    next
      case dot: False
      obtain skip dentry' where sk: "should_skip xal dentry = Inr (skip, dentry')"
        using "1.prems"(1) dec go dot by (auto simp: unf Let_def split: sum.splits)
      show ?thesis
      proof (cases skip)
        case True
        then show ?thesis using IH(2) [OF dot sk refl True] "1.prems" dec go dot sk by (simp add: unf)
      next
        case keep: False
        obtain slot xal1 where claim: "claim_inode env xal = (Inr slot, xal1)"
          using "1.prems"(1) dec go dot sk keep by (auto simp: unf Let_def split: sum.splits prod.splits)
        let ?e = "dentry'\<lparr>i_parent := xal_inode_idx xal1 self\<rparr>"
        have ok: "pool_ok xal" "self < n_inodes xal"
          using "1.prems"(2,3) by (auto simp: scanned_def)
        have "pending True self ?e"
          using should_skip_kept [of xal dentry dentry'] sk keep decode_dentry_zero [of dblock ofz]
            dec pool_ok_idx [OF ok]
          by (simp add: pending_def xal_inode_is_dir_def xal_inode_is_file_def)
        from scanned_add [OF "1.prems"(3,2) claim this] show ?thesis
          using IH(3) [OF dot sk refl keep claim [symmetric]] "1.prems"(1,2) dec go dot sk keep claim
          by (simp add: unf)
      qed
    qed
  qed
qed

lemma local_entries_scanned:
  "local_entries n env m i8 self cursor xal = (Ok (), xal') \<Longrightarrow> self < n_inodes xal0 \<Longrightarrow>
     scanned False self xal0 xal \<Longrightarrow> scanned False self xal0 xal'"
proof (induction n arbitrary: cursor xal)
  case (Suc n)
  let ?len = "unat (m cursor)"
  let ?o = "cursor + 3 + ?len + 1"
  let ?d = "zero_inode\<lparr>i_namelen := m cursor, i_name := mem_bytes m (cursor + 3) ?len,
    i_ftype := m (cursor + 3 + ?len), i_ino := (if i8 then be64 m ?o else ucast (be32 m ?o))\<rparr>"
  let ?c = "?o + (if i8 then 8 else 4)"
  have unf: "local_entries (Suc n) env m i8 self cursor xal =
      (case should_skip xal ?d of
         Inl f \<Rightarrow> (Inl f, xal)
       | Inr (skip, dentry) \<Rightarrow>
           if skip then local_entries n env m i8 self ?c xal
           else
             (case claim_inode env xal of
                (Inl f, xal) \<Rightarrow> (Inl f, xal)
              | (Inr slot, xal) \<Rightarrow> local_entries n env m i8 self ?c (add_dentry xal self slot dentry)))"
    by (simp only: local_entries.simps Let_def)
  obtain skip dentry where sk: "should_skip xal ?d = Inr (skip, dentry)"
    using Suc.prems(1) unfolding unf by (auto split: sum.splits)
  show ?case
  proof (cases skip)
    case True
    then have "local_entries n env m i8 self ?c xal = (Ok (), xal')"
      using Suc.prems(1) unfolding unf sk by simp
    then show ?thesis using Suc.IH Suc.prems(2,3) by blast
  next
    case False
    obtain slot xal1 where claim: "claim_inode env xal = (Inr slot, xal1)"
      using Suc.prems(1) False unfolding unf sk by (auto split: sum.splits prod.splits)
    have "pending False self dentry"
      using should_skip_kept [of xal ?d dentry] sk False by (simp add: pending_def zero_inode_def)
    note add = scanned_add [OF Suc.prems(3,2) claim this]
    have "local_entries n env m i8 self ?c (add_dentry xal1 self slot dentry) = (Ok (), xal')"
      using Suc.prems(1) False unfolding unf sk by (simp add: claim)
    then show ?thesis using Suc.IH Suc.prems(2) add by blast
  qed
qed simp

text \<open>Reading the device changes nothing but the buffer.\<close>

lemma dev_read_buf_frame:
  assumes "dev_read_buf env xal n ofz = (r, xal')"
  shows "h_inodes xal' = h_inodes xal" "h_root_idx xal' = h_root_idx xal" "h_extents xal' = h_extents xal"
    "h_sb xal' = h_sb xal" "\<exists>b. xal' = set_be xal b"
  using assms by (auto simp: dev_read_buf_def set_be_def split: prod.splits)

lemma dev_read_into_frame:
  assumes "dev_read_into env xal n ofz = (r, xal')"
  shows "h_inodes xal' = h_inodes xal" "h_root_idx xal' = h_root_idx xal" "h_extents xal' = h_extents xal"
    "h_sb xal' = h_sb xal" "\<exists>b. xal' = set_be xal b"
proof -
  obtain r' y where y: "dev_read_buf env xal n ofz = (r', y)" by fastforce
  then have eq: "xal' = y" using assms by (cases r') (auto simp: dev_read_into_def)
  from dev_read_buf_frame [OF y] show
    "h_inodes xal' = h_inodes xal" "h_root_idx xal' = h_root_idx xal" "h_extents xal' = h_extents xal"
    "h_sb xal' = h_sb xal" "\<exists>b. xal' = set_be xal b"
    unfolding eq by blast+
qed

lemma dev_read_scanned:
  "dev_read_into env xal n ofz = (r, xal') \<Longrightarrow> scanned p self xal0 xal \<Longrightarrow> scanned p self xal0 xal'"
  using dev_read_into_frame scanned_frame by metis

lemma dblock_scanned:
  assumes "process_dinode_dir_extents_dblock env self fsbno xal = (Ok (), xal')"
    and "self < n_inodes xal0" "scanned True self xal0 xal"
  shows "scanned True self xal0 xal'"
  using assms dev_read_scanned scan_dblock_scanned
  by (fastforce simp: process_dinode_dir_extents_dblock_def read_dblock_def bind_st_Ok_iff split: if_splits)

lemma extent_dblocks_keeps:
  assumes step: "\<And>fsbno xal xal'. dblock fsbno xal = (Ok (), xal') \<Longrightarrow> P xal \<Longrightarrow> P xal'"
  shows "extent_dblocks fuel dblock per fsblk extent xal = (Ok (), xal') \<Longrightarrow> P xal \<Longrightarrow> P xal'"
proof (induction fuel arbitrary: fsblk xal)
  case 0
  then show ?case by (subst (asm) extent_dblocks.simps) (auto split: if_splits)
next
  case (Suc fuel)
  have unf: "extent_dblocks (Suc fuel) dblock per fsblk extent xal =
      (if fsblk < unat (x_nblocks extent) then
         bind_st (dblock (x_start_block extent + of_nat fsblk) xal)
           (\<lambda>_ xal. extent_dblocks fuel dblock per (fsblk + per) extent xal)
       else (Ok (), xal))"
    by (subst extent_dblocks.simps) simp
  show ?case
    using Suc.prems Suc.IH step unfolding unf by (auto split: if_splits elim!: bind_st_OkE)
qed

lemma dir_extents_scanned:
  "dir_extents n env m dinode self per i nbytes e xal = (Ok e', xal') \<Longrightarrow> self < n_inodes xal0 \<Longrightarrow>
     scanned True self xal0 xal \<Longrightarrow> scanned True self xal0 xal'"
proof (induction n arbitrary: i nbytes e xal)
  case (Suc n)
  show ?case
  proof (cases "sint nbytes \<le> 0")
    case False
    let ?o = "dinode + DINODE_NBYTES + i * 16"
    let ?x = "decode_xfs_extent (be64 m ?o) (be64 m (?o + 8))"
    from Suc.prems(1) False obtain xal1 where
      1: "extent_dblocks (unat (x_nblocks ?x)) (process_dinode_dir_extents_dblock env self) per 0 ?x xal = (Ok (), xal1)"
      and 2: "dir_extents n env m dinode self per (Suc i)
        (nbytes - x_nblocks ?x * ucast (sb_blocksize (h_sb xal1))) (e \<or> x_nblocks ?x \<noteq> 0) xal1 = (Ok e', xal')"
      by (auto simp: Let_def bind_st_Ok_iff)
    have "scanned True self xal0 xal1"
      by (rule extent_dblocks_keeps [where P = "scanned True self xal0", OF _ 1 Suc.prems(3)]) (rule dblock_scanned [OF _ Suc.prems(2)])
    then show ?thesis using Suc.IH [OF 2 Suc.prems(2)] by blast
  qed (use Suc.prems in simp)
qed simp

lemma leaf_dblocks_scanned:
  "leaf_dblocks fuel env self per fsblk extent xal = (Ok c, xal') \<Longrightarrow> self < n_inodes xal0 \<Longrightarrow>
     scanned True self xal0 xal \<Longrightarrow> scanned True self xal0 xal'"
proof (induction fuel arbitrary: fsblk xal)
  case 0
  then show ?case by (subst (asm) leaf_dblocks.simps) (auto split: if_splits)
next
  case (Suc fuel)
  show ?case
  proof (cases "fsblk < unat (x_nblocks extent)")
    case True
    then obtain dblock xal1 where rd: "read_dblock env xal (x_start_block extent + of_nat fsblk) = (Inr dblock, xal1)"
      and "\<not> dir_magic_ok dblock \<and> xal' = xal1
        \<or> (\<exists>xal2. scan_dblock env dblock (unat (sb_dirblocksize (h_sb xal1))) self 64 xal1 = (Ok (), xal2)
            \<and> leaf_dblocks fuel env self per (fsblk + per) extent xal2 = (Ok c, xal'))"
      using Suc.prems(1) by (subst (asm) leaf_dblocks.simps) (auto simp: bind_st_Ok_iff split: if_splits)
    moreover have "scanned True self xal0 xal1"
      using dev_read_scanned [OF rd [unfolded read_dblock_def] Suc.prems(3)] .
    ultimately show ?thesis using Suc.IH Suc.prems(2) scan_dblock_scanned by blast
  next
    case False
    then show ?thesis using Suc.prems by (subst (asm) leaf_dblocks.simps) simp
  qed
qed

lemma leaf_records_scanned:
  "leaf_records recs env buf self per xal = (Ok (), xal') \<Longrightarrow> self < n_inodes xal0 \<Longrightarrow>
     scanned True self xal0 xal \<Longrightarrow> scanned True self xal0 xal'"
proof (induction recs arbitrary: xal)
  case (Cons rec recs)
  then show ?case
    by (auto simp: Let_def bind_st_Ok_iff split: if_splits) (meson leaf_dblocks_scanned)+
qed simp

lemma btree_lblock_process_scanned:
  assumes "btree_lblock_process env self fsbno xal = (Ok (), xal')" "self < n_inodes xal0"
    and "scanned True self xal0 xal"
  shows "scanned True self xal0 xal'"
  using assms dev_read_scanned leaf_records_scanned
  by (fastforce simp: btree_lblock_process_def btree_lblock_read_def btree_lblock_decode_leaf_records_def
      btree_lblock_decode_node_records_def bind_st_Ok_iff split: if_splits)

section \<open>Visiting\<close>

text \<open>What the recursive call guarantees.\<close>

definition pi_ok :: "process_ino_fn \<Rightarrow> bool" where
  "pi_ok pi \<longleftrightarrow> (\<forall>ino self xal xal'. pool_ok xal \<longrightarrow> self < n_inodes xal \<longrightarrow> i_count (inode_of xal self) = 0 \<longrightarrow>
     pi ino self xal = (Ok (), xal') \<longrightarrow> ino_post xal self xal')"

lemma pi_okD:
  assumes "pi_ok pi" "pi ino self xal = (Ok (), xal')" "pool_ok xal" "self < n_inodes xal"
    and "i_count (inode_of xal self) = 0"
  shows "ino_post xal self xal'"
  using assms by (auto simp: pi_ok_def)

lemma begin_dentries_simps:
  "n_inodes (begin_dentries self xal) = n_inodes xal" "h_root_idx (begin_dentries self xal) = h_root_idx xal"
  "pool_ok (begin_dentries self xal) = pool_ok xal"
  "inode_of (begin_dentries self xal) =
     (inode_of xal)(self := (inode_of xal self)\<lparr>i_idx := ucast (free (h_inodes xal))\<rparr>)"
  by (simp_all add: begin_dentries_def pool_ok_def)

lemma begin_scanned:
  assumes "pool_ok xal" "i_count (inode_of xal self) = 0"
  shows "scanned p self (begin_dentries self xal) (begin_dentries self xal)"
  using assms by (auto simp: scanned_def begin_dentries_simps)

lemma sort_dentries_simps:
  "n_inodes (sort_dentries self xal) = n_inodes xal" "h_root_idx (sort_dentries self xal) = h_root_idx xal"
  "pool_ok (sort_dentries self xal) = pool_ok xal"
  by (simp_all add: sort_dentries_def Let_def pool_ok_def pool_inv_def)

text \<open>Sorting permutes the entries and leaves everything else.\<close>

lemma sort_dentries_entries:
  assumes "unat (i_idx (inode_of xal self)) = a" "unat (i_count (inode_of xal self)) = n"
  shows "map (inode_of (sort_dentries self xal)) [a..<a + n] = qsort compare_inode (map (inode_of xal) [a..<a + n])"
    and "j < a \<or> a + n \<le> j \<Longrightarrow> inode_of (sort_dentries self xal) j = inode_of xal j"
proof -
  let ?s = "qsort compare_inode (map (inode_of xal) [a..<a + n])"
  have mem: "inode_of (sort_dentries self xal) = (\<lambda>i. if a \<le> i \<and> i < a + n then ?s ! (i - a) else inode_of xal i)"
    by (simp add: sort_dentries_def Let_def assms)
  have len: "length ?s = n" by (simp add: by_inode.qsort_length)
  show "map (inode_of (sort_dentries self xal)) [a..<a + n] = ?s"
    by (rule nth_equalityI) (simp_all add: len mem)
  show "j < a \<or> a + n \<le> j \<Longrightarrow> inode_of (sort_dentries self xal) j = inode_of xal j"
    by (auto simp: mem)
qed

lemma sort_scanned:
  assumes s: "scanned p self xal0 xal" and self: "self < n_inodes xal0"
    and idx: "unat (i_idx (inode_of xal0 self)) = n_inodes xal0"
  shows "scanned p self xal0 (sort_dentries self xal)"
    "sorted (names_of (sort_dentries self xal) [n_inodes xal0..<n_inodes xal])"
proof -
  let ?y = "sort_dentries self xal"
  have a: "unat (i_idx (inode_of xal self)) = n_inodes xal0" using s idx by (simp add: scanned_def)
  have n: "n_inodes xal0 + unat (i_count (inode_of xal self)) = n_inodes xal" using s by (simp add: scanned_def)
  note E = sort_dentries_entries [OF a refl, unfolded n]
  have selfsame: "inode_of ?y self = inode_of xal self" using E(2) [of self] self by simp
  have set: "inode_of ?y ` {n_inodes xal0..<n_inodes xal} = inode_of xal ` {n_inodes xal0..<n_inodes xal}"
    using arg_cong [OF E(1), of set] by (simp add: by_inode.qsort_set)
  have "pending p self (inode_of ?y j)" if "n_inodes xal0 \<le> j" "j < n_inodes xal" for j
  proof -
    have "inode_of ?y j \<in> inode_of xal ` {n_inodes xal0..<n_inodes xal}" unfolding set [symmetric] using that by simp
    then show ?thesis using s by (auto simp: scanned_def)
  qed
  then show "scanned p self xal0 ?y"
    using s E(2) selfsame unfolding scanned_def sort_dentries_simps by simp
  have "sorted (map i_cname (map (inode_of ?y) [n_inodes xal0..<n_inodes xal]))"
    unfolding E(1) by (rule by_inode.qsort_sorted)
  then show "sorted (names_of ?y [n_inodes xal0..<n_inodes xal])" by (simp add: comp_def)
qed

text \<open>
  After \<open>k\<close> entries: those are done, the others still wait, and the directory itself is untouched.
\<close>

definition visited :: "nat \<Rightarrow> xal \<Rightarrow> xal \<Rightarrow> nat \<Rightarrow> xal \<Rightarrow> bool" where
  "visited self xal0 xal1 k xal \<longleftrightarrow>
     visiting xal1 self (n_inodes xal0) (n_inodes xal1) (take k (names_of xal1 [n_inodes xal0..<n_inodes xal1])) xal
     \<and> inode_of xal self = inode_of xal1 self"

lemma visit_child_step:
  assumes s: "scanned p self xal0 xal1" and self: "self < n_inodes xal0"
    and idx: "unat (i_idx (inode_of xal0 self)) = n_inodes xal0" and parent: "p \<or> sp"
    and k: "k < unat (i_count (inode_of xal1 self))" and I: "visited self xal0 xal1 k xal"
  obtains c i where "\<And>pi. visit_child pi sp self k xal = pi (i_ino i) c (put_inode xal c i)"
    "pool_ok (put_inode xal c i)" "c < n_inodes (put_inode xal c i)" "i_count (inode_of (put_inode xal c i) c) = 0"
    "n_inodes xal0 < n_inodes xal"
    "\<And>xal'. ino_post (put_inode xal c i) c xal' \<Longrightarrow> visited self xal0 xal1 (Suc k) xal'"
proof -
  let ?lo = "n_inodes xal0" and ?b = "n_inodes xal1"
  let ?ns = "names_of xal1 [?lo..<?b]"
  have n: "?b = ?lo + unat (i_count (inode_of xal1 self))" and a: "unat (i_idx (inode_of xal1 self)) = ?lo"
    using s idx by (simp_all add: scanned_def)
  let ?c = "?lo + k"
  have v: "visiting xal1 self ?lo ?b (take k ?ns) xal" and same: "inode_of xal self = inode_of xal1 self"
    using I by (simp_all add: visited_def)
  note V = visitingD [OF v]
  have len: "length (take k ?ns) = k" using k n by simp
  have cb: "?c < ?b" using k n by simp
  have cn: "?c < n_inodes xal" "n_inodes xal < 2 ^ 32" using cb V(1,4) by (simp_all add: pool_ok_def)
  have "unat (i_idx (inode_of xal self) + of_nat k) = ?c"
    using unat_add_no_wrap [of "i_idx (inode_of xal self)" "of_nat k"] same a cn
    by (simp add: unat_of_nat take_bit_nat_eq_self)
  moreover have "?c < unat (allocated (h_inodes xal))"
    using cn(1) V(1) pool_invD(1) [of "h_inodes xal"] by (simp add: pool_ok_def)
  ultimately have at: "xal_inode_at xal (i_idx (inode_of xal self) + of_nat k) = Some ?c" by simp
  have c1: "inode_of xal ?c = inode_of xal1 ?c" using V(6) [of ?c] len cb self by simp
  define i where "i = (if sp then (inode_of xal ?c)\<lparr>i_parent := xal_inode_idx xal self\<rparr> else inode_of xal ?c)"
  have "pending p self (inode_of xal1 ?c)" using s cb by (simp add: scanned_def)
  then have i: "i_count i = 0" "xal_inode_is_dir i \<or> xal_inode_is_file i" "unat (i_parent i) = self"
    "i_cname i = i_cname (inode_of xal1 ?c)"
    using parent c1 pool_ok_idx [OF V(1), of self] self V(4) cb
    by (auto simp: i_def pending_def xal_inode_is_dir_def xal_inode_is_file_def i_cname_def)
  have take: "take (Suc k) ?ns = take k ?ns @ [i_cname i]"
    using k n i(4) by (simp add: take_Suc_conv_app_nth)
  show thesis
  proof (rule that [of i ?c])
    show "visit_child pi sp self k xal = pi (i_ino i) ?c (put_inode xal ?c i)" for pi
      by (auto simp: visit_child_def at Let_def i_def put_inode_def)
    show "pool_ok (put_inode xal ?c i)" "?c < n_inodes (put_inode xal ?c i)"
      "i_count (inode_of (put_inode xal ?c i) ?c) = 0" "n_inodes xal0 < n_inodes xal"
      using V(1) cn i(1) by (simp_all add: pool_ok_def)
    fix xal' assume post: "ino_post (put_inode xal ?c i) ?c xal'"
    have "same_label i (inode_of xal' ?c)" using ino_postD(5) [OF post] by simp
    then have kind: "xal_inode_is_dir (inode_of xal' ?c) \<or> xal_inode_is_file (inode_of xal' ?c)"
      using i(2) by (auto simp: same_label_def xal_inode_is_dir_def xal_inode_is_file_def)
    show "visited self xal0 xal1 (Suc k) xal'"
      using visiting_step [OF v _ cb i(3) post kind] len same take by (simp add: visited_def)
  qed
qed

lemma visited_start:
  assumes "scanned p self xal0 xal1" "self < n_inodes xal0"
  shows "visited self xal0 xal1 0 xal1"
  using visiting_start [of xal1 self "n_inodes xal0"] assms by (simp add: visited_def scanned_def)

lemma visit_children_visiting:
  assumes pi: "pi_ok pi" and s: "scanned p self xal0 xal1" and self: "self < n_inodes xal0"
    and idx: "unat (i_idx (inode_of xal0 self)) = n_inodes xal0" and parent: "p \<or> sp"
    and run: "visit_children pi sp self xal1 = (Ok (), xal')"
  shows "visiting xal1 self (n_inodes xal0) (n_inodes xal1) (names_of xal1 [n_inodes xal0..<n_inodes xal1]) xal'
    \<and> inode_of xal' self = inode_of xal1 self"
proof -
  have n: "n_inodes xal1 = n_inodes xal0 + unat (i_count (inode_of xal1 self))" using s by (simp add: scanned_def)
  have "visited self xal0 xal1 (unat (i_count (inode_of xal1 self))) xal'"
    using run unfolding visit_children_def
  proof (rule for_st_upt_inv)
    show "visited self xal0 xal1 0 xal1" by (rule visited_start [OF s self])
  next
    fix k xal xal2
    assume k: "k < unat (i_count (inode_of xal1 self))" and I: "visited self xal0 xal1 k xal"
      and step: "visit_child pi sp self k xal = (Ok (), xal2)"
    show "visited self xal0 xal1 (Suc k) xal2"
      by (rule visit_child_step [OF s self idx parent k I]) (use step pi_okD [OF pi] in auto)
  qed
  then show ?thesis using n by (simp add: visited_def)
qed

section \<open>Processing an inode\<close>

lemma dir_post:
  assumes pi: "pi_ok pi" and ok: "pool_ok xal" "self < n_inodes xal"
    and s: "scanned p self (begin_dentries self xal) xal1" and parent: "p \<or> sp"
    and run: "visit_children pi sp self (sort_dentries self xal1) = (Ok (), xal')"
  shows "ino_post xal self xal'"
proof -
  let ?b = "begin_dentries self xal" and ?s = "sort_dentries self xal1"
  note B = begin_dentries_simps
  have self: "self < n_inodes ?b" using ok(2) by (simp only: B)
  have idx: "unat (i_idx (inode_of ?b self)) = n_inodes ?b"
    using unat_free_u32 [OF ok(1)] by (simp add: B)
  note S = sort_scanned [OF s self idx]
  have n: "n_inodes ?s = n_inodes xal1" by (simp only: sort_dentries_simps)
  have v: "visiting ?s self (n_inodes ?b) (n_inodes ?s) (names_of ?s [n_inodes ?b..<n_inodes ?s]) xal'"
    and same: "inode_of xal' self = inode_of ?s self"
    using visit_children_visiting [OF pi S(1) self idx parent run] by auto
  have Sd: "n_inodes ?s = n_inodes ?b + unat (i_count (inode_of ?s self))" "h_root_idx ?s = h_root_idx ?b"
    "\<And>j. j < n_inodes ?b \<Longrightarrow> j \<noteq> self \<Longrightarrow> inode_of ?s j = inode_of ?b j"
    "i_idx (inode_of ?s self) = i_idx (inode_of ?b self)" "same_label (inode_of ?b self) (inode_of ?s self)"
    using S(1) by (auto simp: scanned_def)
  show ?thesis
  proof (rule visiting_finish [OF v])
    show "n_inodes xal = n_inodes ?b" by (simp only: B)
    show "unat (i_idx (inode_of xal' self)) = n_inodes ?b" using Sd(4) same idx by simp
    show "unat (i_count (inode_of xal' self)) = length (names_of ?s [n_inodes ?b..<n_inodes ?s])"
      using Sd(1) same by simp
    show "sorted (names_of ?s [n_inodes ?b..<n_inodes ?s])" using S(2) n by simp
    show "\<not> xal_inode_is_dir (inode_of xal' j)"
      if "n_inodes ?b + length (names_of ?s [n_inodes ?b..<n_inodes ?s]) \<le> j" "j < n_inodes ?s" for j
      using that Sd(1) by simp
    show "inode_of ?s j = inode_of xal j" if "j < n_inodes ?b" "j \<noteq> self" for j
      using Sd(3) [OF that] that by (simp add: B)
    show "h_root_idx ?s = h_root_idx xal" using Sd(2) by (simp add: B)
    have "same_label (inode_of xal self) (inode_of ?b self)" by (simp add: B same_label_def)
    then show "same_label (inode_of xal self) (inode_of xal' self)" using Sd(5) same same_label_trans by metis
  qed
qed

lemma dir_local_post:
  assumes "pi_ok pi" "pool_ok xal" "self < n_inodes xal" "i_count (inode_of xal self) = 0"
    and "process_dinode_dir_local pi env dinode self xal = (Ok (), xal')"
  shows "ino_post xal self xal'"
proof -
  obtain m i8 c n xal1 where
    1: "local_entries n env m i8 self c (begin_dentries self xal) = (Ok (), xal1)"
    and 2: "visit_children pi True self (sort_dentries self xal1) = (Ok (), xal')"
    using assms(5) by (auto simp: process_dinode_dir_local_def Let_def bind_st_Ok_iff)
  have "scanned False self (begin_dentries self xal) xal1"
    by (rule local_entries_scanned [OF 1 _ begin_scanned [OF assms(2,4)]])
       (use assms(3) in \<open>simp only: begin_dentries_simps\<close>)
  then show ?thesis using dir_post [OF assms(1-3) _ _ 2] by blast
qed

lemma dir_extents_post:
  assumes "pi_ok pi" "pool_ok xal" "self < n_inodes xal" "i_count (inode_of xal self) = 0"
    and "process_dinode_dir_extents pi env dinode self xal = (Ok (), xal')"
  shows "ino_post xal self xal'"
proof -
  obtain n m per nb e xal1 where
    1: "dir_extents n env m dinode self per 0 nb False (begin_dentries self xal) = (Ok e, xal1)"
    and 2: "visit_children pi False self (sort_dentries self xal1) = (Ok (), xal')"
    using assms(5) by (auto simp: process_dinode_dir_extents_def Let_def bind_st_Ok_iff split: if_splits)
  have "scanned True self (begin_dentries self xal) xal1"
    by (rule dir_extents_scanned [OF 1 _ begin_scanned [OF assms(2,4)]])
       (use assms(3) in \<open>simp only: begin_dentries_simps\<close>)
  then show ?thesis using dir_post [OF assms(1-3) _ _ 2] by blast
qed

lemma dir_btree_post:
  assumes "pi_ok pi" "pool_ok xal" "self < n_inodes xal"
    and "process_dinode_dir_btree_root pi env dinode self xal = (Ok (), xal')"
  shows "ino_post xal self xal'"
proof -
  obtain n f xal1 where c: "i_count (inode_of xal self) = 0"
    and 1: "for_st [0..<n] (\<lambda>rec. btree_lblock_process env self (f rec)) (begin_dentries self xal) = (Ok (), xal1)"
    and 2: "visit_children pi False self (sort_dentries self xal1) = (Ok (), xal')"
    using assms(4) by (auto simp: process_dinode_dir_btree_root_def Let_def bind_st_Ok_iff split: if_splits)
  have "scanned True self (begin_dentries self xal) xal1"
  proof (rule for_st_inv [where P = "scanned True self (begin_dentries self xal)", OF 1 begin_scanned [OF assms(2) c]])
    show "scanned True self (begin_dentries self xal) t"
      if "scanned True self (begin_dentries self xal) s" "btree_lblock_process env self (f i) s = (Ok (), t)" for i s t
      using btree_lblock_process_scanned [OF that(2) _ that(1)] assms(3) by (simp only: begin_dentries_simps)
  qed
  then show ?thesis using dir_post [OF assms(1-3) _ _ 2] by blast
qed

text \<open>The forms of a file claim extents and write to the inode's own span.\<close>

lemma claim_extents_frame:
  "claim_extents env n xal = (r, xal') \<Longrightarrow> h_inodes xal' = h_inodes xal \<and> h_root_idx xal' = h_root_idx xal"
  by (auto simp: claim_extents_def split: prod.splits)

lemma put_extents_frame:
  "put_extents start n f xal = (r, xal') \<Longrightarrow> h_inodes xal' = h_inodes xal \<and> h_root_idx xal' = h_root_idx xal"
  by (auto simp: put_extents_def split: if_splits)

lemma file_leaf_only:
  assumes "process_file_btree_leaf env self fsbno xal = (Ok (), xal')" "pool_ok xal"
  shows "only_self xal self xal'"
proof -
  obtain xal1 buf start xal2 where
    1: "dev_read_buf env xal (ucast (sb_blocksize (h_sb xal))) (xal_fsbno_offset xal fsbno) = (Ok (), xal1)"
    and 2: "claim_extents env (ucast (bt_numrecs buf)) xal1 = (Inr start, xal2)"
    and 3: "put_extents start (unat (bt_numrecs buf))
        (\<lambda>rec. decode_xfs_extent (be64 buf (LFMT_NBYTES + 16 * rec)) (be64 buf (LFMT_NBYTES + 16 * rec + 8)))
        (put_inode xal2 self ((inode_of xal2 self)\<lparr>i_count := i_count (inode_of xal2 self) + ucast (bt_numrecs buf)\<rparr>))
      = (Ok (), xal')"
    using assms(1) by (auto simp: process_file_btree_leaf_def Let_def bind_st_Ok_iff split: if_splits)
  have x1: "only_self xal self xal1" by (rule only_self_frame [OF assms(2) dev_read_buf_frame(1,2) [OF 1]])
  have "only_self xal1 self xal2"
    by (rule only_self_frame) (use claim_extents_frame [OF 2] x1 in \<open>simp_all add: only_self_def\<close>)
  with x1 have x2: "only_self xal self xal2" by (rule only_self_trans)
  let ?x3 = "put_inode xal2 self ((inode_of xal2 self)\<lparr>i_count := i_count (inode_of xal2 self) + ucast (bt_numrecs buf)\<rparr>)"
  have "only_self xal2 self ?x3"
    by (rule only_self_put) (use x2 in \<open>simp_all add: only_self_def same_label_def\<close>)
  moreover have "only_self ?x3 self xal'"
    by (rule only_self_frame) (use put_extents_frame [OF 3] x2 in \<open>simp_all add: only_self_def pool_ok_def\<close>)
  ultimately show ?thesis using x2 only_self_trans by blast
qed

lemma file_node_only:
  "process_file_btree_node fuel env self fsbno xal = (Ok (), xal') \<Longrightarrow> pool_ok xal \<Longrightarrow> only_self xal self xal'"
proof (induction fuel arbitrary: fsbno xal xal')
  case (Suc fuel)
  obtain node xal1 f where
    1: "dev_read_into env xal (ucast (sb_blocksize (h_sb xal))) (xal_fsbno_offset xal fsbno) = (Inr node, xal1)"
    and 2: "for_st [0..<unat (bt_numrecs node)]
       (\<lambda>rec xal. if bt_level node = 1 then process_file_btree_leaf env self (f rec) xal
                  else process_file_btree_node fuel env self (f rec) xal) xal1 = (Ok (), xal')"
    using Suc.prems(1) by (auto simp: Let_def bind_st_Ok_iff split: if_splits)
  have x1: "only_self xal self xal1" by (rule only_self_frame [OF Suc.prems(2) dev_read_into_frame(1,2) [OF 1]])
  show ?case
  proof (rule for_st_inv [where P = "only_self xal self", OF 2 x1])
    fix i s t
    assume s: "only_self xal self s"
      and "(if bt_level node = 1 then process_file_btree_leaf env self (f i) s
            else process_file_btree_node fuel env self (f i) s) = (Ok (), t)"
    then have "only_self s self t"
      using file_leaf_only Suc.IH by (auto simp: only_self_def split: if_splits)
    with s show "only_self xal self t" by (rule only_self_trans)
  qed
qed simp

lemma file_btree_only:
  assumes "process_dinode_file_btree_root fuel env dinode self xal = (Ok (), xal')" "pool_ok xal"
  shows "only_self xal self xal'"
proof -
  let ?x1 = "put_inode xal self ((inode_of xal self)\<lparr>i_idx := ucast (free (h_extents xal))\<rparr>)"
  obtain n f level where 1: "for_st [0..<n]
     (\<lambda>rec xal. if (level :: u16) = 1 then process_file_btree_leaf env self (f rec) xal
                else process_file_btree_node fuel env self (f rec) xal) ?x1 = (Ok (), xal')"
    using assms(1) by (auto simp: process_dinode_file_btree_root_def Let_def split: if_splits)
  have x1: "only_self xal self ?x1" by (rule only_self_put [OF assms(2)]) (simp add: same_label_def)
  show ?thesis
  proof (rule for_st_inv [where P = "only_self xal self", OF 1 x1])
    fix i s t
    assume s: "only_self xal self s"
      and "(if level = 1 then process_file_btree_leaf env self (f i) s
            else process_file_btree_node fuel env self (f i) s) = (Ok (), t)"
    then have "only_self s self t"
      using file_leaf_only file_node_only by (auto simp: only_self_def split: if_splits)
    with s show "only_self xal self t" by (rule only_self_trans)
  qed
qed

lemma file_extents_only:
  assumes "process_dinode_file_extents env dinode self xal = (Ok (), xal')" "pool_ok xal"
  shows "only_self xal self xal'"
proof -
  obtain n idx xal1 f k where 1: "claim_extents env n xal = (Inr idx, xal1)"
    and 2: "put_extents idx k f (put_inode xal1 self ((inode_of xal1 self)\<lparr>i_idx := idx, i_count := ucast n\<rparr>)) = (Ok (), xal')"
    using assms(1) by (auto simp: process_dinode_file_extents_def Let_def bind_st_Ok_iff)
  have x1: "only_self xal self xal1"
    by (rule only_self_frame [OF assms(2)]) (use claim_extents_frame [OF 1] in simp_all)
  let ?x2 = "put_inode xal1 self ((inode_of xal1 self)\<lparr>i_idx := idx, i_count := ucast n\<rparr>)"
  have "only_self xal1 self ?x2"
    by (rule only_self_put) (use x1 in \<open>simp_all add: only_self_def same_label_def\<close>)
  moreover have "only_self ?x2 self xal'"
    by (rule only_self_frame) (use put_extents_frame [OF 2] x1 in \<open>simp_all add: only_self_def pool_ok_def\<close>)
  ultimately show ?thesis using x1 only_self_trans by blast
qed

lemma ino_enter_only:
  assumes "ino_enter dinode self xal = (Ok (), xal')" "pool_ok xal"
  shows "only_self xal self xal'" "i_count (inode_of xal' self) = i_count (inode_of xal self)"
    "i_idx (inode_of xal' self) = i_idx (inode_of xal self)"
proof -
  obtain i where i: "xal' = put_inode xal self i" "same_label (inode_of xal self) i"
    "i_count i = i_count (inode_of xal self)" "i_idx i = i_idx (inode_of xal self)"
    using assms(1) by (auto simp: ino_enter_def Let_def same_label_def split: if_splits)
  show "only_self xal self xal'" using only_self_put [OF assms(2) i(2)] i(1) by simp
  show "i_count (inode_of xal' self) = i_count (inode_of xal self)"
    "i_idx (inode_of xal' self) = i_idx (inode_of xal self)" using i by simp_all
qed

lemma only_self_file:
  assumes "only_self xal self xal'" "i_ftype (inode_of xal self) = XAL_ODF_DIR3_FT_REG_FILE"
  shows "ino_post xal self xal'"
  by (rule only_self_post [OF assms(1)])
     (use assms in \<open>auto simp: only_self_def same_label_def xal_inode_is_dir_def\<close>)

lemma untouched_post:
  assumes "pool_ok xal" "i_count (inode_of xal self) = 0"
  shows "ino_post xal self xal"
  using assms by (auto simp: ino_post_def sub_ok_def dir_ok_def children_def)

lemma process_fmt_post:
  assumes pi: "pi_ok pi" and ok: "pool_ok xal" "self < n_inodes xal" "i_count (inode_of xal self) = 0"
    and run: "process_fmt pi bfuel env dinode self xal = (Ok (), xal')"
  shows "ino_post xal self xal'"
proof -
  let ?ft = "i_ftype (inode_of xal self)" and ?b = "begin_dentries self xal"
  let ?fmt = "di_format (dinodes_of xal) dinode"
  note unf = run [unfolded process_fmt_def Let_def]
  consider "?ft = XAL_ODF_DIR3_FT_DIR" | "?ft = XAL_ODF_DIR3_FT_REG_FILE"
    | "?ft \<noteq> XAL_ODF_DIR3_FT_DIR" "?ft \<noteq> XAL_ODF_DIR3_FT_REG_FILE" by blast
  then show ?thesis
  proof cases
    case dir: 1
    show ?thesis
    proof (cases "?fmt = XAL_DINODE_FMT_BTREE")
      case True
      then have 1: "process_dinode_dir_btree_root pi env dinode self ?b = (Ok (), xal')" using unf dir by simp
      have "ino_post ?b self xal'"
        by (rule dir_btree_post [OF pi _ _ 1]) (use ok in \<open>simp_all only: begin_dentries_simps\<close>)
      moreover have "only_self xal self ?b" unfolding begin_dentries_def
        by (rule only_self_put [OF ok(1)]) (simp add: same_label_def)
      ultimately show ?thesis by (blast intro: ino_post_after)
    next
      case False
      then show ?thesis
        using unf dir dir_extents_post [OF pi ok] dir_local_post [OF pi ok] untouched_post [OF ok(1,3)]
        by (cases "?fmt = XAL_DINODE_FMT_EXTENTS"; cases "?fmt = XAL_DINODE_FMT_LOCAL")
           (auto split: if_splits)
    qed
  next
    case reg: 2
    then show ?thesis
      using unf only_self_file [OF _ reg] file_btree_only [OF _ ok(1)] file_extents_only [OF _ ok(1)]
        untouched_post [OF ok(1,3)]
      by (cases "?fmt = XAL_DINODE_FMT_BTREE"; cases "?fmt = XAL_DINODE_FMT_EXTENTS";
          cases "?fmt = XAL_DINODE_FMT_LOCAL") (auto split: if_splits)
  next
    case other: 3
    then show ?thesis using unf untouched_post [OF ok(1,3)]
      by (cases "?fmt = XAL_DINODE_FMT_BTREE"; cases "?fmt = XAL_DINODE_FMT_EXTENTS";
          cases "?fmt = XAL_DINODE_FMT_LOCAL") (auto split: if_splits)
  qed
qed

text \<open>Processing an inode does what is asked of it, at every depth.\<close>

lemma process_ino_ok: "pi_ok (process_ino fuel bfuel env)"
proof (induction fuel)
  case (Suc fuel)
  show ?case unfolding pi_ok_def
  proof (intro allI impI)
    fix ino self xal xal'
    assume ok: "pool_ok xal" "self < n_inodes xal" "i_count (inode_of xal self) = 0"
      and run: "process_ino (Suc fuel) bfuel env ino self xal = (Ok (), xal')"
    obtain dinode xal1 where enter: "ino_enter dinode self xal = (Ok (), xal1)"
      and fmt: "process_fmt (process_ino fuel bfuel env) bfuel env dinode self xal1 = (Ok (), xal')"
      using run by (auto simp: bind_st_Ok_iff split: sum.splits)
    note E = ino_enter_only [OF enter ok(1)]
    have "ino_post xal1 self xal'"
      by (rule process_fmt_post [OF Suc.IH _ _ _ fmt]) (use E ok in \<open>auto simp: only_self_def\<close>)
    then show "ino_post xal self xal'" by (rule ino_post_after [OF E(1)])
  qed
qed (simp add: pi_ok_def)

section \<open>What a rebuild leaves alone\<close>

lemma core_set_be [simp]: "core (set_be xal be) = core xal"
  by (simp add: core_def set_be_def)

lemma core_dev_read_buf [simp]: "core (snd (dev_read_buf env xal n ofz)) = core xal"
  by (simp add: dev_read_buf_def split: prod.splits)

lemma core_dev_read_into [simp]: "core (snd (dev_read_into env xal n ofz)) = core xal"
  by (simp add: dev_read_into_def snd_bind_st [of core])

lemma core_claim_inode [simp]: "core (snd (claim_inode env xal)) = core xal"
  by (simp add: claim_inode_def split: prod.splits)

lemma core_claim_extents [simp]: "core (snd (claim_extents env n xal)) = core xal"
  by (simp add: claim_extents_def split: prod.splits)

lemma core_put_extents [simp]: "core (snd (put_extents start n f xal)) = core xal"
  by (simp add: put_extents_def)

lemma core_pure [simp]:
  "core (add_dentry xal self slot d) = core xal" "core (begin_dentries self xal) = core xal"
  "core (sort_dentries self xal) = core xal"
  by (simp_all add: add_dentry_def begin_dentries_def sort_dentries_def Let_def core_def)

lemma core_scan_dblock [simp]: "core (snd (scan_dblock env dblock n self ofz xal)) = core xal"
proof (induction env dblock n self ofz xal rule: scan_dblock.induct)
  case (1 env dblock n self ofz xal)
  have cl: "core xal1 = core xal" if "claim_inode env xal = (r, xal1)" for r xal1
    using core_claim_inode [of env xal] that by simp
  show ?case
    by (subst scan_dblock.simps) (use 1 cl in \<open>auto simp: Let_def split: prod.split sum.split\<close>)
qed

lemma core_local_entries [simp]: "core (snd (local_entries n env m i8 self c xal)) = core xal"
proof (induction n arbitrary: c xal)
  case (Suc n)
  have cl: "core xal1 = core xal" if "claim_inode env xal = (r, xal1)" for r xal1
    using core_claim_inode [of env xal] that by simp
  show ?case using Suc cl by (auto simp: Let_def split: prod.split sum.split)
qed simp

lemma core_dblock [simp]: "core (snd (process_dinode_dir_extents_dblock env self fsbno xal)) = core xal"
  by (simp add: process_dinode_dir_extents_dblock_def read_dblock_def snd_bind_st [of core])

lemma core_extent_dblocks [simp]:
  "core (snd (extent_dblocks fuel (process_dinode_dir_extents_dblock env self) per k x xal)) = core xal"
proof (induction fuel arbitrary: k xal)
  case (Suc fuel)
  then show ?case by (subst extent_dblocks.simps) (simp add: snd_bind_st [of core])
qed (simp add: extent_dblocks.simps)

lemma core_dir_extents [simp]: "core (snd (dir_extents n env m dinode self per i nb e xal)) = core xal"
  by (induction n arbitrary: i nb e xal) (simp_all add: Let_def snd_bind_st [of core])

lemma core_leaf_dblocks [simp]: "core (snd (leaf_dblocks fuel env self per k x xal)) = core xal"
proof (induction fuel arbitrary: k xal)
  case (Suc fuel)
  then show ?case by (subst leaf_dblocks.simps) (simp add: read_dblock_def snd_bind_st [of core])
qed (simp add: leaf_dblocks.simps)

lemma core_leaf_records [simp]: "core (snd (leaf_records recs env buf self per xal)) = core xal"
  by (induction recs arbitrary: xal) (simp_all add: Let_def snd_bind_st [of core])

lemma core_lblock [simp]: "core (snd (btree_lblock_process env self fsbno xal)) = core xal"
  by (simp add: btree_lblock_process_def btree_lblock_read_def btree_lblock_decode_leaf_records_def
      btree_lblock_decode_node_records_def snd_bind_st [of core])

lemma core_file_leaf [simp]: "core (snd (process_file_btree_leaf env self fsbno xal)) = core xal"
  by (simp add: process_file_btree_leaf_def Let_def snd_bind_st [of core])

lemma core_file_node [simp]: "core (snd (process_file_btree_node fuel env self fsbno xal)) = core xal"
  by (induction fuel arbitrary: fsbno xal) (simp_all add: Let_def snd_bind_st [of core] snd_for_st [of core])

lemma core_file_forms [simp]:
  "core (snd (process_dinode_file_btree_root fuel env dinode self xal)) = core xal"
  "core (snd (process_dinode_file_extents env dinode self xal)) = core xal"
  by (simp_all add: process_dinode_file_btree_root_def process_dinode_file_extents_def Let_def
      snd_bind_st [of core] snd_for_st [of core])

lemma core_visit_children:
  assumes "\<And>ino self xal. core (snd (pi ino self xal)) = core xal"
  shows "core (snd (visit_children pi sp self xal)) = core xal"
  by (simp add: visit_children_def visit_child_def Let_def assms snd_for_st [of core] split: option.split)

lemma core_dir_forms:
  assumes "\<And>ino self xal. core (snd (pi ino self xal)) = core xal"
  shows "core (snd (process_dinode_dir_local pi env dinode self xal)) = core xal"
    "core (snd (process_dinode_dir_extents pi env dinode self xal)) = core xal"
    "core (snd (process_dinode_dir_btree_root pi env dinode self xal)) = core xal"
  by (simp_all add: process_dinode_dir_local_def process_dinode_dir_extents_def Let_def
      process_dinode_dir_btree_root_def core_visit_children [OF assms] snd_bind_st [of core] snd_for_st [of core])

lemma core_process_ino [simp]: "core (snd (process_ino fuel bfuel env ino self xal)) = core xal"
proof (induction fuel arbitrary: ino self xal)
  case (Suc fuel)
  have fmt: "core (snd (process_fmt (process_ino fuel bfuel env) bfuel env dinode self x)) = core x" for dinode x
    using core_dir_forms [of "process_ino fuel bfuel env", OF Suc.IH] by (simp add: process_fmt_def Let_def)
  have "core (snd (ino_enter dinode self xal)) = core xal" for dinode by (simp add: ino_enter_def Let_def)
  then show ?case using fmt by (simp add: snd_bind_st [of core] split: sum.split)
qed simp

section \<open>The rebuild\<close>

lemma xfs_index_builds:
  assumes "xal_be_xfs_index fuel bfuel env xal = (Ok (), xal')" "pool_inv (h_inodes xal)"
  shows "index_wf xal'"
proof -
  obtain xal1 xal2 where root: "claim_root (env_os env) (clear_pools (index_enter xal)) = (Ok (), xal1)"
    and run: "process_ino fuel bfuel env (i_ino (inode_of xal1 (unat (h_root_idx xal1)))) (unat (h_root_idx xal1)) xal1
        = (Ok (), xal2)" and xal': "xal' = index_exit xal2 None"
    using assms(1) by (auto simp: xal_be_xfs_index_def Let_def bind_st_Ok_iff dest!: finish_index_Ok split: if_splits)
  note R = claim_root_ok [OF root]
  have inv: "pool_inv (h_inodes (index_enter xal))" using assms(2) by simp
  note R = R [OF inv]
  have fields: "i_ftype (inode_of xal1 0) = XAL_ODF_DIR3_FT_DIR" "i_parent (inode_of xal1 0) = XAL_POOL_IDX_NONE"
    "i_count (inode_of xal1 0) = 0" by (subst R(4), simp)+
  have "ino_post xal1 0 xal2"
    by (rule pi_okD [OF process_ino_ok]) (use run R fields in simp_all)
  then have "index_wf xal2" using root_processed [OF R(1-3) fields(1,2)] by blast
  then show ?thesis using index_wf_frame [of xal' xal2] by (simp add: xal' index_exit_frame)
qed

lemma xfs_index_bracket:
  assumes "xal_be_xfs_index fuel bfuel env xal = (r, xal')"
  shows "r = Fail EINVAL \<and> xal' = xal
    \<or> (\<exists>mid. rebuilt (index_enter xal) mid \<and> finish_index (r, mid) = (r, xal'))"
proof (cases "xfs_dinodes (be_of xal) = None")
  case True
  then show ?thesis using assms by (simp add: xal_be_xfs_index_def)
next
  case False
  let ?run = "bind_st (claim_root (env_os env) (clear_pools (index_enter xal)))
    (\<lambda>_ xal. process_ino fuel bfuel env (i_ino (inode_of xal (unat (h_root_idx xal)))) (unat (h_root_idx xal)) xal)"
  have "core (snd ?run) = core (index_enter xal)" by (simp add: snd_bind_st [of core])
  moreover have "finish_index ?run = (r, xal')" using assms False by (simp add: xal_be_xfs_index_def Let_def)
  moreover obtain r' mid where run: "?run = (r', mid)" by (rule prod.exhaust)
  ultimately have "rebuilt (index_enter xal) mid" "finish_index (r', mid) = (r, xal')"
    using rebuilt_core by (simp_all only: snd_conv)
  then show ?thesis using finish_index_fst by blast
qed

interpretation xfs_index: index_backend "xal_be_xfs_index fuel bfuel env" "\<lambda>xal. pool_inv (h_inodes xal)"
  for fuel bfuel env
  by unfold_locales (simp_all add: xfs_index_bracket xfs_index_builds)


text \<open>
  A handle for the witnesses: inode 100 is a directory with the inline entry \<open>a\<close>, inode 101 a file
  without extents.
\<close>

definition demo_dinodes :: mem where
  "demo_dinodes = (\<lambda>_. 0)(
     2 := 0x41, 5 := 1, 159 := 100, 176 := 1, 182 := 1, 185 := 0x61, 186 := 1, 190 := 101,
     514 := 0x81, 517 := 2, 671 := 101)"

definition demo_be :: xal_be_xfs where
  "demo_be = \<lparr>xfs_buf = (\<lambda>_. 0), xfs_dinodes = Some demo_dinodes,
     xfs_dinodes_map = [100 \<mapsto> 0, 101 \<mapsto> 512], xfs_ags = []\<rparr>"

definition demo_env :: xfs_env where
  "demo_env = \<lparr>dev_mdts_nbytes = 131072, dev_lba_nbytes = 512, xnvme_nvm_read = (\<lambda>_ _. None),
     kh_put_fails = (\<lambda>_. False), env_os = tiny_os, env_errno = None\<rparr>"

definition demo_xfs :: xal where
  "demo_xfs = sample_xal\<lparr>h_be := Be_xfs demo_be, h_inodes := sample_pool 0 (\<lambda>_. zero_inode),
     h_extents := sample_pool 0 (\<lambda>_. zero_extent), h_root_idx := XAL_POOL_IDX_NONE\<rparr>"

definition demo_indexed :: "unit res \<times> xal" where
  "demo_indexed = xal_index (xal_be_xfs_index 2 0 demo_env) demo_xfs"

lemma demo_index_ok: "fst demo_indexed = Ok ()"
  by code_simp

lemma demo_pool_inv: "pool_inv (h_inodes demo_xfs)"
  by (simp add: demo_xfs_def sample_pool_def pool_inv_def)


section \<open>The recursion ends\<close>

text \<open>
  Every level of the recursion has claimed at least one more inode, so the depth is bounded by the
  elements the pool has left: with more fuel than that the result does not depend on the fuel.
\<close>

definition room :: "xal \<Rightarrow> nat" where
  "room xal = unat (reserved (h_inodes xal)) - n_inodes xal"

lemma core_reserved: "core xal' = core xal \<Longrightarrow> reserved (h_inodes xal') = reserved (h_inodes xal)"
  by (simp add: core_def)

lemma room_less:
  assumes "pool_ok y" "n_inodes xal < n_inodes y" "core y = core xal"
  shows "room y < room xal"
  using assms pool_invD(1,2) [of "h_inodes y"] core_reserved [OF assms(3)]
  by (auto simp: room_def pool_ok_def)

text \<open>The two functions agree where they are called.\<close>

definition agree :: "process_ino_fn \<Rightarrow> process_ino_fn \<Rightarrow> xal \<Rightarrow> bool" where
  "agree pi pi' xal \<longleftrightarrow> (\<forall>ino c y. pool_ok y \<longrightarrow> c < n_inodes y \<longrightarrow> i_count (inode_of y c) = 0 \<longrightarrow>
     core y = core xal \<longrightarrow> n_inodes xal < n_inodes y \<longrightarrow> pi ino c y = pi' ino c y)"

lemma visit_children_cong:
  assumes pi: "pi_ok pi" "\<And>ino c y. core (snd (pi ino c y)) = core y" and s: "scanned p self xal0 xal1"
    and self: "self < n_inodes xal0" and idx: "unat (i_idx (inode_of xal0 self)) = n_inodes xal0"
    and parent: "p \<or> sp" and ag: "agree pi pi' xal0" and core: "core xal1 = core xal0"
  shows "visit_children pi sp self xal1 = visit_children pi' sp self xal1"
  unfolding visit_children_def
proof (rule for_st_upt_cong [where I = "\<lambda>k xal. visited self xal0 xal1 k xal \<and> core xal = core xal0"])
  show "visited self xal0 xal1 0 xal1 \<and> core xal1 = core xal0" using visited_start [OF s self] core by simp
next
  fix k xal assume k: "k < unat (i_count (inode_of xal1 self))"
    and I: "visited self xal0 xal1 k xal \<and> core xal = core xal0"
  obtain c i where
    st: "\<And>pi. visit_child pi sp self k xal = pi (i_ino i) c (put_inode xal c i)"
    "pool_ok (put_inode xal c i)" "c < n_inodes (put_inode xal c i)" "i_count (inode_of (put_inode xal c i) c) = 0"
    "n_inodes xal0 < n_inodes xal"
    "\<And>xal'. ino_post (put_inode xal c i) c xal' \<Longrightarrow> visited self xal0 xal1 (Suc k) xal'"
    by (rule visit_child_step [OF s self idx parent k conjunct1 [OF I]], rule that)
  show "visit_child pi sp self k xal = visit_child pi' sp self k xal"
  proof -
    have "core (put_inode xal c i) = core xal0" using I by simp
    moreover have "n_inodes xal0 < n_inodes (put_inode xal c i)" using st(5) by simp
    ultimately have "pi (i_ino i) c (put_inode xal c i) = pi' (i_ino i) c (put_inode xal c i)"
      using ag st(2-4) unfolding agree_def by blast
    then show ?thesis by (simp only: st(1))
  qed
  show "visited self xal0 xal1 (Suc k) t \<and> core t = core xal0" if "visit_child pi sp self k xal = (Ok (), t)" for t
  proof -
    have run: "pi (i_ino i) c (put_inode xal c i) = (Ok (), t)" using that st(1) by simp
    have "core t = core xal0" using pi(2) [of "i_ino i" c "put_inode xal c i"] run I by simp
    then show ?thesis using st(6) [OF pi_okD [OF pi(1) run st(2-4)]] by simp
  qed
qed

lemma dir_cong:
  assumes "pi_ok pi" "\<And>ino c y. core (snd (pi ino c y)) = core y" "pool_ok xal" "self < n_inodes xal"
    and "agree pi pi' xal" "scanned p self (begin_dentries self xal) xal1" "p \<or> sp" "core xal1 = core xal"
  shows "visit_children pi sp self (sort_dentries self xal1) = visit_children pi' sp self (sort_dentries self xal1)"
proof -
  let ?b = "begin_dentries self xal"
  have self: "self < n_inodes ?b" using assms(4) by (simp only: begin_dentries_simps)
  have idx: "unat (i_idx (inode_of ?b self)) = n_inodes ?b"
    using unat_free_u32 [OF assms(3)] by (simp add: begin_dentries_simps)
  have "agree pi pi' ?b" using assms(5) by (simp add: agree_def begin_dentries_simps)
  then show ?thesis
    using visit_children_cong [OF assms(1,2) sort_scanned(1) [OF assms(6) self idx] self idx assms(7)] assms(8)
    by simp
qed

lemma dir_forms_cong:
  assumes pi: "pi_ok pi" "\<And>ino c y. core (snd (pi ino c y)) = core y" and ok: "pool_ok xal" "self < n_inodes xal"
    and c: "i_count (inode_of xal self) = 0" and ag: "agree pi pi' xal"
  shows "process_dinode_dir_local pi env dinode self xal = process_dinode_dir_local pi' env dinode self xal"
    "process_dinode_dir_extents pi env dinode self xal = process_dinode_dir_extents pi' env dinode self xal"
    "process_dinode_dir_btree_root pi env dinode self xal = process_dinode_dir_btree_root pi' env dinode self xal"
proof -
  note begin_s = begin_scanned [OF ok(1) c]
  note cong = dir_cong [OF pi ok ag]
  have self: "self < n_inodes (begin_dentries self xal)" using ok(2) by (simp only: begin_dentries_simps)
  have core_of: "core x = core xal" if "core (snd r) = core xal" "r = (s, x)" for r :: "'b res \<times> xal" and s x
    using that by simp
  show "process_dinode_dir_local pi env dinode self xal = process_dinode_dir_local pi' env dinode self xal"
    unfolding process_dinode_dir_local_def Let_def
  proof (rule bind_st_cong)
    fix v x
    assume r: "local_entries (unat (dinodes_of xal (dinode + DINODE_NBYTES))) env (dinodes_of xal)
        (dinodes_of xal (dinode + DINODE_NBYTES + 1) \<noteq> 0) self
        (dinode + DINODE_NBYTES + 2 + (if dinodes_of xal (dinode + DINODE_NBYTES + 1) \<noteq> 0 then 8 else 4))
        (begin_dentries self xal) = (Inr v, x)"
    show "visit_children pi True self (sort_dentries self x) = visit_children pi' True self (sort_dentries self x)"
      by (rule cong [of False, OF local_entries_scanned [OF _ self begin_s]])
         (use r in simp, simp, rule core_of [OF _ r], simp)
  qed
  show "process_dinode_dir_extents pi env dinode self xal = process_dinode_dir_extents pi' env dinode self xal"
  proof -
    have "visit_children pi False self (sort_dentries self x) = visit_children pi' False self (sort_dentries self x)"
      if r: "dir_extents n env m dinode self per i nb e (begin_dentries self xal) = (Inr v, x)" for n m per i nb e v x
      by (rule cong [of True, OF dir_extents_scanned [OF r self begin_s]]) (simp, rule core_of [OF _ r], simp)
    then show ?thesis unfolding process_dinode_dir_extents_def Let_def by (auto intro!: bind_st_cong)
  qed
  show "process_dinode_dir_btree_root pi env dinode self xal = process_dinode_dir_btree_root pi' env dinode self xal"
  proof -
    have "visit_children pi False self (sort_dentries self x) = visit_children pi' False self (sort_dentries self x)"
      if r: "for_st [0..<n] (\<lambda>rec. btree_lblock_process env self (f rec)) (begin_dentries self xal) = (Ok (), x)" for n f x
    proof (rule cong [of True])
      show "scanned True self (begin_dentries self xal) x"
        by (rule for_st_inv [where P = "scanned True self (begin_dentries self xal)", OF r begin_s])
           (rule btree_lblock_process_scanned [OF _ self])
      show "core x = core xal" by (rule core_of [OF _ r]) (simp add: snd_for_st [of core])
    qed simp
    then show ?thesis unfolding process_dinode_dir_btree_root_def Let_def by (auto intro!: bind_st_cong)
  qed
qed

lemma process_fmt_cong:
  assumes pi: "pi_ok pi" "\<And>ino c y. core (snd (pi ino c y)) = core y" and ok: "pool_ok xal" "self < n_inodes xal"
    and c: "i_count (inode_of xal self) = 0" and ag: "agree pi pi' xal"
  shows "process_fmt pi bfuel env dinode self xal = process_fmt pi' bfuel env dinode self xal"
proof -
  let ?b = "begin_dentries self xal"
  have b: "pool_ok ?b" "self < n_inodes ?b" "i_count (inode_of ?b self) = 0"
    using ok c by (simp_all add: begin_dentries_simps)
  have b4: "agree pi pi' ?b" using ag unfolding agree_def begin_dentries_simps core_pure .
  show ?thesis unfolding process_fmt_def Let_def
    by (simp only: dir_forms_cong [OF pi ok c ag] dir_forms_cong(3) [OF pi b b4])
qed

lemma process_ino_fuel:
  "pool_ok xal \<Longrightarrow> self < n_inodes xal \<Longrightarrow> i_count (inode_of xal self) = 0 \<Longrightarrow> room xal < f \<Longrightarrow> room xal < g \<Longrightarrow>
     process_ino f bfuel env ino self xal = process_ino g bfuel env ino self xal"
proof (induction f arbitrary: g ino self xal)
  case (Suc f)
  obtain h where g: "g = Suc h" using Suc.prems(5) by (cases g) auto
  have "process_fmt (process_ino f bfuel env) bfuel env dinode self y = process_fmt (process_ino h bfuel env) bfuel env dinode self y"
    if enter: "ino_enter dinode self xal = (Ok v, y)" for dinode v y
  proof -
    note E = ino_enter_only [OF enter [simplified] Suc.prems(1)]
    have y: "pool_ok y" "self < n_inodes y" "i_count (inode_of y self) = 0" "n_inodes y = n_inodes xal"
      using E Suc.prems(2,3) by (auto simp: only_self_def)
    have "core y = core xal" using enter by (auto simp: ino_enter_def Let_def split: if_splits)
    from core_reserved [OF this] have room: "room y = room xal" unfolding room_def y(4) by simp
    have "agree (process_ino f bfuel env) (process_ino h bfuel env) y" unfolding agree_def
    proof (intro allI impI)
      fix ino c z assume z: "pool_ok z" "c < n_inodes z" "i_count (inode_of z c) = 0" "core z = core y"
        "n_inodes y < n_inodes z"
      have "room z < room y" by (rule room_less [OF z(1,5,4)])
      then have "room z < f" "room z < h" using Suc.prems(4,5) room g by simp_all
      then show "process_ino f bfuel env ino c z = process_ino h bfuel env ino c z"
        by (rule Suc.IH [OF z(1-3)])
    qed
    from process_fmt_cong [OF process_ino_ok core_process_ino y(1-3) this] show ?thesis .
  qed
  then show ?case unfolding g by (auto split: sum.split intro!: bind_st_cong)
qed simp



end
