(* ===== verification/Xal_Kernel.thy ===== *)
theory Xal_Kernel
  imports Xal_Build
begin

text \<open>
  The system calls the FIEMAP backend and the watcher make. The kernel and the file system below it
  are code outside the repository and change under the program at any time, so the model takes them as
  a parameter: a state of any type \<open>'k\<close> and, for every call, what it returns and the state after it. A
  theorem about a program that is given no hypothesis on the kernel holds whatever other processes do
  to the file system meanwhile.
\<close>

section \<open>What the calls return\<close>

datatype d_type = DT_REG | DT_DIR | DT_UNKNOWN | DT_other

record dirent =
  d_name :: cstring
  d_kind :: d_type

record statx =
  stx_mode :: u16
  stx_ino :: u64
  stx_size :: u64
  stx_mount_root :: bool

record stat =
  st_mode :: u16
  st_dev :: u64
  st_ino :: u64

record fiemap_extent =
  fe_logical :: u64
  fe_physical :: u64
  fe_length :: u64
  fe_flags :: u32

text \<open>An event of the watch queue; \<open>None\<close> for the name of an event whose \<open>len\<close> is 0.\<close>

record inotify_event =
  ev_wd :: int
  ev_mask :: u32
  ev_name :: "cstring option"

datatype open_flags = O_rdonly | O_rdonly_nofollow_nonblock | O_rdwr_creat_excl

section \<open>The calls\<close>

text \<open>
  A directory is opened and read in one go: \<open>k_opendir\<close> returns the entries that the following calls
  of \<open>readdir()\<close> will return, in their order. \<open>k_fiemap fd sync n\<close> is the ioctl with room for \<open>n\<close> extents: it
  returns \<open>fm_mapped_extents\<close> and what was written to \<open>fm_extents\<close>. \<open>k_read_events\<close> returns the events of one
  \<open>read()\<close>, none at the end of the file. \<open>k_alloc n\<close> says whether \<open>n\<close> bytes can be allocated.
\<close>

record 'k kernel =
  k_os :: pool_os
  k_pid :: nat
  k_alloc :: "nat \<Rightarrow> 'k \<Rightarrow> bool \<times> 'k"
  k_statx :: "cstring \<Rightarrow> 'k \<Rightarrow> (errno + statx) \<times> 'k"
  k_statx_at :: "cstring \<Rightarrow> cstring \<Rightarrow> 'k \<Rightarrow> (errno + statx) \<times> 'k"
  k_stat :: "cstring \<Rightarrow> 'k \<Rightarrow> (errno + stat) \<times> 'k"
  k_lstat :: "cstring \<Rightarrow> 'k \<Rightarrow> (errno + stat) \<times> 'k"
  k_statfs :: "cstring \<Rightarrow> 'k \<Rightarrow> (errno + u32) \<times> 'k"
  k_opendir :: "cstring \<Rightarrow> 'k \<Rightarrow> (errno + dirent list) \<times> 'k"
  k_open :: "cstring \<Rightarrow> open_flags \<Rightarrow> 'k \<Rightarrow> (errno + int) \<times> 'k"
  k_close :: "int \<Rightarrow> 'k \<Rightarrow> 'k"
  k_fstat :: "int \<Rightarrow> 'k \<Rightarrow> (errno + stat) \<times> 'k"
  k_fiemap :: "int \<Rightarrow> bool \<Rightarrow> u32 \<Rightarrow> 'k \<Rightarrow> (errno + u32 \<times> fiemap_extent list) \<times> 'k"
  k_getflags :: "int \<Rightarrow> 'k \<Rightarrow> (errno + u32) \<times> 'k"
  k_setflags :: "int \<Rightarrow> u32 \<Rightarrow> 'k \<Rightarrow> (errno + unit) \<times> 'k"
  k_getversion :: "int \<Rightarrow> 'k \<Rightarrow> (errno + u32) \<times> 'k"
  k_ficlone :: "int \<Rightarrow> int \<Rightarrow> 'k \<Rightarrow> (errno + unit) \<times> 'k"
  k_unlink :: "cstring \<Rightarrow> 'k \<Rightarrow> (errno + unit) \<times> 'k"
  k_rmdir :: "cstring \<Rightarrow> 'k \<Rightarrow> (errno + unit) \<times> 'k"
  k_mkdir :: "cstring \<Rightarrow> 'k \<Rightarrow> (errno + unit) \<times> 'k"
  k_inotify_init1 :: "'k \<Rightarrow> (errno + int) \<times> 'k"
  k_inotify_add_watch :: "int \<Rightarrow> cstring \<Rightarrow> 'k \<Rightarrow> (errno + int) \<times> 'k"
  k_inotify_rm_watch :: "int \<Rightarrow> int \<Rightarrow> 'k \<Rightarrow> (errno + unit) \<times> 'k"
  k_read_events :: "int \<Rightarrow> 'k \<Rightarrow> (errno + inotify_event list) \<times> 'k"
  k_poll :: "int \<Rightarrow> 'k \<Rightarrow> (errno + bool) \<times> 'k"
  k_trylock :: "'k \<Rightarrow> bool \<times> 'k"
  k_mutex_init :: "'k \<Rightarrow> (errno + unit) \<times> 'k"
  k_pthread_create :: "'k \<Rightarrow> (errno + nat) \<times> 'k"
  k_pthread_join :: "nat \<Rightarrow> 'k \<Rightarrow> (errno + unit) \<times> 'k"

text \<open>
  A call made by a function that threads the handle and the kernel. \<open>need_mem\<close> is a call of \<open>malloc()\<close>,
  \<open>realloc()\<close> or \<open>strdup()\<close>, or of an operation of a hash table that may have to grow; the C library
  refuses every request above \<open>PTRDIFF_MAX\<close>.
\<close>

definition call :: "('k \<Rightarrow> (errno + 'a) \<times> 'k) \<Rightarrow> xal \<times> 'k \<Rightarrow> 'a res \<times> xal \<times> 'k" where
  "call f s =
     (case f (snd s) of
        (Inl e, k) \<Rightarrow> (Fail e, fst s, k)
      | (Inr v, k) \<Rightarrow> (Ok v, fst s, k))"

definition need_mem :: "'k kernel \<Rightarrow> nat \<Rightarrow> errno \<Rightarrow> xal \<times> 'k \<Rightarrow> unit res \<times> xal \<times> 'k" where
  "need_mem K n e s =
     (case k_alloc K n (snd s) of
        (granted, k) \<Rightarrow> (if granted \<and> int n < 2 ^ 63 then Ok () else Fail e, fst s, k))"

definition on_kernel :: "('k \<Rightarrow> 'k) \<Rightarrow> xal \<times> 'k \<Rightarrow> xal \<times> 'k" where
  "on_kernel f s = (fst s, f (snd s))"

definition on_xal :: "(xal \<Rightarrow> xal) \<Rightarrow> xal \<times> 'k \<Rightarrow> xal \<times> 'k" where
  "on_xal f s = (f (fst s), snd s)"

text \<open>The FIEMAP backend of a handle; its functions are only called on handles that have one.\<close>

definition no_be_fiemap :: xal_be_fiemap where
  "no_be_fiemap = \<lparr>f_mountpoint = [], f_subtree = None, f_inotify = None, f_path_inode_map = None, f_reflink = None\<rparr>"

definition fbe_of :: "xal \<Rightarrow> xal_be_fiemap" where
  "fbe_of xal = (case h_be xal of Be_fiemap be \<Rightarrow> be | _ \<Rightarrow> no_be_fiemap)"

definition set_fbe :: "xal \<Rightarrow> xal_be_fiemap \<Rightarrow> xal" where
  "set_fbe xal be = xal\<lparr>h_be := Be_fiemap be\<rparr>"

section \<open>Names and numbers in paths\<close>

definition path_join :: "cstring \<Rightarrow> cstring \<Rightarrow> cstring" where
  "path_join dir nm = dir @ slash # nm"

text \<open>The decimal digits of \<open>%u\<close>, \<open>%d\<close> and \<open>%llu\<close>.\<close>

fun dec_digits :: "nat \<Rightarrow> cstring" where
  "dec_digits n = (if n < 10 then [of_nat (48 + n)] else dec_digits (n div 10) @ [of_nat (48 + n mod 10)])"

declare dec_digits.simps [simp del]

definition XAL_SNAPSHOT_PREFIX :: cstring where
  "XAL_SNAPSHOT_PREFIX = str ''.xal_snapshot.''"

abbreviation (input) XAL_PATH_MAXLEN :: nat where "XAL_PATH_MAXLEN \<equiv> 255"
abbreviation (input) XAL_SNAPSHOT_ENTRY_MAXLEN :: nat where "XAL_SNAPSHOT_ENTRY_MAXLEN \<equiv> XAL_PATH_MAXLEN + 64"
abbreviation (input) XAL_INODE_NAME_MAXLEN :: nat where "XAL_INODE_NAME_MAXLEN \<equiv> 255"

text \<open>A directory entry that a walk leaves out: a symlink, a special file or the root of another mount.\<close>

definition skipped_kind :: "statx \<Rightarrow> bool" where
  "skipped_kind stx \<longleftrightarrow> stx_mount_root stx \<or> \<not> S_ISDIR (stx_mode stx) \<and> \<not> S_ISREG (stx_mode stx)"

section \<open>What the calls leave alone\<close>

lemma fst_call [simp]: "fst (snd (call f s)) = fst s"
  by (simp add: call_def split: prod.split sum.split)

lemma fst_need_mem [simp]: "fst (snd (need_mem K n e s)) = fst s"
  by (simp add: need_mem_def split: prod.split)

lemma call_xal: "call f s = (r, s') \<Longrightarrow> fst s' = fst s"
  using fst_call [of f s] by simp

lemma need_mem_xal: "need_mem K n e s = (r, s') \<Longrightarrow> fst s' = fst s"
  using fst_need_mem [of K n e s] by simp

lemma need_mem_bound: "need_mem K n e s = (Ok v, s') \<Longrightarrow> n < 2 ^ 63"
  by (auto simp: need_mem_def split: prod.splits if_splits)

lemma on_kernel_simps [simp]: "fst (on_kernel f s) = fst s" "snd (on_kernel f s) = f (snd s)"
  by (simp_all add: on_kernel_def)

lemma on_xal_simps [simp]: "fst (on_xal f s) = f (fst s)" "snd (on_xal f s) = snd s"
  by (simp_all add: on_xal_def)

lemma set_fbe_simps [simp]:
  "h_inodes (set_fbe xal be) = h_inodes xal" "h_extents (set_fbe xal be) = h_extents xal"
  "h_root_idx (set_fbe xal be) = h_root_idx xal" "h_sb (set_fbe xal be) = h_sb xal"
  "fbe_of (set_fbe xal be) = be" "core (set_fbe xal be) = core xal"
  by (simp_all add: set_fbe_def fbe_of_def core_def)

lemma fbe_of_put [simp]: "fbe_of (put_inode xal i v) = fbe_of xal" "fbe_of (put_extent xal i e) = fbe_of xal"
  by (simp_all add: fbe_of_def)

lemma fbe_of_update [simp]:
  "fbe_of (xal\<lparr>h_inodes := p\<rparr>) = fbe_of xal" "fbe_of (xal\<lparr>h_extents := q\<rparr>) = fbe_of xal"
  by (simp_all add: fbe_of_def)

end
