(* ===== verification/Xal_Reflink.thy ===== *)
theory Xal_Reflink
  imports Xal_Kernel
begin

text \<open>
  The parts of \<open>src/src/xal_be_fiemap.c\<close> that keep state beside the pools: the map from paths to inodes, and
  the shadow directory that holds a reflink clone of every indexed file in the mode
  \<open>XAL_WATCHMODE_REFLINK_SNAPSHOT\<close>. The map is a function from paths to pool elements; its keys are the
  map's own copies, so only their contents matter.
\<close>

section \<open>The path map\<close>

text \<open>
  \<open>kh_put()\<close> may have to grow the table; how much it asks for is its own business, hence the size 0.
\<close>

definition path_map_insert :: "'k kernel \<Rightarrow> cstring \<Rightarrow> nat \<Rightarrow> xal \<times> 'k \<Rightarrow> unit res \<times> xal \<times> 'k" where
  "path_map_insert K path inode s =
     bind_st (need_mem K (length path + 1) ENOMEM s)
       (\<lambda>_ s. bind_st (need_mem K 0 ENOMEM s)
          (\<lambda>_ s. (Ok (), on_xal (\<lambda>xal. set_fbe xal ((fbe_of xal)\<lparr>f_path_inode_map :=
             map_option (\<lambda>m. m(path \<mapsto> inode)) (f_path_inode_map (fbe_of xal))\<rparr>)) s)))"

definition path_map_clear :: "(cstring \<Rightarrow> nat option) option \<Rightarrow> (cstring \<Rightarrow> nat option) option" where
  "path_map_clear m = (case m of None \<Rightarrow> None | Some _ \<Rightarrow> Some (\<lambda>_. None))"

definition path_map_destroy :: "xal \<Rightarrow> xal" where
  "path_map_destroy xal = set_fbe xal ((fbe_of xal)\<lparr>f_path_inode_map := None\<rparr>)"

section \<open>Clones\<close>

abbreviation (input) FS_IMMUTABLE_FL :: u32 where "FS_IMMUTABLE_FL \<equiv> 0x10"

definition reflink_chattr_immutable :: "'k kernel \<Rightarrow> int \<Rightarrow> bool \<Rightarrow> 'k \<Rightarrow> (errno + unit) \<times> 'k" where
  "reflink_chattr_immutable K fd enable k =
     (case k_getflags K fd k of
        (Inl e, k) \<Rightarrow> (Inl e, k)
      | (Inr attr, k) \<Rightarrow>
          k_setflags K fd (if enable then attr OR FS_IMMUTABLE_FL else attr AND NOT FS_IMMUTABLE_FL) k)"

definition is_directory_member :: "cstring \<Rightarrow> bool" where
  "is_directory_member nm \<longleftrightarrow> nm \<noteq> [dot] \<and> nm \<noteq> [dot, dot]"

definition purge_entry :: "'k kernel \<Rightarrow> cstring \<Rightarrow> dirent \<Rightarrow> 'k \<Rightarrow> 'k" where
  "purge_entry K dir e k =
     (let path = path_join dir (d_name e)
      in if \<not> is_directory_member (d_name e) \<or> XAL_SNAPSHOT_ENTRY_MAXLEN \<le> length path then k
         else
           snd (k_unlink K path
             (case k_open K path O_rdonly k of
                (Inl _, k) \<Rightarrow> k
              | (Inr fd, k) \<Rightarrow> k_close K fd (snd (reflink_chattr_immutable K fd False k)))))"

definition reflink_dir_purge :: "'k kernel \<Rightarrow> cstring \<Rightarrow> 'k \<Rightarrow> 'k" where
  "reflink_dir_purge K dir k =
     (case k_opendir K dir k of
        (Inl _, k) \<Rightarrow> k
      | (Inr es, k) \<Rightarrow> snd (k_rmdir K dir (fold (purge_entry K dir) es k)))"

definition is_snapshot_name :: "cstring \<Rightarrow> bool" where
  "is_snapshot_name nm \<longleftrightarrow> strncmp nm XAL_SNAPSHOT_PREFIX (length XAL_SNAPSHOT_PREFIX) = 0"

definition sweep_entry :: "'k kernel \<Rightarrow> cstring \<Rightarrow> dirent \<Rightarrow> 'k \<Rightarrow> 'k" where
  "sweep_entry K mountpoint e k =
     (let dir = path_join mountpoint (d_name e)
      in if \<not> is_snapshot_name (d_name e) \<or> XAL_SNAPSHOT_ENTRY_MAXLEN \<le> length dir then k
         else reflink_dir_purge K dir k)"

definition reflink_sweep_orphans :: "'k kernel \<Rightarrow> cstring \<Rightarrow> 'k \<Rightarrow> 'k" where
  "reflink_sweep_orphans K mountpoint k =
     (case k_opendir K mountpoint k of
        (Inl _, k) \<Rightarrow> k
      | (Inr es, k) \<Rightarrow> fold (sweep_entry K mountpoint) es k)"

definition reflink_dir_prepare :: "'k kernel \<Rightarrow> xal_reflink \<Rightarrow> 'k \<Rightarrow> (errno + xal_reflink) \<times> 'k" where
  "reflink_dir_prepare K rl k =
     (case k_mkdir K (rl_dir rl) (reflink_dir_purge K (rl_dir rl) k) of
        (Inl e, k) \<Rightarrow> (Inl e, k)
      | (Inr _, k) \<Rightarrow> (Inr (rl\<lparr>rl_dir_created := True\<rparr>), k))"

definition clone_name :: "cstring \<Rightarrow> u64 \<Rightarrow> u32 \<Rightarrow> cstring" where
  "clone_name dir ino gen = path_join dir (dec_digits (unat ino) @ dot # dec_digits (unat gen))"

text \<open>The clone proper, once its name is known.\<close>

definition make_clone :: "'k kernel \<Rightarrow> cstring \<Rightarrow> int \<Rightarrow> 'k \<Rightarrow> (errno + int) \<times> 'k" where
  "make_clone K clone_path origin_fd k =
     (case k_open K clone_path O_rdwr_creat_excl k of
        (Inl EEXIST, k) \<Rightarrow> k_open K clone_path O_rdonly k
      | (Inl e, k) \<Rightarrow> (Inl e, k)
      | (Inr cfd, k) \<Rightarrow>
          (let fail_created = (\<lambda>e k. (Inl e, snd (k_unlink K clone_path (k_close K cfd k))))
           in case k_ficlone K cfd origin_fd k of
                (Inl e, k) \<Rightarrow> fail_created e k
              | (Inr _, k) \<Rightarrow>
                  (case reflink_chattr_immutable K cfd True k of
                     (Inl e, k) \<Rightarrow> fail_created e k
                   | (Inr _, k) \<Rightarrow> (Inr cfd, k))))"

definition clone_at :: "'k kernel \<Rightarrow> cstring \<Rightarrow> int \<Rightarrow> 'k \<Rightarrow> (errno + int) \<times> 'k" where
  "clone_at K dir origin_fd k =
     (case k_fstat K origin_fd k of
        (Inl e, k) \<Rightarrow> (Inl e, k)
      | (Inr sb, k) \<Rightarrow>
          (case k_getversion K origin_fd k of
             (Inl e, k) \<Rightarrow> (Inl e, k)
           | (Inr gen, k) \<Rightarrow>
               (let clone_path = clone_name dir (st_ino sb) gen
                in if XAL_SNAPSHOT_ENTRY_MAXLEN \<le> length clone_path then (Inl ENAMETOOLONG, k)
                   else make_clone K clone_path origin_fd k)))"

definition reflink_clone_file :: "'k kernel \<Rightarrow> xal_reflink \<Rightarrow> int \<Rightarrow> xal \<times> 'k \<Rightarrow> int res \<times> xal \<times> 'k" where
  "reflink_clone_file K rl origin_fd s =
     bind_st (if rl_dir_created rl then (Ok rl, s) else call (reflink_dir_prepare K rl) s)
       (\<lambda>rl s. call (clone_at K (rl_dir rl) origin_fd)
          (on_xal (\<lambda>xal. set_fbe xal ((fbe_of xal)\<lparr>f_reflink := Some rl\<rparr>)) s))"

section \<open>Clones of different files have different names\<close>

lemma dec_digits_range: "b \<in> set (dec_digits n) \<Longrightarrow> 48 \<le> unat b \<and> unat b \<le> 57"
proof (induction n rule: dec_digits.induct)
  case (1 n)
  show ?case
  proof (cases "n < 10")
    case True
    then have "b = of_nat (48 + n)" using 1(2) by (subst (asm) dec_digits.simps) simp
    then show ?thesis using True by (simp add: unat_of_nat take_bit_nat_eq_self del: of_nat_add)
  next
    case False
    then consider "b \<in> set (dec_digits (n div 10))" | "b = of_nat (48 + n mod 10)"
      using 1(2) by (subst (asm) dec_digits.simps) auto
    then show ?thesis
    proof cases
      case 2
      have "n mod 10 < 10" by simp
      then show ?thesis using 2 by (simp add: unat_of_nat take_bit_nat_eq_self del: of_nat_add)
    qed (use 1(1) False in blast)
  qed
qed

lemma dec_digits_no_dot: "dot \<notin> set (dec_digits n)"
  using dec_digits_range [of dot n] by auto

text \<open>Reading a number back from its digits.\<close>

definition of_digits :: "cstring \<Rightarrow> nat" where
  "of_digits ds = foldl (\<lambda>n b. 10 * n + (unat b - 48)) 0 ds"

lemma of_dec_digits [simp]: "of_digits (dec_digits n) = n"
proof (induction n rule: dec_digits.induct)
  case (1 n)
  have digit: "unat (of_nat (48 + d) :: u8) - 48 = d" if "d < 10" for d
    using that by (simp add: unat_of_nat take_bit_nat_eq_self del: of_nat_add)
  show ?case
  proof (cases "n < 10")
    case True
    then show ?thesis using digit [of n] by (subst dec_digits.simps) (simp add: of_digits_def del: of_nat_add)
  next
    case False
    have "of_digits (dec_digits n) = 10 * of_digits (dec_digits (n div 10)) + n mod 10"
      using False digit [of "n mod 10"] by (subst dec_digits.simps) (simp add: of_digits_def del: of_nat_add)
    then show ?thesis using 1 False by simp
  qed
qed

lemma append_sep_eq:
  "x \<notin> set as \<Longrightarrow> x \<notin> set bs \<Longrightarrow> as @ x # cs = bs @ x # ds \<Longrightarrow> as = bs \<and> cs = ds"
  by (induction as arbitrary: bs; case_tac bs) auto

text \<open>
  Two files, or two instances of one inode number, never share a clone: the name of a clone
  determines the inode number and the generation it was made from.
\<close>

lemma clone_name_unique:
  "clone_name dir ino gen = clone_name dir ino' gen' \<longleftrightarrow> ino = ino' \<and> gen = gen'"
proof
  assume "clone_name dir ino gen = clone_name dir ino' gen'"
  then have "dec_digits (unat ino) @ dot # dec_digits (unat gen) = dec_digits (unat ino') @ dot # dec_digits (unat gen')"
    by (simp add: clone_name_def path_join_def)
  from append_sep_eq [OF dec_digits_no_dot dec_digits_no_dot this]
  have "unat ino = unat ino'" "unat gen = unat gen'" by (metis of_dec_digits)+
  then show "ino = ino' \<and> gen = gen'" by (simp add: word_unat_eq_iff)
qed simp

end
