(* ===== verification/Xal_Inotify.thy ===== *)
theory Xal_Inotify
  imports Xal_Reflink Xal_Path
begin

text \<open>
  The watcher (\<open>src/src/xal_be_fiemap_inotify.c\<close>): the watches the walk puts on directories, the
  reading of the event queue, the turns of the watch thread, and starting and reaping that thread. The flags
  \<open>JOINABLE\<close> and \<open>EXITED\<close> are two Booleans; the functions that hold \<open>lifecycle\<close> are single steps.
\<close>

section \<open>Setting up\<close>

definition set_inotify :: "xal \<Rightarrow> xal_inotify \<Rightarrow> xal" where
  "set_inotify xal ino = set_fbe xal ((fbe_of xal)\<lparr>f_inotify := Some ino\<rparr>)"

definition zero_inotify :: xal_inotify where
  "zero_inotify = \<lparr>n_watch_mode = XAL_WATCHMODE_NONE, n_fd = 0, n_inode_map = [], n_joinable = False,
     n_exited = False, n_stop = False, n_tid = 0, n_cb = False\<rparr>"

definition xal_be_fiemap_inotify_init ::
  "'k kernel \<Rightarrow> xal_watchmode \<Rightarrow> 'k \<Rightarrow> (errno + xal_inotify) \<times> 'k" where
  "xal_be_fiemap_inotify_init K watch_mode k =
     (let ino = zero_inotify\<lparr>n_watch_mode := watch_mode, n_exited := True, n_stop := False, n_fd := -1\<rparr>
      in case k_mutex_init K k of
           (Inl e, k) \<Rightarrow> (Inl e, k)
         | (Inr _, k) \<Rightarrow>
             (case k_mutex_init K k of
                (Inl e, k) \<Rightarrow> (Inl e, k)
              | (Inr _, k) \<Rightarrow>
                  if watch_mode = XAL_WATCHMODE_NONE then (Inr ino, k)
                  else
                    (case k_inotify_init1 K k of
                       (Inl e, k) \<Rightarrow> (Inl e, k)
                     | (Inr fd, k) \<Rightarrow>
                         (case k_alloc K 0 k of
                            (True, k) \<Rightarrow> (Inr (ino\<lparr>n_fd := fd\<rparr>), k)
                          | (False, k) \<Rightarrow> (Inl EINVAL, k_close K fd k)))))"

section \<open>Watches\<close>

definition xal_be_fiemap_inotify_clear_inode_map :: "'k kernel \<Rightarrow> xal_inotify \<Rightarrow> xal \<times> 'k \<Rightarrow> unit res \<times> xal \<times> 'k" where
  "xal_be_fiemap_inotify_clear_inode_map K ino s =
     (Ok (), on_xal (\<lambda>xal. set_inotify xal (ino\<lparr>n_inode_map := []\<rparr>))
        (on_kernel (fold (\<lambda>w k. snd (k_inotify_rm_watch K (n_fd ino) (fst w) k)) (n_inode_map ino)) s))"

text \<open>
  The queue may be refilled while it is read, so the reading is counted by fuel.
\<close>

fun xal_be_fiemap_inotify_drain :: "nat \<Rightarrow> 'k kernel \<Rightarrow> xal_inotify \<Rightarrow> xal \<times> 'k \<Rightarrow> unit res \<times> xal \<times> 'k" where
  "xal_be_fiemap_inotify_drain 0 K ino s = (Inl Out_of_fuel, s)"
| "xal_be_fiemap_inotify_drain (Suc fuel) K ino s =
     (case call (k_read_events K (n_fd ino)) s of
        (Inl (Errno EAGAIN), s) \<Rightarrow> (Ok (), s)
      | (Inl e, s) \<Rightarrow> (Inl e, s)
      | (Inr [], s) \<Rightarrow> (Ok (), s)
      | (Inr (_ # _), s) \<Rightarrow> xal_be_fiemap_inotify_drain fuel K ino s)"

definition xal_be_fiemap_inotify_add_watcher ::
  "'k kernel \<Rightarrow> xal_inotify \<Rightarrow> cstring \<Rightarrow> nat \<Rightarrow> xal \<times> 'k \<Rightarrow> unit res \<times> xal \<times> 'k" where
  "xal_be_fiemap_inotify_add_watcher K ino path inode s =
     (if n_watch_mode ino = XAL_WATCHMODE_NONE then (Ok (), s)
      else
        bind_st (call (k_inotify_add_watch K (n_fd ino) path) s)
          (\<lambda>wd s. bind_st (need_mem K 0 EIO s)
             (\<lambda>_ s. (Ok (), on_xal (\<lambda>xal. set_inotify xal
                (ino\<lparr>n_inode_map := (wd, inode) # filter (\<lambda>w. fst w \<noteq> wd) (n_inode_map ino)\<rparr>)) s))))"

section \<open>Events\<close>

abbreviation (input) IN_UNMOUNT :: u32 where "IN_UNMOUNT \<equiv> 0x2000"
abbreviation (input) IN_Q_OVERFLOW :: u32 where "IN_Q_OVERFLOW \<equiv> 0x4000"
abbreviation (input) IN_IGNORED :: u32 where "IN_IGNORED \<equiv> 0x8000"

text \<open>
  The lookup runs with \<open>index_lock\<close> held, so the sequence lock that \<open>xal_inode_path()\<close> reads twice does not
  move meanwhile. \<open>None\<close> for the inode says that the directory has no such entry.
\<close>

definition event_entry :: "xal \<Rightarrow> xal_inotify \<Rightarrow> int \<Rightarrow> cstring \<Rightarrow> (nat option \<times> cstring) res" where
  "event_entry xal ino wd nm =
     (case map_of (n_inode_map ino) wd of
        None \<Rightarrow> Fail ENOENT
      | Some dir \<Rightarrow>
          if \<not> xal_inode_is_dir (inode_of xal dir) then Fail ENOENT
          else
            bind_res (xal_inode_path (Some xal) (Some dir) (XAL_INODE_PATH_MAXLEN + 1) (xal_get_seq_lock xal))
              (\<lambda>path. if XAL_INODE_PATH_MAXLEN + 1 < length path + 1 + length nm + 1 then Fail ENAMETOOLONG
                 else
                   (let span_idx = i_idx (inode_of xal dir); span_count = i_count (inode_of xal dir)
                    in if span_stale xal span_idx span_count then Fail ESTALE
                       else Ok (span_search xal nm span_idx span_count, path @ slash # nm))))"

definition path_is_skipped :: "'k kernel \<Rightarrow> cstring \<Rightarrow> 'k \<Rightarrow> bool \<times> 'k" where
  "path_is_skipped K path k =
     (case k_statx K path k of (Inl _, k) \<Rightarrow> (False, k) | (Inr stx, k) \<Rightarrow> (skipped_kind stx, k))"

text \<open>One event: \<open>Ok False\<close> when it is passed over, \<open>Ok True\<close> when the index must be rebuilt.\<close>

definition check_event :: "'k kernel \<Rightarrow> xal_inotify \<Rightarrow> xal \<Rightarrow> inotify_event \<Rightarrow> 'k \<Rightarrow> bool res \<times> 'k" where
  "check_event K ino xal event k =
     (if ev_mask event AND IN_Q_OVERFLOW \<noteq> 0 then (Ok True, k)
      else if ev_mask event AND IN_IGNORED \<noteq> 0 then (Ok False, k)
      else if ev_mask event AND IN_UNMOUNT \<noteq> 0 then (Fail EINVAL, k)
      else
        (case ev_name event of
           None \<Rightarrow> (Ok True, k)
         | Some nm \<Rightarrow>
             if is_snapshot_name nm then (Ok False, k)
             else if h_indexing xal then (Ok True, k)
             else
               (case k_trylock K k of
                  (False, k) \<Rightarrow> (Ok True, k)
                | (True, k) \<Rightarrow>
                    (case event_entry xal ino (ev_wd event) nm of
                       Inr (None, path) \<Rightarrow> (case path_is_skipped K path k of (skip, k) \<Rightarrow> (Ok (\<not> skip), k))
                     | _ \<Rightarrow> (Ok True, k)))))"

fun check_buf :: "'k kernel \<Rightarrow> xal_inotify \<Rightarrow> xal \<Rightarrow> inotify_event list \<Rightarrow> 'k \<Rightarrow> bool res \<times> 'k" where
  "check_buf K ino xal [] k = (Ok False, k)"
| "check_buf K ino xal (event # events) k =
     bind_st (check_event K ino xal event k)
       (\<lambda>changed k. if changed then (Ok True, k) else check_buf K ino xal events k)"

fun check_events :: "nat \<Rightarrow> 'k kernel \<Rightarrow> xal_inotify \<Rightarrow> xal \<Rightarrow> 'k \<Rightarrow> bool res \<times> 'k" where
  "check_events 0 K ino xal k = (Inl Out_of_fuel, k)"
| "check_events (Suc fuel) K ino xal k =
     (case k_read_events K (n_fd ino) k of
        (Inl EAGAIN, k) \<Rightarrow> (Ok False, k)
      | (Inl e, k) \<Rightarrow> (Fail e, k)
      | (Inr [], k) \<Rightarrow> (Ok False, k)
      | (Inr events, k) \<Rightarrow>
          bind_st (check_buf K ino xal events k)
            (\<lambda>changed k. if changed then (Ok True, k) else check_events fuel K ino xal k))"

section \<open>The watch thread\<close>

text \<open>
  One turn of the loop in \<open>background_thread_start()\<close>, labelled by what it did: it waited, it called the
  callback at a version and remembered one (\<open>cb_seq\<close>), it forgot the version it remembered, or it left
  the loop. \<open>cb_seq\<close> is an \<open>int\<close> that starts as -1 and is compared with the 32 bits of the sequence lock. The
  callback may do anything to the handle, which includes rebuilding the index.
\<close>

datatype turn = Waited | Fired u32 u32 | Rearmed bool | Left fault

definition poll_events :: "nat \<Rightarrow> 'k kernel \<Rightarrow> xal_inotify \<Rightarrow> xal \<Rightarrow> 'k \<Rightarrow> bool res \<times> 'k" where
  "poll_events fuel K ino xal k =
     (case k_poll K (n_fd ino) k of
        (Inl EINTR, k) \<Rightarrow> (Ok False, k)
      | (Inl e, k) \<Rightarrow> (Fail e, k)
      | (Inr False, k) \<Rightarrow> (Ok False, k)
      | (Inr True, k) \<Rightarrow> check_events fuel K ino xal k)"

definition watch_turn ::
  "nat \<Rightarrow> 'k kernel \<Rightarrow> (xal \<times> 'k \<Rightarrow> xal \<times> 'k) \<Rightarrow> xal_inotify \<Rightarrow> u32 \<Rightarrow> xal \<times> 'k \<Rightarrow> turn \<times> u32 \<times> xal \<times> 'k" where
  "watch_turn fuel K cb ino cb_seq s =
     (case h_index_state (fst s) of
        XAL_STATE_INDEXING \<Rightarrow> (Waited, cb_seq, s)
      | XAL_STATE_DIRTY \<Rightarrow>
          (let seq = xal_get_seq_lock (fst s)
           in if \<not> is_odd seq \<and> seq \<noteq> cb_seq then
                (let s = (if n_cb ino then cb s else s);
                     cb_seq = (if h_last_err (fst s) \<noteq> None then xal_get_seq_lock (fst s) else seq)
                 in (Fired seq cb_seq, cb_seq, s))
              else
                (case poll_events fuel K ino (fst s) (snd s) of
                   (Inl e, k) \<Rightarrow> (Left e, cb_seq, xal_mark_dirty (fst s), k)
                 | (Inr True, k) \<Rightarrow> (Rearmed True, -1, fst s, k)
                 | (Inr False, k) \<Rightarrow> (Waited, cb_seq, fst s, k)))
      | XAL_STATE_CLEAN \<Rightarrow>
          (case poll_events fuel K ino (fst s) (snd s) of
             (Inl e, k) \<Rightarrow> (Left e, -1, xal_mark_dirty (fst s), k)
           | (Inr changed, k) \<Rightarrow> (Rearmed changed, -1, if changed then xal_mark_dirty (fst s) else fst s, k)))"

text \<open>
  The turns of a thread, from the start of the loop to some moment. Between two turns other threads and
  processes do to the handle and the kernel what they like.
\<close>

inductive watch_run :: "nat \<Rightarrow> 'k kernel \<Rightarrow> (xal \<times> 'k \<Rightarrow> xal \<times> 'k) \<Rightarrow> turn list \<Rightarrow> u32 \<Rightarrow> bool"
  for fuel K cb where
  start: "watch_run fuel K cb [] (-1)"
| turn: "watch_run fuel K cb ts cb_seq \<Longrightarrow> (\<forall>e. Left e \<notin> set ts) \<Longrightarrow> watch_turn fuel K cb ino cb_seq s = (t, cb_seq', s') \<Longrightarrow>
     watch_run fuel K cb (ts @ [t]) cb_seq'"

section \<open>Starting and reaping the thread\<close>

definition xal_be_fiemap_inotify_is_live :: "xal_inotify \<Rightarrow> bool" where
  "xal_be_fiemap_inotify_is_live ino \<longleftrightarrow> \<not> n_exited ino"

definition inotify_claim_join :: "nat \<Rightarrow> bool \<Rightarrow> xal_inotify \<Rightarrow> (errno + nat) \<times> xal_inotify" where
  "inotify_claim_join self request_stop ino =
     (if n_joinable ino then
        if self = n_tid ino then (Inl EDEADLK, ino)
        else
          (Inr (n_tid ino),
           ino\<lparr>n_joinable := False, n_stop := (if request_stop then True else n_stop ino)\<rparr>)
      else (Inl EINVAL, ino))"

text \<open>
  The critical section of \<open>xal_watch_filesystem()\<close> in three parts, since the thread it creates runs at once:
  reaping a thread that has exited, the stores before \<open>pthread_create()\<close>, and the stores after it.
\<close>

definition watch_reap :: "xal_inotify \<Rightarrow> nat option \<times> xal_inotify" where
  "watch_reap ino = (if n_joinable ino then (Some (n_tid ino), ino\<lparr>n_joinable := False\<rparr>) else (None, ino))"

definition watch_arm :: "bool \<Rightarrow> xal_inotify \<Rightarrow> xal_inotify" where
  "watch_arm cb ino = ino\<lparr>n_cb := cb, n_stop := False, n_exited := False\<rparr>"

definition watch_publish :: "errno + nat \<Rightarrow> xal_inotify \<Rightarrow> xal_inotify" where
  "watch_publish r ino =
     (case r of Inl _ \<Rightarrow> ino\<lparr>n_exited := True\<rparr> | Inr tid \<Rightarrow> ino\<lparr>n_tid := tid, n_joinable := True\<rparr>)"

definition xal_watch_filesystem :: "'k kernel \<Rightarrow> bool \<Rightarrow> xal \<times> 'k \<Rightarrow> unit res \<times> xal \<times> 'k" where
  "xal_watch_filesystem K cb s =
     (case h_be (fst s) of
        Be_fiemap be \<Rightarrow>
          (case f_inotify be of
             None \<Rightarrow> (Fail EINVAL, s)
           | Some ino \<Rightarrow>
               if n_watch_mode ino = XAL_WATCHMODE_NONE then (Fail EINVAL, s)
               else if h_root_idx (fst s) = XAL_POOL_IDX_NONE then (Fail EINVAL, s)
               else
                 (case h_last_err (fst s) of
                    Some e \<Rightarrow> (Fail e, s)
                  | None \<Rightarrow>
                      if xal_be_fiemap_inotify_is_live ino then (Ok (), s)
                      else
                        (let (old, ino) = watch_reap ino;
                             s = (case old of None \<Rightarrow> s | Some t \<Rightarrow> on_kernel (\<lambda>k. snd (k_pthread_join K t k)) s);
                             (r, k) = k_pthread_create K (snd s)
                         in (case r of Inl e \<Rightarrow> Fail e | Inr _ \<Rightarrow> Ok (),
                             set_inotify (fst s) (watch_publish r (watch_arm cb ino)), k))))
      | _ \<Rightarrow> (Fail EINVAL, s))"

definition xal_stop_watching_filesystem :: "'k kernel \<Rightarrow> nat \<Rightarrow> xal \<times> 'k \<Rightarrow> unit res \<times> xal \<times> 'k" where
  "xal_stop_watching_filesystem K self s =
     (case h_be (fst s) of
        Be_fiemap be \<Rightarrow>
          (case f_inotify be of
             None \<Rightarrow> (Fail EINVAL, s)
           | Some ino \<Rightarrow>
               if n_watch_mode ino = XAL_WATCHMODE_NONE then (Fail EINVAL, s)
               else
                 (case inotify_claim_join self True ino of
                    (Inl e, ino) \<Rightarrow> (Fail e, on_xal (\<lambda>xal. set_inotify xal ino) s)
                  | (Inr tid, ino) \<Rightarrow> call (k_pthread_join K tid) (on_xal (\<lambda>xal. set_inotify xal ino) s)))
      | _ \<Rightarrow> (Fail EINVAL, s))"

definition xal_be_fiemap_inotify_close :: "'k kernel \<Rightarrow> nat \<Rightarrow> xal_inotify \<Rightarrow> 'k \<Rightarrow> 'k" where
  "xal_be_fiemap_inotify_close K self ino k =
     (let k = (case inotify_claim_join self True ino of
                 (Inl _, _) \<Rightarrow> k
               | (Inr tid, _) \<Rightarrow> snd (k_pthread_join K tid k))
      in if 0 \<le> n_fd ino then k_close K (n_fd ino) k else k)"

text \<open>
  The life of watch threads. A reaper claims a thread and joins it later, outside the lock; a join
  returns when the thread is dead. A start that finds a joinable thread joins it itself. The thread raises \<open>EXITED\<close>
  before it dies.
\<close>

datatype thread = Unborn | Running | Leaving | Dead | Joined

record life =
  l_ino :: xal_inotify
  l_threads :: "nat \<Rightarrow> thread"
  l_claims :: "nat \<Rightarrow> nat option"

inductive lstep :: "life \<Rightarrow> life \<Rightarrow> bool" where
  start: "\<not> xal_be_fiemap_inotify_is_live (l_ino l) \<Longrightarrow> watch_reap (l_ino l) = (old, ino) \<Longrightarrow>
     (\<forall>t. old = Some t \<longrightarrow> l_threads l t = Dead) \<Longrightarrow> l_threads l new = Unborn \<Longrightarrow>
     lstep l (l\<lparr>l_ino := watch_publish (Inr new) (watch_arm cb ino),
       l_threads := (case old of None \<Rightarrow> l_threads l | Some t \<Rightarrow> (l_threads l)(t := Joined))(new := Running)\<rparr>)"
| no_start: "\<not> xal_be_fiemap_inotify_is_live (l_ino l) \<Longrightarrow> watch_reap (l_ino l) = (old, ino) \<Longrightarrow>
     (\<forall>t. old = Some t \<longrightarrow> l_threads l t = Dead) \<Longrightarrow>
     lstep l (l\<lparr>l_ino := watch_publish (Inl e) (watch_arm cb ino),
       l_threads := (case old of None \<Rightarrow> l_threads l | Some t \<Rightarrow> (l_threads l)(t := Joined))\<rparr>)"
| claim: "l_claims l r = None \<Longrightarrow> inotify_claim_join self stop (l_ino l) = (Inr tid, ino) \<Longrightarrow>
     lstep l (l\<lparr>l_ino := ino, l_claims := (l_claims l)(r \<mapsto> tid)\<rparr>)"
| join: "l_claims l r = Some t \<Longrightarrow> l_threads l t = Dead \<Longrightarrow>
     lstep l (l\<lparr>l_threads := (l_threads l)(t := Joined), l_claims := (l_claims l)(r := None)\<rparr>)"
| exited: "l_threads l t = Running \<Longrightarrow>
     lstep l (l\<lparr>l_ino := (l_ino l)\<lparr>n_exited := True\<rparr>, l_threads := (l_threads l)(t := Leaving)\<rparr>)"
| dies: "l_threads l t = Leaving \<Longrightarrow> lstep l (l\<lparr>l_threads := (l_threads l)(t := Dead)\<rparr>)"

definition l_init :: "xal_inotify \<Rightarrow> life" where
  "l_init ino = \<lparr>l_ino = ino, l_threads = (\<lambda>_. Unborn), l_claims = (\<lambda>_. None)\<rparr>"

inductive lreach :: "xal_inotify \<Rightarrow> life \<Rightarrow> bool" for ino where
  init: "n_exited ino \<Longrightarrow> \<not> n_joinable ino \<Longrightarrow> lreach ino (l_init ino)"
| step: "lreach ino l \<Longrightarrow> lstep l l' \<Longrightarrow> lreach ino l'"

section \<open>A thread is reaped once\<close>

definition owed :: "life \<Rightarrow> nat \<Rightarrow> bool" where
  "owed l t \<longleftrightarrow> l_threads l t \<in> {Running, Leaving, Dead}"

definition l_inv :: "life \<Rightarrow> bool" where
  "l_inv l \<longleftrightarrow>
     (\<forall>t. l_threads l t = Running \<longrightarrow> t = n_tid (l_ino l) \<and> \<not> n_exited (l_ino l))
     \<and> (\<not> n_exited (l_ino l) \<longrightarrow> l_threads l (n_tid (l_ino l)) = Running)
     \<and> (n_joinable (l_ino l) \<longrightarrow> owed l (n_tid (l_ino l)))
     \<and> (\<forall>r t. l_claims l r = Some t \<longrightarrow> owed l t \<and> \<not> (n_joinable (l_ino l) \<and> t = n_tid (l_ino l)))
     \<and> (\<forall>r r' t. l_claims l r = Some t \<longrightarrow> l_claims l r' = Some t \<longrightarrow> r = r')"

lemma l_invD:
  assumes "l_inv l"
  shows "\<And>t. l_threads l t = Running \<Longrightarrow> t = n_tid (l_ino l) \<and> \<not> n_exited (l_ino l)"
    "\<not> n_exited (l_ino l) \<Longrightarrow> l_threads l (n_tid (l_ino l)) = Running"
    "n_joinable (l_ino l) \<Longrightarrow> owed l (n_tid (l_ino l))"
    "\<And>r t. l_claims l r = Some t \<Longrightarrow> owed l t"
    "\<And>r t. l_claims l r = Some t \<Longrightarrow> n_joinable (l_ino l) \<Longrightarrow> t \<noteq> n_tid (l_ino l)"
    "\<And>r r' t. l_claims l r = Some t \<Longrightarrow> l_claims l r' = Some t \<Longrightarrow> r = r'"
  using assms unfolding l_inv_def by blast+

lemma l_invI:
  assumes "\<And>t. l_threads l t = Running \<Longrightarrow> t = n_tid (l_ino l) \<and> \<not> n_exited (l_ino l)"
    "\<not> n_exited (l_ino l) \<Longrightarrow> l_threads l (n_tid (l_ino l)) = Running"
    "n_joinable (l_ino l) \<Longrightarrow> owed l (n_tid (l_ino l))"
    "\<And>r t. l_claims l r = Some t \<Longrightarrow> owed l t"
    "\<And>r t. l_claims l r = Some t \<Longrightarrow> n_joinable (l_ino l) \<Longrightarrow> t \<noteq> n_tid (l_ino l)"
    "\<And>r r' t. l_claims l r = Some t \<Longrightarrow> l_claims l r' = Some t \<Longrightarrow> r = r'"
  shows "l_inv l"
  using assms unfolding l_inv_def by blast

text \<open>What a start finds after it has reaped the thread before.\<close>

definition reaped :: "life \<Rightarrow> nat option \<Rightarrow> nat \<Rightarrow> thread" where
  "reaped l old = (case old of None \<Rightarrow> l_threads l | Some t \<Rightarrow> (l_threads l)(t := Joined))"

lemma l_inv_reaped:
  assumes "l_inv l" "\<not> xal_be_fiemap_inotify_is_live (l_ino l)" "watch_reap (l_ino l) = (old, ino)"
  shows "reaped l old t \<noteq> Running" "l_claims l r = Some t \<Longrightarrow> reaped l old t = l_threads l t"
    "\<not> n_joinable ino" "reaped l old t = Unborn \<longleftrightarrow> l_threads l t = Unborn"
proof -
  have exited: "n_exited (l_ino l)" using assms(2) by (simp add: xal_be_fiemap_inotify_is_live_def)
  have old: "old = (if n_joinable (l_ino l) then Some (n_tid (l_ino l)) else None)" "\<not> n_joinable ino"
    using assms(3) by (auto simp: watch_reap_def split: if_splits)
  show "reaped l old t \<noteq> Running" using l_invD(1) [OF assms(1), of t] exited by (auto simp: reaped_def old)
  show "reaped l old t = l_threads l t" if "l_claims l r = Some t"
    using l_invD(5) [OF assms(1) that] by (auto simp: reaped_def old)
  show "\<not> n_joinable ino" by (rule old(2))
  show "reaped l old t = Unborn \<longleftrightarrow> l_threads l t = Unborn"
    using l_invD(3) [OF assms(1)] by (auto simp: reaped_def old owed_def)
qed

lemma owed_upd: "owed (l\<lparr>l_ino := i, l_threads := f, l_claims := c\<rparr>) t \<longleftrightarrow> f t \<in> {Running, Leaving, Dead}"
  by (simp add: owed_def)

lemma l_inv_start:
  assumes "\<not> xal_be_fiemap_inotify_is_live (l_ino l)" "watch_reap (l_ino l) = (old, ino)"
    "\<forall>t. old = Some t \<longrightarrow> l_threads l t = Dead" "l_threads l new = Unborn" "l_inv l"
  shows "l_inv (l\<lparr>l_ino := watch_publish (Inr new) (watch_arm cb ino),
    l_threads := (case old of None \<Rightarrow> l_threads l | Some t \<Rightarrow> (l_threads l)(t := Joined))(new := Running)\<rparr>)"
proof -
  note R = l_inv_reaped [OF assms(5,1,2)] and D = l_invD [OF assms(5)]
  have owed: "reaped l old t \<in> {Running, Leaving, Dead} \<and> t \<noteq> new" if "l_claims l r = Some t" for r t
    using D(4) [OF that] R(2) [OF that] assms(4) by (auto simp: owed_def)
  show ?thesis unfolding reaped_def [symmetric]
  proof (rule l_invI, goal_cases)
    case (1 t)
    then show ?case using R(1) [of t] by (auto simp: watch_publish_def watch_arm_def split: if_splits)
  next
    case (4 r t)
    then show ?case using owed [of r t] by (simp add: owed_def)
  next
    case (5 r t)
    then show ?case using owed [of r t] by (simp add: watch_publish_def)
  next
    case (6 r r' t)
    then show ?case using D(6) by simp
  qed (simp_all add: owed_def watch_publish_def watch_arm_def)
qed

lemma l_inv_no_start:
  assumes "\<not> xal_be_fiemap_inotify_is_live (l_ino l)" "watch_reap (l_ino l) = (old, ino)"
    "\<forall>t. old = Some t \<longrightarrow> l_threads l t = Dead" "l_inv l"
  shows "l_inv (l\<lparr>l_ino := watch_publish (Inl e) (watch_arm cb ino),
    l_threads := (case old of None \<Rightarrow> l_threads l | Some t \<Rightarrow> (l_threads l)(t := Joined))\<rparr>)"
proof -
  note R = l_inv_reaped [OF assms(4,1,2)] and D = l_invD [OF assms(4)]
  have owed: "reaped l old t \<in> {Running, Leaving, Dead}" if "l_claims l r = Some t" for r t
    using D(4) [OF that] R(2) [OF that] by (simp add: owed_def)
  show ?thesis unfolding reaped_def [symmetric]
    by (rule l_invI) (use R(1,3) owed D(6) in \<open>auto simp: owed_def watch_publish_def watch_arm_def\<close>)
qed

lemma l_inv_claim:
  assumes "l_claims l r = None" "inotify_claim_join self stop (l_ino l) = (Inr tid, ino)" "l_inv l"
  shows "l_inv (l\<lparr>l_ino := ino, l_claims := (l_claims l)(r \<mapsto> tid)\<rparr>)"
proof -
  have ino: "n_joinable (l_ino l)" "tid = n_tid (l_ino l)"
    "ino = (l_ino l)\<lparr>n_joinable := False, n_stop := (if stop then True else n_stop (l_ino l))\<rparr>"
    using assms(2) by (auto simp: inotify_claim_join_def split: if_splits)
  note D = l_invD [OF assms(3)]
  show ?thesis
  proof (rule l_invI, goal_cases)
    case (1 t)
    then show ?case using D(1) [of t] by (simp add: ino)
  next
    case 2
    then show ?case using D(2) by (simp add: ino)
  next
    case (4 r' t)
    then show ?case using D(4) [of r' t] D(3) [OF ino(1)] by (auto simp: owed_def ino split: if_splits)
  next
    case (6 r' r'' t)
    then show ?case using D(5) [OF _ ino(1)] D(6) [of r' t r''] by (auto simp: ino split: if_splits)
  qed (simp_all add: ino)
qed

lemma l_inv_join:
  assumes "l_claims l r = Some t" "l_threads l t = Dead" "l_inv l"
  shows "l_inv (l\<lparr>l_threads := (l_threads l)(t := Joined), l_claims := (l_claims l)(r := None)\<rparr>)"
proof -
  note D = l_invD [OF assms(3)]
  have only: "r' = r" if "l_claims l r' = Some t" for r' using D(6) [OF that assms(1)] .
  have tid: "n_joinable (l_ino l) \<Longrightarrow> t \<noteq> n_tid (l_ino l)" using D(5) [OF assms(1)] .
  have live: "\<not> n_exited (l_ino l) \<Longrightarrow> t \<noteq> n_tid (l_ino l)" using D(2) assms(2) by auto
  show ?thesis
  proof (rule l_invI, goal_cases)
    case (1 t')
    then show ?case using D(1) [of t'] by (simp split: if_splits)
  next
    case (4 r' t')
    then show ?case using D(4) [of r' t'] only by (auto simp: owed_def split: if_splits)
  next
    case (5 r' t')
    then show ?case using D(5) [of r' t'] by (simp split: if_splits)
  next
    case (6 r' r'' t')
    then show ?case using D(6) [of r' t' r''] by (simp split: if_splits)
  qed (use D(2,3) tid live in \<open>simp_all add: owed_def\<close>)
qed

lemma l_inv_exited:
  assumes "l_threads l t = Running" "l_inv l"
  shows "l_inv (l\<lparr>l_ino := (l_ino l)\<lparr>n_exited := True\<rparr>, l_threads := (l_threads l)(t := Leaving)\<rparr>)"
proof -
  note D = l_invD [OF assms(2)]
  show ?thesis
  proof (rule l_invI, goal_cases)
    case (1 t')
    then show ?case using D(1) [of t'] D(1) [OF assms(1)] by (simp split: if_splits)
  next
    case (4 r' t')
    then show ?case using D(4) [of r' t'] by (simp add: owed_def)
  next
    case (5 r' t')
    then show ?case using D(5) [of r' t'] by simp
  next
    case (6 r' r'' t')
    then show ?case using D(6) [of r' t' r''] by simp
  qed (use D(3) in \<open>simp_all add: owed_def\<close>)
qed

lemma l_inv_dies:
  assumes "l_threads l t = Leaving" "l_inv l"
  shows "l_inv (l\<lparr>l_threads := (l_threads l)(t := Dead)\<rparr>)"
proof -
  note D = l_invD [OF assms(2)]
  show ?thesis
  proof (rule l_invI, goal_cases)
    case (1 t')
    then show ?case using D(1) [of t'] by (simp split: if_splits)
  next
    case 2
    then show ?case using D(2) assms(1) by auto
  next
    case (4 r' t')
    then show ?case using D(4) [of r' t'] by (simp add: owed_def)
  next
    case (5 r' t')
    then show ?case using D(5) [of r' t'] by simp
  next
    case (6 r' r'' t')
    then show ?case using D(6) [of r' t' r''] by simp
  qed (use D(3) in \<open>simp_all add: owed_def\<close>)
qed

lemma lstep_inv: "lstep l l' \<Longrightarrow> l_inv l \<Longrightarrow> l_inv l'"
  by (induction rule: lstep.induct)
     (rule l_inv_start l_inv_no_start l_inv_claim l_inv_join l_inv_exited l_inv_dies; assumption)+

lemma lreach_inv: "lreach ino l \<Longrightarrow> l_inv l"
proof (induction rule: lreach.induct)
  case init
  then show ?case by (simp add: l_inv_def l_init_def owed_def)
qed (rule lstep_inv)

text \<open>
  C35: at any moment at most one watch thread runs, and it is the one the handle names; every thread that a
  reaper has claimed or that may still be claimed exists and has not been joined, and no two reapers, or a
  reaper and a start, own the same thread. So every join is of a thread that is there to be joined, once.
\<close>

theorem watch_lifecycle:
  assumes "lreach ino l"
  shows "(\<forall>t. l_threads l t = Running \<longrightarrow> t = n_tid (l_ino l))
    \<and> (\<forall>r t. l_claims l r = Some t \<longrightarrow> l_threads l t \<in> {Running, Leaving, Dead})
    \<and> (n_joinable (l_ino l) \<longrightarrow> l_threads l (n_tid (l_ino l)) \<in> {Running, Leaving, Dead})
    \<and> (\<forall>r t. l_claims l r = Some t \<longrightarrow> \<not> (n_joinable (l_ino l) \<and> t = n_tid (l_ino l))
         \<and> (\<forall>r'. l_claims l r' = Some t \<longrightarrow> r' = r))"
  using lreach_inv [OF assms] unfolding l_inv_def owed_def by blast

definition fresh_ino :: xal_inotify where
  "fresh_ino = zero_inotify\<lparr>n_watch_mode := XAL_WATCHMODE_REFLINK_SNAPSHOT, n_exited := True, n_fd := 3\<rparr>"

definition one_thread :: life where
  "one_thread = \<lparr>l_ino = fresh_ino\<lparr>n_exited := False, n_tid := 7, n_joinable := False, n_stop := True, n_cb := True\<rparr>,
     l_threads = (\<lambda>_. Unborn)(7 := Running), l_claims = [1 \<mapsto> 7]\<rparr>"

lemma one_thread_reach: "lreach fresh_ino one_thread"
proof -
  have 0: "lreach fresh_ino (l_init fresh_ino)"
    by (rule lreach.init) (simp_all add: fresh_ino_def zero_inotify_def)
  have "lstep (l_init fresh_ino) ((l_init fresh_ino)\<lparr>l_ino := watch_publish (Inr 7) (watch_arm True fresh_ino),
      l_threads := (\<lambda>_. Unborn)(7 := Running)\<rparr>)"
    using lstep.start [of "l_init fresh_ino" None fresh_ino 7 True]
    by (simp add: l_init_def watch_reap_def xal_be_fiemap_inotify_is_live_def fresh_ino_def zero_inotify_def)
  from lreach.step [OF 0 this] show ?thesis
  proof (rule lreach.step)
    show "lstep ((l_init fresh_ino)\<lparr>l_ino := watch_publish (Inr 7) (watch_arm True fresh_ino),
        l_threads := (\<lambda>_. Unborn)(7 := Running)\<rparr>) one_thread"
      using lstep.claim [of "(l_init fresh_ino)\<lparr>l_ino := watch_publish (Inr 7) (watch_arm True fresh_ino),
        l_threads := (\<lambda>_. Unborn)(7 := Running)\<rparr>" 1 0 True 7]
      by (simp add: l_init_def inotify_claim_join_def watch_publish_def watch_arm_def fresh_ino_def zero_inotify_def
          one_thread_def)
  qed
qed

theorem watch_lifecycle_witness:
  "l_threads one_thread 7 \<in> {Running, Leaving, Dead} \<and> n_tid (l_ino one_thread) = 7"
  using watch_lifecycle [OF one_thread_reach] by (simp add: one_thread_def)

section \<open>The callback\<close>

text \<open>The version the callback was last called for, unless something has re-armed it since.\<close>

fun note_turn :: "turn \<Rightarrow> u32 option \<Rightarrow> u32 option" where
  "note_turn (Fired seq latched) v = Some latched"
| "note_turn (Rearmed changed) v = None"
| "note_turn Waited v = v"
| "note_turn (Left e) v = v"

definition last_notified :: "turn list \<Rightarrow> u32 option" where
  "last_notified ts = fold note_turn ts None"

lemma watch_run_seq:
  "watch_run fuel K cb ts c \<Longrightarrow> (\<forall>e. Left e \<notin> set ts) \<Longrightarrow> c = (case last_notified ts of None \<Rightarrow> -1 | Some v \<Rightarrow> v)"
proof (induction rule: watch_run.induct)
  case (turn ts c ino s t c' s')
  have "t \<noteq> Left e" for e using turn(5) by auto
  then have "c' = (case note_turn t (last_notified ts) of None \<Rightarrow> -1 | Some v \<Rightarrow> v)"
    using turn(3) turn(4) [OF turn(2)]
    by (auto simp: watch_turn_def Let_def split: xal_state.splits if_splits prod.splits sum.splits bool.splits)
  then show ?case by (simp add: last_notified_def)
qed (simp add: last_notified_def)


section \<open>Events are not lost\<close>

text \<open>An event about an entry the index has.\<close>

definition touches_index :: "xal \<Rightarrow> xal_inotify \<Rightarrow> inotify_event \<Rightarrow> bool" where
  "touches_index xal ino event \<longleftrightarrow> ev_mask event AND IN_IGNORED = 0
     \<and> (\<exists>nm d. ev_name event = Some nm \<and> \<not> is_snapshot_name nm \<and> map_of (n_inode_map ino) (ev_wd event) = Some d
          \<and> d < n_inodes xal \<and> xal_inode_is_dir (inode_of xal d)
          \<and> nm \<in> set (names_of xal (children xal d)))"

lemma event_entry_indexed:
  assumes "tree_ok xal" "names_ok xal" "map_of (n_inode_map ino) wd = Some d" "d < n_inodes xal"
    and "xal_inode_is_dir (inode_of xal d)" "nm \<in> set (names_of xal (children xal d))"
  shows "event_entry xal ino wd nm \<noteq> Ok (None, path)"
proof -
  obtain c where c: "c \<in> set (children xal d)" "nm = i_cname (inode_of xal c)" using assms(6) by auto
  then have "name_ok (inode_of xal c)" using assms(2,4,5) by (auto simp: names_ok_def)
  then have "0 \<notin> set nm" using c(2) by (auto simp: name_ok_def i_cname_def cstr_def dest: set_takeWhileD)
  then have "span_search xal nm (i_idx (inode_of xal d)) (i_count (inode_of xal d)) = Some c"
    using span_search_iff [OF assms(1,2,4,5)] c by blast
  then show ?thesis using assms(3)
    by (auto simp: event_entry_def Let_def bind_res_Ok_iff split: if_splits)
qed

text \<open>The thread asks for a rebuild or leaves.\<close>

definition reacts :: "bool res \<Rightarrow> bool" where
  "reacts r \<longleftrightarrow> r = Ok True \<or> (\<exists>e. r = Fail e)"

lemma check_event_result: "fst (check_event K ino xal event k) = Ok False \<or> reacts (fst (check_event K ino xal event k))"
  by (auto simp: check_event_def reacts_def split: prod.splits sum.splits option.splits bool.splits)

lemma touching_event:
  assumes "tree_ok xal" "names_ok xal" "touches_index xal ino event"
  shows "reacts (fst (check_event K ino xal event k))"
proof -
  obtain nm d where nm: "ev_name event = Some nm" "\<not> is_snapshot_name nm"
    and "event_entry xal ino (ev_wd event) nm \<noteq> Ok (None, path)" for path
    using assms(3) event_entry_indexed [OF assms(1,2)] unfolding touches_index_def by metis
  then have "fst (check_event K ino xal event k) \<noteq> Ok False" using assms(3)
    by (auto simp: check_event_def touches_index_def split: prod.splits sum.splits option.splits bool.splits)
  then show ?thesis using check_event_result [of K ino xal event k] by simp
qed

lemma check_buf_result: "fst (check_buf K ino xal events k) = Ok False \<or> reacts (fst (check_buf K ino xal events k))"
proof (induction events arbitrary: k)
  case (Cons e events)
  obtain r k' where r: "check_event K ino xal e k = (r, k')" by fastforce
  show ?case using check_event_result [of K ino xal e k] Cons [of k'] r by (cases r) (auto simp: reacts_def)
qed simp

lemma touching_buf:
  assumes "tree_ok xal" "names_ok xal" "event \<in> set events" "touches_index xal ino event"
  shows "reacts (fst (check_buf K ino xal events k))"
  using assms(3)
proof (induction events arbitrary: k)
  case (Cons e events)
  obtain r k' where r: "check_event K ino xal e k = (r, k')" by fastforce
  show ?case
  proof (cases "e = event")
    case True
    then show ?thesis using touching_event [OF assms(1,2,4), of K k] r by (cases r) (auto simp: reacts_def)
  next
    case False
    then have "event \<in> set events" using Cons.prems by simp
    then show ?thesis using Cons.IH [of k'] check_event_result [of K ino xal e k] r by (cases r) (auto simp: reacts_def)
  qed
qed simp

text \<open>
  What \<open>inotify(7)\<close> says of the descriptor: \<open>read()\<close> takes events off the front of a queue, and fails with
  \<open>EAGAIN\<close> when it is empty. Events may be queued at any time.
\<close>

definition reads_queue :: "'k kernel \<Rightarrow> int \<Rightarrow> ('k \<Rightarrow> inotify_event list) \<Rightarrow> bool" where
  "reads_queue K fd queue \<longleftrightarrow>
     (\<forall>k. if queue k = [] then fst (k_read_events K fd k) = Inl EAGAIN
          else \<exists>events k' later. events \<noteq> [] \<and> k_read_events K fd k = (Inr events, k')
                 \<and> queue k @ later = events @ queue k')
     \<and> (\<forall>k. \<exists>later. queue (snd (k_trylock K k)) = queue k @ later)
     \<and> (\<forall>path k. \<exists>later. queue (snd (k_statx K path k)) = queue k @ later)"

lemma check_event_queue:
  assumes "reads_queue K fd queue" "check_event K ino xal event k = (r, k')"
  shows "\<exists>later. queue k' = queue k @ later"
proof -
  have lock: "\<exists>later. queue (snd (k_trylock K k)) = queue k @ later" for k
    using assms(1) unfolding reads_queue_def by blast
  have statx: "\<exists>later. queue (snd (k_statx K path k)) = queue k @ later" for path k
    using assms(1) unfolding reads_queue_def by blast
  show ?thesis
  proof (cases "k' = k \<or> k' = snd (k_trylock K k)")
    case False
    then have "\<exists>path. k' = snd (k_statx K path (snd (k_trylock K k)))"
      using assms(2)
      by (auto simp: check_event_def path_is_skipped_def
          split: if_splits option.splits prod.splits sum.splits bool.splits) (metis snd_conv)+
    then show ?thesis using lock [of k] statx by (metis append.assoc)
  qed (use lock in auto)
qed

lemma check_buf_queue:
  assumes "reads_queue K fd queue"
  shows "check_buf K ino xal events k = (r, k') \<Longrightarrow> \<exists>later. queue k' = queue k @ later"
proof (induction events arbitrary: k)
  case (Cons e events)
  obtain r1 k1 where r1: "check_event K ino xal e k = (r1, k1)" by fastforce
  note q = check_event_queue [OF assms r1]
  show ?case
  proof (cases "r1 = Ok False")
    case True
    then show ?thesis using Cons.IH [of k1] Cons.prems r1 q by auto
  next
    case False
    then have "k' = k1" using Cons.prems r1 by (cases r1) auto
    then show ?thesis using q by simp
  qed
qed simp

text \<open>
  A read takes at least one event, so the events in front of one in the queue bound the reads until it is seen,
  whatever is queued behind it meanwhile.
\<close>

lemma check_events_queue:
  assumes "tree_ok xal" "names_ok xal" "reads_queue K (n_fd ino) queue" "touches_index xal ino event"
  shows "queue k = pre @ event # post \<Longrightarrow> length pre < fuel \<Longrightarrow> reacts (fst (check_events fuel K ino xal k))"
proof (induction fuel arbitrary: k pre post)
  case (Suc fuel)
  then have "queue k \<noteq> []" by auto
  then obtain events k1 later where read: "events \<noteq> []" "k_read_events K (n_fd ino) k = (Inr events, k1)"
    "queue k @ later = events @ queue k1"
    using assms(3) unfolding reads_queue_def by metis
  obtain r k2 where buf: "check_buf K ino xal events k1 = (r, k2)" by fastforce
  have "reacts (fst (bind_st (check_buf K ino xal events k1)
      (\<lambda>changed k. if changed then (Ok True, k) else check_events fuel K ino xal k)))"
  proof (cases "r = Ok False")
    case False
    then show ?thesis using check_buf_result [of K ino xal events k1] buf by (cases r) (auto simp: reacts_def)
  next
    case True
    then have "event \<notin> set events"
      using touching_buf [OF assms(1,2) _ assms(4), of events K k1] buf by (auto simp: reacts_def)
    moreover have "pre @ event # (post @ later) = events @ queue k1" using read(3) Suc.prems(1) by simp
    ultimately obtain pre' where pre': "pre = events @ pre'" "queue k1 = pre' @ event # (post @ later)"
      by (auto simp: append_eq_append_conv2 append_eq_Cons_conv Cons_eq_append_conv)
    obtain more where "queue k2 = pre' @ event # (post @ later @ more)"
      using check_buf_queue [OF assms(3) buf] pre'(2) by auto
    moreover have "length pre' < fuel" using Suc.prems(2) pre'(1) read(1) by (cases events) auto
    ultimately show ?thesis using Suc.IH [of k2 pre'] True buf by simp
  qed
  then show ?case using read(1,2) by (cases events) simp_all
qed simp

text \<open>
  C33: on a well-formed index, an event about an indexed entry that is in the queue when the watch thread
  starts to read it is not passed over: the thread asks for a rebuild, or leaves with an error, whatever
  else is queued before or meanwhile. It takes no more reads than there are events in front of it and one.
\<close>

theorem events_not_lost:
  assumes "index_wf xal" "names_ok xal" "reads_queue K (n_fd ino) queue"
    and "event \<in> set (queue k)" "touches_index xal ino event" "length (queue k) \<le> fuel"
  shows "fst (check_events fuel K ino xal k) = Ok True \<or> (\<exists>e. fst (check_events fuel K ino xal k) = Fail e)"
proof -
  obtain pre post where q: "queue k = pre @ event # post" using assms(4) by (auto simp: in_set_conv_decomp)
  have "tree_ok xal" using assms(1) by (simp add: index_wf_def)
  from check_events_queue [where pre = pre and post = post, OF this assms(2,3,5) q, of fuel]
  show ?thesis using assms(6) q by (simp add: reacts_def)
qed

section \<open>Draining\<close>

text \<open>
  C36: draining ends when no events are added meanwhile, with fuel for one read an event, and leaves the
  queue empty and the handle as it was.
\<close>

theorem drain_empties:
  assumes "\<And>k. if queue k = [] then k_read_events K (n_fd ino) k = (Inl EAGAIN, k)
      else \<exists>events k'. events \<noteq> [] \<and> k_read_events K (n_fd ino) k = (Inr events, k') \<and> queue k = events @ queue k'"
    and "length (queue k) < fuel"
  shows "\<exists>k'. xal_be_fiemap_inotify_drain fuel K ino (xal, k) = (Ok (), xal, k') \<and> queue k' = []"
  using assms(2)
proof (induction fuel arbitrary: k)
  case (Suc fuel)
  show ?case
  proof (cases "queue k = []")
    case True
    then show ?thesis using assms(1) [of k] by (simp add: call_def)
  next
    case False
    then obtain events k1 where read: "events \<noteq> []" "k_read_events K (n_fd ino) k = (Inr events, k1)"
      "queue k = events @ queue k1" using assms(1) [of k] by auto
    then have "length (queue k1) < fuel" using Suc.prems by (cases events) auto
    from Suc.IH [OF this] show ?thesis using read(1,2) by (cases events) (simp_all add: call_def)
  qed
qed simp

section \<open>A kernel for the witnesses\<close>

text \<open>A kernel on which nothing succeeds and nothing changes, and one that has a queue of events.\<close>

definition still_kernel :: "'k kernel" where
  "still_kernel = \<lparr>k_os = tiny_os, k_pid = 1, k_alloc = (\<lambda>_ k. (True, k)),
     k_statx = (\<lambda>_ k. (Inl ENOENT, k)), k_statx_at = (\<lambda>_ _ k. (Inl ENOENT, k)), k_stat = (\<lambda>_ k. (Inl ENOENT, k)),
     k_lstat = (\<lambda>_ k. (Inl ENOENT, k)), k_statfs = (\<lambda>_ k. (Inl ENOENT, k)), k_opendir = (\<lambda>_ k. (Inl ENOENT, k)),
     k_open = (\<lambda>_ _ k. (Inl ENOENT, k)), k_close = (\<lambda>_ k. k), k_fstat = (\<lambda>_ k. (Inl EINVAL, k)),
     k_fiemap = (\<lambda>_ _ _ k. (Inl EINVAL, k)), k_getflags = (\<lambda>_ k. (Inl EINVAL, k)), k_setflags = (\<lambda>_ _ k. (Inl EINVAL, k)),
     k_getversion = (\<lambda>_ k. (Inl EINVAL, k)), k_ficlone = (\<lambda>_ _ k. (Inl EINVAL, k)), k_unlink = (\<lambda>_ k. (Inl ENOENT, k)),
     k_rmdir = (\<lambda>_ k. (Inl ENOENT, k)), k_mkdir = (\<lambda>_ k. (Inl EPERM, k)), k_inotify_init1 = (\<lambda>k. (Inl EPERM, k)),
     k_inotify_add_watch = (\<lambda>_ _ k. (Inl ENOENT, k)), k_inotify_rm_watch = (\<lambda>_ _ k. (Inl EINVAL, k)),
     k_read_events = (\<lambda>_ k. (Inl EAGAIN, k)), k_poll = (\<lambda>_ k. (Inr True, k)), k_trylock = (\<lambda>k. (True, k)),
     k_mutex_init = (\<lambda>k. (Inr (), k)), k_pthread_create = (\<lambda>k. (Inl EAGAIN, k)), k_pthread_join = (\<lambda>_ k. (Inl ESRCH, k))\<rparr>"

definition queue_kernel :: "inotify_event list kernel" where
  "queue_kernel = still_kernel\<lparr>k_read_events :=
     (\<lambda>_ q. case q of [] \<Rightarrow> (Inl EAGAIN, []) | e # q \<Rightarrow> (Inr [e], q))\<rparr>"

definition sample_ino :: xal_inotify where
  "sample_ino = fresh_ino\<lparr>n_inode_map := [(1, 0), (2, 1)]\<rparr>"

text \<open>A watch is gone, and the entry \<open>b\<close> of the directory \<open>/m/a\<close> was written to.\<close>

definition sample_queue :: "inotify_event list" where
  "sample_queue = [\<lparr>ev_wd = 1, ev_mask = 0x8000, ev_name = None\<rparr>, \<lparr>ev_wd = 2, ev_mask = 8, ev_name = Some [0x62]\<rparr>]"

lemma queue_kernel_reads: "reads_queue queue_kernel fd (\<lambda>q. q)"
  by (auto simp: reads_queue_def queue_kernel_def still_kernel_def split: list.splits)

theorem events_not_lost_witness:
  "fst (check_events 5 queue_kernel sample_ino sample_xal sample_queue) = Ok True
   \<or> (\<exists>e. fst (check_events 5 queue_kernel sample_ino sample_xal sample_queue) = Fail e)"
proof (rule events_not_lost [OF sample_wf sample_names queue_kernel_reads])
  show "\<lparr>ev_wd = 2, ev_mask = 8, ev_name = Some [0x62]\<rparr> \<in> set sample_queue" by (simp add: sample_queue_def)
  show "touches_index sample_xal sample_ino \<lparr>ev_wd = 2, ev_mask = 8, ev_name = Some [0x62]\<rparr>"
    unfolding touches_index_def
    by (simp add: sample_ino_def is_snapshot_name_def XAL_SNAPSHOT_PREFIX_def str_def strncmp_def del: sample_inode_simps)
       (simp add: sample_xal_def sample_pool_def)
  show "length sample_queue \<le> 5" by (simp add: sample_queue_def)
qed

theorem drain_empties_witness:
  "xal_be_fiemap_inotify_drain 3 queue_kernel sample_ino (sample_xal, sample_queue) = (Ok (), sample_xal, [])"
  using drain_empties [of "\<lambda>q. q" queue_kernel sample_ino sample_queue 3 sample_xal]
  by (force simp: queue_kernel_def sample_queue_def split: list.splits)


end
