(* ===== verification/Xal_Fiemap.thy ===== *)
theory Xal_Fiemap
  imports Xal_Inotify Xal_Extent
begin

text \<open>
  The FIEMAP backend (\<open>src/src/xal_be_fiemap.c\<close>): the walk over the mounted file system that builds the
  index. The state is the handle together with the kernel. Directory streams are closed on every
  path, which the model leaves out; file descriptors are opened and closed as in the code.
\<close>

section \<open>Checks on the roots\<close>

fun strip_trailing_slashes :: "cstring \<Rightarrow> cstring" where
  "strip_trailing_slashes path =
     (if 1 < length path \<and> last path = slash then strip_trailing_slashes (butlast path) else path)"

declare strip_trailing_slashes.simps [simp del]

definition check_root :: "'k kernel \<Rightarrow> cstring \<Rightarrow> 'k \<Rightarrow> (errno + stat) \<times> 'k" where
  "check_root K path k =
     (case k_lstat K path k of
        (Inl e, k) \<Rightarrow> (Inl e, k)
      | (Inr sb, k) \<Rightarrow> (if S_ISDIR (st_mode sb) then Inr sb else Inl ENOTDIR, k))"

definition check_subtree :: "'k kernel \<Rightarrow> cstring \<Rightarrow> stat \<Rightarrow> 'k \<Rightarrow> (errno + unit) \<times> 'k" where
  "check_subtree K subtree mnt k =
     (case check_root K subtree k of
        (Inl e, k) \<Rightarrow> (Inl e, k)
      | (Inr st, k) \<Rightarrow> (if st_dev st = st_dev mnt then Inr () else Inl EXDEV, k))"

section \<open>Reading a directory\<close>

definition is_skipped :: "'k kernel \<Rightarrow> cstring \<Rightarrow> dirent \<Rightarrow> 'k \<Rightarrow> bool \<times> 'k" where
  "is_skipped K dir e k =
     (if d_kind e = DT_REG then (False, k)
      else if d_kind e \<noteq> DT_DIR \<and> d_kind e \<noteq> DT_UNKNOWN then (True, k)
      else (case k_statx_at K dir (d_name e) k of
              (Inl _, k) \<Rightarrow> (False, k)
            | (Inr stx, k) \<Rightarrow> (skipped_kind stx, k)))"

definition int_add :: "int \<Rightarrow> int \<Rightarrow> 'k \<Rightarrow> int res \<times> 'k" where
  "int_add a b k = (if a + b < 2 ^ 31 then Ok (a + b) else Inl Undef, k)"

text \<open>
  The count that sizes the pools, an \<open>int\<close>. It descends into directories as deep as the file system has them,
  so the recursion is counted by fuel. \<open>readdir()\<close> is called to the end of the stream whatever is found.
\<close>

fun retrieve_total_entries :: "nat \<Rightarrow> 'k kernel \<Rightarrow> cstring \<Rightarrow> 'k \<Rightarrow> int res \<times> 'k"
and count_entries :: "nat \<Rightarrow> 'k kernel \<Rightarrow> cstring \<Rightarrow> dirent list \<Rightarrow> int \<Rightarrow> 'k \<Rightarrow> int res \<times> 'k"
where
  "retrieve_total_entries 0 K path k = (Inl Out_of_fuel, k)"
| "retrieve_total_entries (Suc fuel) K path k =
     (case k_stat K path k of
        (Inl e, k) \<Rightarrow> (Fail (if e = ENOENT then EAGAIN else e), k)
      | (Inr sb, k) \<Rightarrow>
          if \<not> S_ISDIR (st_mode sb) then (Ok 0, k)
          else
            (case k_opendir K path k of
               (Inl e, k) \<Rightarrow> (Fail e, k)
             | (Inr es, k) \<Rightarrow> count_entries fuel K path es 0 k))"
| "count_entries fuel K path [] n k = (Ok n, k)"
| "count_entries fuel K path (e # es) n k =
     (if \<not> is_directory_member (d_name e) then count_entries fuel K path es n k
      else
        (case is_skipped K path e k of
           (True, k) \<Rightarrow> count_entries fuel K path es n k
         | (False, k) \<Rightarrow>
             bind_st (int_add n 1 k)
               (\<lambda>n k. if d_kind e = DT_DIR then
                  bind_st (retrieve_total_entries fuel K (path_join path (d_name e)) k)
                    (\<lambda>children k. bind_st (int_add n children k) (\<lambda>n k. count_entries fuel K path es n k))
                else count_entries fuel K path es n k)))"

text \<open>
  The names of the entries to index, in the order of the directory. The array grows by doubling from
  64 pointers of eight bytes.
\<close>

fun collect_entries ::
  "'k kernel \<Rightarrow> bool \<Rightarrow> cstring \<Rightarrow> dirent list \<Rightarrow> cstring list \<Rightarrow> nat \<Rightarrow> xal \<times> 'k \<Rightarrow> cstring list res \<times> xal \<times> 'k" where
  "collect_entries K reflink path [] entries capacity s = (Ok entries, s)"
| "collect_entries K reflink path (e # es) entries capacity s =
     (if \<not> is_directory_member (d_name e) then collect_entries K reflink path es entries capacity s
      else
        (case is_skipped K path e (snd s) of
           (True, k) \<Rightarrow> collect_entries K reflink path es entries capacity (fst s, k)
         | (False, k) \<Rightarrow>
             if reflink \<and> is_snapshot_name (d_name e) then collect_entries K reflink path es entries capacity (fst s, k)
             else
               (let full = (length entries = capacity);
                    capacity = (if full then (if capacity = 0 then 64 else capacity * 2) else capacity)
                in bind_st (if full then need_mem K (capacity * 8) ENOMEM (fst s, k) else (Ok (), fst s, k))
                     (\<lambda>_ s. bind_st (need_mem K (length (d_name e) + 1) ENOMEM s)
                        (\<lambda>_ s. collect_entries K reflink path es (entries @ [d_name e]) capacity s)))))"

section \<open>Extents of a file\<close>

definition fiemap_ioctl :: "'k kernel \<Rightarrow> int \<Rightarrow> bool \<Rightarrow> u32 \<Rightarrow> 'k \<Rightarrow> (errno + u32 \<times> fiemap_extent list) \<times> 'k" where
  "fiemap_ioctl K fd sync n k =
     (case k_fiemap K fd sync n k of
        (Inr v, k) \<Rightarrow> (Inr v, k)
      | (Inl e, k) \<Rightarrow> if sync then k_fiemap K fd False n k else (Inl e, k))"

definition zero_fe :: fiemap_extent where
  "zero_fe = \<lparr>fe_logical = 0, fe_physical = 0, fe_length = 0, fe_flags = 0\<rparr>"

text \<open>The array of \<open>n\<close> extents after \<open>memset()\<close> and a call that wrote \<open>es\<close> to its front.\<close>

definition fm_extents :: "nat \<Rightarrow> fiemap_extent list \<Rightarrow> fiemap_extent list" where
  "fm_extents n es = take n (es @ replicate n zero_fe)"

abbreviation (input) XAL_FIEMAP_ATTEMPTS :: nat where "XAL_FIEMAP_ATTEMPTS \<equiv> 8"

text \<open>The loop over the attempts, with the number of attempts left; \<open>sync\<close> on the first.\<close>

fun fiemap_attempts ::
  "nat \<Rightarrow> 'k kernel \<Rightarrow> int \<Rightarrow> bool \<Rightarrow> xal \<times> 'k \<Rightarrow> fiemap_extent list res \<times> xal \<times> 'k" where
  "fiemap_attempts 0 K fd sync s = (Fail EAGAIN, s)"
| "fiemap_attempts (Suc left) K fd sync s =
     bind_st (call (fiemap_ioctl K fd sync 0) s)
       (\<lambda>(total, _) s.
          if total = 0 then (Ok [], s)
          else
            bind_st (need_mem K (32 + 56 * unat total) ENOMEM s)
              (\<lambda>_ s. bind_st (call (fiemap_ioctl K fd False total) s)
                 (\<lambda>(n, es) s.
                    let extents = fm_extents (unat total) es
                    in if n < total then (Ok (take (unat n) extents), s)
                       else if total < n then (Inl Undef, s)
                       else if fe_flags (extents ! (unat n - 1)) AND FIEMAP_EXTENT_LAST \<noteq> 0 then (Ok extents, s)
                       else fiemap_attempts left K fd False s)))"

definition read_fiemap :: "'k kernel \<Rightarrow> int \<Rightarrow> xal \<times> 'k \<Rightarrow> fiemap_extent list res \<times> xal \<times> 'k" where
  "read_fiemap K fd s = fiemap_attempts XAL_FIEMAP_ATTEMPTS K fd True s"

text \<open>One extent in blocks of the file system.\<close>

definition extent_of_fe :: "u32 \<Rightarrow> fiemap_extent \<Rightarrow> xal_extent" where
  "extent_of_fe blocksize fe =
     \<lparr>x_start_offset = fe_logical fe div ucast blocksize, x_start_block = fe_physical fe div ucast blocksize,
      x_nblocks = fe_length fe div ucast blocksize, x_flag = fiemap_extent_flag (fe_flags fe)\<rparr>"

definition put_fe :: "u32 \<Rightarrow> fiemap_extent list \<Rightarrow> nat \<Rightarrow> xal \<times> 'k \<Rightarrow> unit res \<times> xal \<times> 'k" where
  "put_fe extent_idx fes i s =
     (case xal_extent_at (fst s) (extent_idx + of_nat i) of
        None \<Rightarrow> (Inl Undef, s)
      | Some e \<Rightarrow>
          if sb_blocksize (h_sb (fst s)) = 0 then (Inl Abort, s)
          else (Ok (), on_xal (\<lambda>xal. put_extent xal e (extent_of_fe (sb_blocksize (h_sb xal)) (fes ! i))) s))"

definition store_extents :: "'k kernel \<Rightarrow> nat \<Rightarrow> fiemap_extent list \<Rightarrow> xal \<times> 'k \<Rightarrow> unit res \<times> xal \<times> 'k" where
  "store_extents K inode fes s =
     (if fes = [] then (Ok (), s)
      else
        (case xal_pool_claim_extents (k_os K) (h_extents (fst s)) (of_nat (length fes)) of
           (Inl f, pool) \<Rightarrow> (Inl f, on_xal (\<lambda>xal. xal\<lparr>h_extents := pool\<rparr>) s)
         | (Inr idx, pool) \<Rightarrow>
             for_st [0..<length fes] (put_fe idx fes)
               (on_xal (\<lambda>xal. put_inode (xal\<lparr>h_extents := pool\<rparr>) inode
                  ((inode_of xal inode)\<lparr>i_idx := idx, i_count := of_nat (length fes)\<rparr>)) s)))"

section \<open>Processing an inode\<close>

text \<open>Closing descriptors at the end of a sequence, whatever it returned.\<close>

definition close_after :: "'k kernel \<Rightarrow> int \<Rightarrow> 'a res \<times> xal \<times> 'k \<Rightarrow> 'a res \<times> xal \<times> 'k" where
  "close_after K fd r = (fst r, on_kernel (k_close K fd) (snd r))"

definition map_path :: "'k kernel \<Rightarrow> cstring \<Rightarrow> nat \<Rightarrow> xal \<times> 'k \<Rightarrow> unit res \<times> xal \<times> 'k" where
  "map_path K path inode s =
     (if f_path_inode_map (fbe_of (fst s)) \<noteq> None then path_map_insert K path inode s else (Ok (), s))"

definition map_fd_extents :: "'k kernel \<Rightarrow> int \<Rightarrow> nat \<Rightarrow> xal \<times> 'k \<Rightarrow> unit res \<times> xal \<times> 'k" where
  "map_fd_extents K map_fd inode s =
     bind_st (need_mem K 32 ENOMEM s)
       (\<lambda>_ s. bind_st (read_fiemap K map_fd s) (\<lambda>fes s. store_extents K inode fes s))"

definition file_extents :: "'k kernel \<Rightarrow> int \<Rightarrow> nat \<Rightarrow> xal \<times> 'k \<Rightarrow> unit res \<times> xal \<times> 'k" where
  "file_extents K fd inode s =
     bind_st (call (k_fstat K fd) s)
       (\<lambda>st s.
          if \<not> S_ISREG (st_mode st) then (Fail EAGAIN, s)
          else
            (case f_reflink (fbe_of (fst s)) of
               None \<Rightarrow> map_fd_extents K fd inode s
             | Some rl \<Rightarrow>
                 bind_st (reflink_clone_file K rl fd s)
                   (\<lambda>clone_fd s. close_after K clone_fd (map_fd_extents K clone_fd inode s))))"

definition xal_be_fiemap_process_inode_file :: "'k kernel \<Rightarrow> cstring \<Rightarrow> nat \<Rightarrow> xal \<times> 'k \<Rightarrow> unit res \<times> xal \<times> 'k" where
  "xal_be_fiemap_process_inode_file K path inode s =
     (if \<not> xal_inode_is_file (inode_of (fst s) inode) then (Fail EINVAL, s)
      else
        (case call (k_open K path O_rdonly_nofollow_nonblock) s of
           (Inl e, s) \<Rightarrow> (if e = Errno ELOOP then Fail EAGAIN else Inl e, s)
         | (Inr fd, s) \<Rightarrow>
             bind_st (close_after K fd (file_extents K fd inode s)) (\<lambda>_ s. map_path K path inode s)))"

text \<open>
  \<open>pi\<close> is the recursive call of \<open>process_ino_fiemap()\<close> on the path and the inode of an entry. An entry
  without a type after it is wiped, and its slot used for the next.
\<close>

type_synonym 'k process_path_fn = "cstring \<Rightarrow> nat \<Rightarrow> xal \<times> 'k \<Rightarrow> unit res \<times> xal \<times> 'k"

definition label_dentry :: "cstring \<Rightarrow> u32 \<Rightarrow> xal_inode \<Rightarrow> xal_inode" where
  "label_dentry nm parent d = d\<lparr>i_name := nm, i_namelen := of_nat (length nm), i_parent := parent\<rparr>"

definition process_entry :: "'k process_path_fn \<Rightarrow> cstring \<Rightarrow> nat \<Rightarrow> cstring \<Rightarrow> xal \<times> 'k \<Rightarrow> unit res \<times> xal \<times> 'k" where
  "process_entry pi path inode nm s =
     (let self = inode_of (fst s) inode
      in if XAL_INODE_NAME_MAXLEN < length nm then (Fail ENAMETOOLONG, s)
         else
           (case xal_inode_at (fst s) (i_idx self + i_count self) of
              None \<Rightarrow> (Inl Undef, s)
            | Some dentry \<Rightarrow>
                bind_st
                  (pi (path_join path nm) dentry
                     (on_xal (\<lambda>xal. put_inode xal dentry
                        (label_dentry nm (xal_inode_idx xal inode) (inode_of xal dentry))) s))
                  (\<lambda>_ s. (Ok (), on_xal (\<lambda>xal.
                     if i_ftype (inode_of xal dentry) = XAL_ODF_DIR3_FT_UNKNOWN then put_inode xal dentry zero_inode
                     else put_inode xal inode
                       ((inode_of xal inode)\<lparr>i_count := i_count (inode_of xal inode) + 1\<rparr>)) s))))"

definition claim_entries :: "'k kernel \<Rightarrow> nat \<Rightarrow> nat \<Rightarrow> xal \<times> 'k \<Rightarrow> unit res \<times> xal \<times> 'k" where
  "claim_entries K inode n s =
     (case xal_pool_claim_inodes (k_os K) (h_inodes (fst s)) (of_nat n) of
        (Inl f, pool) \<Rightarrow> (Inl f, on_xal (\<lambda>xal. xal\<lparr>h_inodes := pool\<rparr>) s)
      | (Inr idx, pool) \<Rightarrow>
          (Ok (), on_xal (\<lambda>xal. put_inode (xal\<lparr>h_inodes := pool\<rparr>) inode
             ((inode_of xal inode)\<lparr>i_idx := idx, i_count := 0\<rparr>)) s))"

definition add_watch :: "'k kernel \<Rightarrow> cstring \<Rightarrow> nat \<Rightarrow> xal \<times> 'k \<Rightarrow> unit res \<times> xal \<times> 'k" where
  "add_watch K path inode s =
     (case f_inotify (fbe_of (fst s)) of
        None \<Rightarrow> (Ok (), s)
      | Some ino \<Rightarrow> xal_be_fiemap_inotify_add_watcher K ino path inode s)"

definition xal_be_fiemap_process_inode_dir ::
  "'k process_path_fn \<Rightarrow> 'k kernel \<Rightarrow> cstring \<Rightarrow> nat \<Rightarrow> xal \<times> 'k \<Rightarrow> unit res \<times> xal \<times> 'k" where
  "xal_be_fiemap_process_inode_dir pi K path inode s =
     (if \<not> xal_inode_is_dir (inode_of (fst s) inode) then (Fail EINVAL, s)
      else
        bind_st (add_watch K path inode s)
          (\<lambda>_ s. bind_st (call (k_opendir K path) s)
             (\<lambda>es s. bind_st (collect_entries K (f_reflink (fbe_of (fst s)) \<noteq> None) path es [] 0 s)
                (\<lambda>entries s. let entries = qsort compare_dirent entries
                   in bind_st (claim_entries K inode (length entries) s)
                        (\<lambda>_ s. bind_st (for_st entries (process_entry pi path inode) s)
                           (\<lambda>_ s. map_path K path inode s))))))"

definition classify :: "statx \<Rightarrow> xal_inode \<Rightarrow> xal_inode option" where
  "classify stx self =
     (let fill = (\<lambda>i. i\<lparr>i_ino := stx_ino stx, i_size := stx_size stx\<rparr>)
      in if i_ftype self \<noteq> XAL_ODF_DIR3_FT_UNKNOWN then Some (fill self)
         else if stx_mount_root stx then None
         else if S_ISDIR (stx_mode stx) then Some (fill (self\<lparr>i_ftype := XAL_ODF_DIR3_FT_DIR\<rparr>))
         else if S_ISREG (stx_mode stx) then Some (fill (self\<lparr>i_ftype := XAL_ODF_DIR3_FT_REG_FILE\<rparr>))
         else None)"

fun process_ino_fiemap :: "nat \<Rightarrow> 'k kernel \<Rightarrow> 'k process_path_fn" where
  "process_ino_fiemap 0 K path self s = (Inl Out_of_fuel, s)"
| "process_ino_fiemap (Suc fuel) K path self s =
     (case call (k_statx K path) s of
        (Inl e, s) \<Rightarrow> (if e = Errno ENOENT then Fail EAGAIN else Inl e, s)
      | (Inr stx, s) \<Rightarrow>
          (case classify stx (inode_of (fst s) self) of
             None \<Rightarrow> (Ok (), s)
           | Some i \<Rightarrow>
               let s = on_xal (\<lambda>xal. put_inode xal self i) s
               in if i_ftype i = XAL_ODF_DIR3_FT_DIR then
                    xal_be_fiemap_process_inode_dir (process_ino_fiemap fuel K) K path self s
                  else if i_ftype i = XAL_ODF_DIR3_FT_REG_FILE then xal_be_fiemap_process_inode_file K path self s
                  else (Fail ENOSYS, s)))"

section \<open>The rebuild\<close>

definition check_roots :: "'k kernel \<Rightarrow> xal_be_fiemap \<Rightarrow> xal \<times> 'k \<Rightarrow> unit res \<times> xal \<times> 'k" where
  "check_roots K be s =
     bind_st (call (check_root K (f_mountpoint be)) s)
       (\<lambda>sb s. case f_subtree be of
                 None \<Rightarrow> (Ok (), s)
               | Some subtree \<Rightarrow> call (check_subtree K subtree sb) s)"

definition clear_index :: "xal \<Rightarrow> xal" where
  "clear_index xal =
     (let xal = clear_pools xal
      in set_fbe xal ((fbe_of xal)\<lparr>f_path_inode_map := path_map_clear (f_path_inode_map (fbe_of xal))\<rparr>))"

definition clear_watches :: "nat \<Rightarrow> 'k kernel \<Rightarrow> xal \<times> 'k \<Rightarrow> unit res \<times> xal \<times> 'k" where
  "clear_watches fuel K s =
     (case f_inotify (fbe_of (fst s)) of
        None \<Rightarrow> (Ok (), s)
      | Some ino \<Rightarrow>
          bind_st (xal_be_fiemap_inotify_clear_inode_map K ino s)
            (\<lambda>_ s. xal_be_fiemap_inotify_drain fuel K ino s))"

definition sweep_clones :: "'k kernel \<Rightarrow> xal \<times> 'k \<Rightarrow> xal \<times> 'k" where
  "sweep_clones K s =
     (case f_reflink (fbe_of (fst s)) of
        None \<Rightarrow> s
      | Some rl \<Rightarrow>
          on_xal (\<lambda>xal. set_fbe xal ((fbe_of xal)\<lparr>f_reflink := Some (rl\<lparr>rl_dir_created := False\<rparr>)\<rparr>))
            (on_kernel (reflink_sweep_orphans K (f_mountpoint (fbe_of (fst s)))) s))"

definition walk_root :: "xal_be_fiemap \<Rightarrow> cstring" where
  "walk_root be = (case f_subtree be of Some subtree \<Rightarrow> subtree | None \<Rightarrow> f_mountpoint be)"

definition fiemap_rebuild :: "nat \<Rightarrow> nat \<Rightarrow> 'k kernel \<Rightarrow> xal \<times> 'k \<Rightarrow> unit res \<times> xal \<times> 'k" where
  "fiemap_rebuild fuel dfuel K s =
     bind_st (check_roots K (fbe_of (fst s)) s)
       (\<lambda>_ s. bind_st (clear_watches dfuel K (on_xal clear_index s))
          (\<lambda>_ s. bind_st (let r = claim_root (k_os K) (fst s) in (fst r, snd r, snd s))
             (\<lambda>_ s. let s = sweep_clones K s
                    in process_ino_fiemap fuel K (walk_root (fbe_of (fst s))) (unat (h_root_idx (fst s))) s)))"

definition xal_be_fiemap_index :: "nat \<Rightarrow> nat \<Rightarrow> 'k kernel \<Rightarrow> xal \<times> 'k \<Rightarrow> unit res \<times> xal \<times> 'k" where
  "xal_be_fiemap_index fuel dfuel K s =
     (if f_mountpoint (fbe_of (fst s)) = [] then (Fail EINVAL, s)
      else
        (case fiemap_rebuild fuel dfuel K (on_xal index_enter s) of
           (r, xal, k) \<Rightarrow> (case finish_index (r, xal) of (r, xal) \<Rightarrow> (r, xal, k))))"

text \<open>The function as \<open>xal_index()\<close> calls it, from a state of the kernel on.\<close>

definition fiemap_be_index :: "nat \<Rightarrow> nat \<Rightarrow> 'k kernel \<Rightarrow> 'k \<Rightarrow> xal \<Rightarrow> unit res \<times> xal" where
  "fiemap_be_index fuel dfuel K k xal = (case xal_be_fiemap_index fuel dfuel K (xal, k) of (r, xal, _) \<Rightarrow> (r, xal))"

end
