(* ===== verification/Xal_Fiemap_Correct.thy ===== *)
theory Xal_Fiemap_Correct
  imports Xal_Fiemap
begin

text \<open>
  The walk of the FIEMAP backend builds a well-formed index, whatever the file system does meanwhile:
  the theory follows a rebuild from the claim of the root through the directories and files, with the steps of
  \<open>Xal_Build\<close>, and interprets the contract of a backend on it. Where the kernel returns proper names, the
  names of the index are proper too, so that a lookup by path finds every entry.
\<close>

section \<open>What leaves the inodes alone\<close>

text \<open>The inodes, the root and everything of the handle that a rebuild does not touch.\<close>

definition ipart :: "xal \<Rightarrow> xal_inode xal_pool \<times> u32 \<times> _" where
  "ipart xal = (h_inodes xal, h_root_idx xal, core xal)"

lemma ipart_simps [simp]:
  "ipart (set_fbe xal be) = ipart xal" "ipart (put_extent xal e x) = ipart xal"
  "ipart (xal\<lparr>h_extents := p\<rparr>) = ipart xal" "ipart (set_inotify xal ino) = ipart xal"
  by (simp_all add: ipart_def set_inotify_def)

lemma ipartD:
  assumes "ipart xal' = ipart xal"
  shows "h_inodes xal' = h_inodes xal" "h_root_idx xal' = h_root_idx xal" "core xal' = core xal"
  using assms by (simp_all add: ipart_def)

text \<open>
  A property of the handle that the parts of a sequence keep is kept by the sequence; \<open>keeps\<close> is the
  form in which the rules chain.
\<close>

definition keeps :: "(xal \<Rightarrow> 'p) \<Rightarrow> (xal \<times> 'k \<Rightarrow> 'a res \<times> xal \<times> 'k) \<Rightarrow> bool" where
  "keeps g f \<longleftrightarrow> (\<forall>s. g (fst (snd (f s))) = g (fst s))"

lemma keepsD: "keeps g f \<Longrightarrow> g (fst (snd (f s))) = g (fst s)"
  unfolding keeps_def by blast

lemma keeps_ret:
  assumes "keeps g f" "f s = (r, s')"
  shows "g (fst s') = g (fst s)"
  using keepsD [OF assms(1), of s] unfolding assms(2) by simp

named_theorems keeps_intros

lemma keeps_bind [keeps_intros]:
  "keeps g f \<Longrightarrow> (\<And>v. keeps g (h v)) \<Longrightarrow> keeps g (\<lambda>s. bind_st (f s) (\<lambda>v. h v))"
  unfolding keeps_def using snd_bind_st [of "\<lambda>s. g (fst s)"] by metis

lemma keeps_for [keeps_intros]: "(\<And>i. keeps g (f i)) \<Longrightarrow> keeps g (for_st is f)"
  unfolding keeps_def using snd_for_st [of "\<lambda>s. g (fst s)"] by metis

lemma keeps_if [keeps_intros]: "keeps g f \<Longrightarrow> keeps g h \<Longrightarrow> keeps g (\<lambda>s. if b then f s else h s)"
  by (simp add: keeps_def)

lemma keeps_if_state [keeps_intros]: "keeps g f \<Longrightarrow> keeps g h \<Longrightarrow> keeps g (\<lambda>s. if b s then f s else h s)"
  by (simp add: keeps_def)

lemma keeps_call [keeps_intros]: "keeps g (call f)"
  by (simp add: keeps_def)

lemma keeps_need_mem [keeps_intros]: "keeps g (need_mem K n e)"
  by (simp add: keeps_def)

lemma keeps_pure [keeps_intros]: "keeps g (\<lambda>s. (r, s))"
  by (simp add: keeps_def)

lemma keeps_on_xal [keeps_intros]: "(\<And>xal. g (u xal) = g xal) \<Longrightarrow> keeps g (\<lambda>s. (r, on_xal u s))"
  by (simp add: keeps_def)

lemma keeps_close_after [keeps_intros]: "keeps g f \<Longrightarrow> keeps g (\<lambda>s. close_after K fd (f s))"
  by (simp add: keeps_def close_after_def)

lemma keeps_collect_body: "g (fst (snd (collect_entries K rl path es entries cap s))) = g (fst s)"
proof (induction es arbitrary: rl entries cap s)
  case (Cons e es)
  show ?case
    by (simp add: Let_def Cons snd_bind_st [of "\<lambda>s. g (fst s)"] split: prod.split bool.split)
qed simp

lemma keeps_collect [keeps_intros]: "keeps g (collect_entries K rl path es entries cap)"
  by (simp add: keeps_def keeps_collect_body del: split_paired_All)

lemma keeps_fiemap_attempts [keeps_intros]: "keeps g (fiemap_attempts n K fd sync)"
proof (induction n arbitrary: sync)
  case (Suc n)
  have "g (fst (snd (fiemap_attempts n K fd b s))) = g (fst s)" for b s using keepsD [OF Suc] .
  then show ?case unfolding keeps_def
    by (simp add: Let_def case_prod_unfold snd_bind_st [of "\<lambda>s. g (fst s)"] del: split_paired_All)
qed (simp add: keeps_def)

lemma keeps_add_watcher [keeps_intros]:
  "(\<And>xal i. g (set_inotify xal i) = g xal) \<Longrightarrow> keeps g (xal_be_fiemap_inotify_add_watcher K ino path inode)"
  unfolding xal_be_fiemap_inotify_add_watcher_def by (intro keeps_intros) simp_all

lemma keeps_add_watch [keeps_intros]:
  "(\<And>xal i. g (set_inotify xal i) = g xal) \<Longrightarrow> keeps g (add_watch K path inode)"
  by (simp add: keeps_def add_watch_def keepsD [OF keeps_add_watcher, of g] split: option.split)

lemma keeps_map_path [keeps_intros]:
  "(\<And>xal b. g (set_fbe xal b) = g xal) \<Longrightarrow> keeps g (map_path K path inode)"
  unfolding map_path_def path_map_insert_def by (intro keeps_intros) simp_all

lemma keeps_clone [keeps_intros]:
  assumes "\<And>xal b. g (set_fbe xal b) = g xal"
  shows "keeps g (reflink_clone_file K rl fd)"
proof -
  have "keeps g (\<lambda>s. call (clone_at K d fd) (on_xal (\<lambda>xal. set_fbe xal (u xal)) s))" for d u
    using assms by (simp add: keeps_def)
  then show ?thesis unfolding reflink_clone_file_def by (intro keeps_intros)
qed

lemma keeps_drain [keeps_intros]: "keeps g (xal_be_fiemap_inotify_drain fuel K ino)"
proof (induction fuel)
  case (Suc fuel)
  have "g (fst s') = g (fst s)" if "call f s = (r, s')" for f r and s s' :: "xal \<times> 'b"
    using call_xal [OF that] by simp
  then show ?case using Suc
    by (fastforce simp: keeps_def split: prod.split sum.split list.split fault.split errno.split)
qed (simp add: keeps_def)

section \<open>Files\<close>

abbreviation fresh :: "xal \<Rightarrow> bool" where
  "fresh xal \<equiv> pool_fresh zero_inode (h_inodes xal)"

text \<open>A step that writes to no inode but \<open>self\<close>, claims none, and writes nothing behind the claimed ones.\<close>

definition self_step :: "xal \<Rightarrow> nat \<Rightarrow> xal \<Rightarrow> bool" where
  "self_step xal self xal' \<longleftrightarrow> only_self xal self xal' \<and> fresh xal'"

lemma self_step_refl: "pool_ok xal \<Longrightarrow> fresh xal \<Longrightarrow> self_step xal self xal"
  by (simp add: self_step_def only_self_refl)

lemma self_step_trans: "self_step xal self xal1 \<Longrightarrow> self_step xal1 self xal2 \<Longrightarrow> self_step xal self xal2"
  unfolding self_step_def using only_self_trans by blast

lemma self_step_ipart:
  "pool_ok xal \<Longrightarrow> fresh xal \<Longrightarrow> ipart xal' = ipart xal \<Longrightarrow> self_step xal self xal'"
  using ipartD [of xal' xal] by (auto simp: self_step_def intro: only_self_frame)

lemma fresh_put: "fresh xal \<Longrightarrow> self < n_inodes xal \<Longrightarrow> fresh (put_inode xal self i)"
  by (simp add: pool_fresh_def put_inode_def)

lemma self_step_put:
  "pool_ok xal \<Longrightarrow> fresh xal \<Longrightarrow> self < n_inodes xal \<Longrightarrow> same_label (inode_of xal self) i \<Longrightarrow>
     self_step xal self (put_inode xal self i)"
  by (simp add: self_step_def only_self_put fresh_put)

lemma self_stepD:
  assumes "self_step xal self xal'"
  shows "pool_ok xal'" "fresh xal'" "n_inodes xal' = n_inodes xal" "h_root_idx xal' = h_root_idx xal"
    "\<And>j. j \<noteq> self \<Longrightarrow> inode_of xal' j = inode_of xal j" "same_label (inode_of xal self) (inode_of xal' self)"
  using assms by (auto simp: self_step_def only_self_def)

text \<open>The rule that chains a kernel call in front of such a step.\<close>

lemma self_step_bind:
  assumes "bind_st (f s) g = (Ok v, s')" "keeps ipart f" "pool_ok (fst s)" "fresh (fst s)"
    and "\<And>w t. f s = (Ok w, t) \<Longrightarrow> g w t = (Ok v, s') \<Longrightarrow> pool_ok (fst t) \<Longrightarrow> fresh (fst t) \<Longrightarrow>
      h_inodes (fst t) = h_inodes (fst s) \<Longrightarrow> self_step (fst t) self (fst s')"
  shows "self_step (fst s) self (fst s')"
proof -
  obtain w t where t: "f s = (Ok w, t)" "g w t = (Ok v, s')" using assms(1) by (auto elim: bind_st_OkE)
  have eq: "ipart (fst t) = ipart (fst s)" using keeps_ret [OF assms(2) t(1)] .
  have step: "self_step (fst s) self (fst t)" by (rule self_step_ipart [OF assms(3,4) eq])
  have "self_step (fst t) self (fst s')"
    by (rule assms(5) [OF t]) (use self_stepD [OF step] ipartD [OF eq] in simp_all)
  then show ?thesis using self_step_trans step by blast
qed

lemma store_extents_step:
  assumes "store_extents K inode fes s = (Ok (), s')" "pool_ok (fst s)" "fresh (fst s)" "inode < n_inodes (fst s)"
  shows "self_step (fst s) inode (fst s')"
proof (cases "fes = []")
  case True
  then show ?thesis using assms by (simp add: store_extents_def self_step_refl)
next
  case False
  then obtain idx pool where
    run: "for_st [0..<length fes] (put_fe idx fes) (on_xal (\<lambda>xal. put_inode (xal\<lparr>h_extents := pool\<rparr>) inode
       ((inode_of xal inode)\<lparr>i_idx := idx, i_count := of_nat (length fes)\<rparr>)) s) = (Ok (), s')"
    using assms(1) by (auto simp: store_extents_def split: prod.splits sum.splits)
  have "keeps ipart (put_fe idx fes i)" for i
    by (simp add: keeps_def put_fe_def split: option.split)
  from keeps_ret [OF keeps_for [OF this] run]
  have eq: "ipart (fst s') = ipart (put_inode ((fst s)\<lparr>h_extents := pool\<rparr>) inode
      ((inode_of (fst s) inode)\<lparr>i_idx := idx, i_count := of_nat (length fes)\<rparr>))" (is "_ = ipart ?x") by simp
  have "self_step (fst s) inode ((fst s)\<lparr>h_extents := pool\<rparr>)"
    by (rule self_step_ipart [OF assms(2,3)]) simp
  moreover have "self_step ((fst s)\<lparr>h_extents := pool\<rparr>) inode ?x"
    by (rule self_step_put) (use assms(2-4) in \<open>simp_all add: pool_ok_def same_label_def\<close>)
  ultimately have "self_step (fst s) inode ?x" by (rule self_step_trans)
  moreover have "self_step ?x inode (fst s')"
    using self_stepD(1,2) [OF calculation] eq by (intro self_step_ipart) simp_all
  ultimately show ?thesis by (rule self_step_trans)
qed

lemma map_fd_extents_step:
  assumes "map_fd_extents K fd inode s = (Ok (), s')" "pool_ok (fst s)" "fresh (fst s)" "inode < n_inodes (fst s)"
  shows "self_step (fst s) inode (fst s')"
  using assms(1) unfolding map_fd_extents_def
proof (rule self_step_bind [OF _ keeps_need_mem assms(2,3)])
  fix w t assume run: "bind_st (read_fiemap K fd t) (\<lambda>fes s. store_extents K inode fes s) = (Ok (), s')"
    and t: "pool_ok (fst t)" "fresh (fst t)" "h_inodes (fst t) = h_inodes (fst s)"
  show "self_step (fst t) inode (fst s')"
    by (rule self_step_bind [OF run [unfolded read_fiemap_def] keeps_fiemap_attempts t(1,2)])
       (rule store_extents_step, use t(3) assms(4) in simp_all)
qed

lemma close_after_Ok: "close_after K fd r = (Ok v, s') \<Longrightarrow> \<exists>t. r = (Ok v, t) \<and> fst s' = fst t"
  by (auto simp: close_after_def prod_eq_iff intro: exI [of _ "snd r"])

lemma file_extents_step:
  assumes "file_extents K fd inode s = (Ok (), s')" "pool_ok (fst s)" "fresh (fst s)" "inode < n_inodes (fst s)"
  shows "self_step (fst s) inode (fst s')"
  using assms(1) unfolding file_extents_def
proof (rule self_step_bind [OF _ keeps_call assms(2,3)])
  fix st t assume *: "(if \<not> S_ISREG (st_mode st) then (Fail EAGAIN, t)
      else case f_reflink (fbe_of (fst t)) of None \<Rightarrow> map_fd_extents K fd inode t
        | Some rl \<Rightarrow> bind_st (reflink_clone_file K rl fd t)
            (\<lambda>clone_fd s. close_after K clone_fd (map_fd_extents K clone_fd inode s))) = (Ok (), s')"
    and t: "pool_ok (fst t)" "fresh (fst t)" "h_inodes (fst t) = h_inodes (fst s)"
  show "self_step (fst t) inode (fst s')"
  proof (cases "f_reflink (fbe_of (fst t))")
    case None
    then show ?thesis using * t assms(4) by (auto split: if_splits intro: map_fd_extents_step)
  next
    case (Some rl)
    then have "bind_st (reflink_clone_file K rl fd t)
        (\<lambda>clone_fd s. close_after K clone_fd (map_fd_extents K clone_fd inode s)) = (Ok (), s')"
      using * by (auto split: if_splits)
    then show ?thesis
    proof (rule self_step_bind [OF _ keeps_clone t(1,2)])
      fix c u assume u: "close_after K c (map_fd_extents K c inode u) = (Ok (), s')" "pool_ok (fst u)" "fresh (fst u)"
        "h_inodes (fst u) = h_inodes (fst t)"
      then obtain v where v: "map_fd_extents K c inode u = (Ok (), v)" "fst s' = fst v"
        by (blast dest: close_after_Ok)
      show "self_step (fst u) inode (fst s')" unfolding v(2)
        by (rule map_fd_extents_step [OF v(1)]) (use u t(3) assms(4) in simp_all)
    qed simp
  qed
qed

lemma process_file_step:
  assumes "xal_be_fiemap_process_inode_file K path inode s = (Ok (), s')"
    and "pool_ok (fst s)" "fresh (fst s)" "inode < n_inodes (fst s)"
  shows "self_step (fst s) inode (fst s')" "xal_inode_is_file (inode_of (fst s) inode)"
proof -
  obtain fd t u v where t: "call (k_open K path O_rdonly_nofollow_nonblock) s = (Inr fd, t)"
    and u: "file_extents K fd inode t = (Ok (), u)" "fst v = fst u" and v: "map_path K path inode v = (Ok (), s')"
    and reg: "xal_inode_is_file (inode_of (fst s) inode)"
    using assms(1)
    by (auto simp: xal_be_fiemap_process_inode_file_def bind_st_Ok_iff split: if_splits prod.splits sum.splits
        dest!: close_after_Ok)
  show "xal_inode_is_file (inode_of (fst s) inode)" by (rule reg)
  have eq: "fst t = fst s" using call_xal [OF t] .
  have s1: "self_step (fst s) inode (fst v)"
    using file_extents_step [OF u(1)] assms(2-4) eq u(2) by simp
  have "ipart (fst s') = ipart (fst v)" by (rule keeps_ret [OF keeps_map_path v]) simp
  then have "self_step (fst v) inode (fst s')" using self_stepD(1,2) [OF s1] by (intro self_step_ipart)
  then show "self_step (fst s) inode (fst s')" using self_step_trans [OF s1] by blast
qed

section \<open>Directories\<close>

text \<open>
  What \<open>readdir(3)\<close> promises of a directory: no name twice, none empty, none with a slash or a NUL byte.
\<close>

definition dirents_ok :: "'k kernel \<Rightarrow> bool" where
  "dirents_ok K \<longleftrightarrow> (\<forall>path k es k'. k_opendir K path k = (Inr es, k') \<longrightarrow>
     distinct (map d_name es) \<and> plain (map d_name es))"

lemma collect_entries_names:
  "collect_entries K rl path es entries cap s = (Ok out, s') \<Longrightarrow> distinct (entries @ map d_name es) \<Longrightarrow>
     distinct out \<and> set out \<subseteq> set entries \<union> set (map d_name es)"
proof (induction es arbitrary: entries cap s)
  case (Cons e es)
  have skip: "distinct (entries @ map d_name es)" and keep: "distinct ((entries @ [d_name e]) @ map d_name es)"
    using Cons.prems(2) by auto
  obtain en c t where *: "collect_entries K rl path es en c t = (Ok out, s')" "en = entries \<or> en = entries @ [d_name e]"
    using Cons.prems(1) by (auto simp: Let_def bind_st_Ok_iff split: if_splits prod.splits bool.splits)
  show ?case using Cons.IH [OF *(1)] *(2) skip keep by auto
qed simp

lemma collect_entries_bound:
  "collect_entries K rl path es entries cap s = (Ok out, s') \<Longrightarrow> length entries \<le> cap \<Longrightarrow> cap * 8 < 2 ^ 63 \<Longrightarrow>
     length out * 8 < 2 ^ 63"
proof (induction es arbitrary: entries cap s)
  case (Cons e es)
  have "\<exists>en c t. collect_entries K rl path es en c t = (Ok out, s') \<and> length en \<le> c \<and> c * 8 < 2 ^ 63"
  proof (cases "\<not> is_directory_member (d_name e) \<or> fst (is_skipped K path e (snd s)) \<or> rl \<and> is_snapshot_name (d_name e)")
    case True
    then have "\<exists>t. collect_entries K rl path es entries cap t = (Ok out, s')" using Cons.prems(1)
      by (auto simp del: split_paired_Ex split: if_splits prod.splits bool.splits)
    then show ?thesis using Cons.prems(2,3) by blast
  next
    case False
    obtain k where skip: "is_skipped K path e (snd s) = (False, k)" using False by (cases "is_skipped K path e (snd s)") auto
    have mem: "is_directory_member (d_name e)" and snap: "(rl \<and> is_snapshot_name (d_name e)) = False"
      using False by auto
    define c where "c = (if length entries = cap then (if cap = 0 then 64 else cap * 2) else cap)"
    have "bind_st (if length entries = cap then need_mem K (c * 8) ENOMEM (fst s, k) else (Ok (), fst s, k))
        (\<lambda>_ s. bind_st (need_mem K (length (d_name e) + 1) ENOMEM s)
           (\<lambda>_ s. collect_entries K rl path es (entries @ [d_name e]) c s)) = (Ok out, s')"
      using Cons.prems(1) skip mem unfolding c_def by (simp add: Let_def snap split del: if_split cong: if_cong)
    then obtain v t u where t: "(if length entries = cap then need_mem K (c * 8) ENOMEM (fst s, k) else (Ok (), fst s, k)) = (Ok v, t)"
      and u: "collect_entries K rl path es (entries @ [d_name e]) c u = (Ok out, s')"
      by (elim bind_st_OkE)
    have "c * 8 < 2 ^ 63"
      using t Cons.prems(3) need_mem_bound [of K "c * 8"] by (auto simp: c_def split: if_splits)
    moreover have "length (entries @ [d_name e]) \<le> c" using Cons.prems(2) by (auto simp: c_def)
    ultimately show ?thesis using u by blast
  qed
  then show ?case using Cons.IH by blast
qed simp

definition dn_ok :: "xal \<Rightarrow> nat \<Rightarrow> bool" where
  "dn_ok xal d \<longleftrightarrow> (xal_inode_is_dir (inode_of xal d) \<longrightarrow> distinct (names_of xal (children xal d)))"

definition named :: "xal \<Rightarrow> nat \<Rightarrow> bool" where
  "named xal j \<longleftrightarrow> (i_ftype (inode_of xal j) \<noteq> XAL_ODF_DIR3_FT_UNKNOWN \<longrightarrow> name_ok (inode_of xal j))"

text \<open>What the recursive call guarantees; \<open>P\<close> says whether the kernel returns proper names.\<close>

definition fi_post :: "bool \<Rightarrow> xal \<Rightarrow> nat \<Rightarrow> xal \<Rightarrow> bool" where
  "fi_post P xal self xal' \<longleftrightarrow> ino_post xal self xal' \<and> fresh xal'
     \<and> (P \<longrightarrow> (\<forall>j. n_inodes xal \<le> j \<longrightarrow> j < n_inodes xal' \<longrightarrow> named xal' j)
            \<and> (\<forall>d. d = self \<or> (n_inodes xal \<le> d \<and> d < n_inodes xal') \<longrightarrow> dn_ok xal' d))"

definition fpi_ok :: "bool \<Rightarrow> 'k process_path_fn \<Rightarrow> bool" where
  "fpi_ok P pi \<longleftrightarrow> (\<forall>path self s s'. pi path self s = (Ok (), s') \<longrightarrow> pool_ok (fst s) \<longrightarrow> fresh (fst s) \<longrightarrow>
     self < n_inodes (fst s) \<longrightarrow>
     fi_post P (fst s) self (fst s')
     \<and> (if i_ftype (inode_of (fst s') self) = XAL_ODF_DIR3_FT_UNKNOWN then fst s' = fst s
        else xal_inode_is_dir (inode_of (fst s') self) \<or> xal_inode_is_file (inode_of (fst s') self)))"

lemma fi_postD:
  assumes "fi_post P xal self xal'"
  shows "ino_post xal self xal'" "fresh xal'"
    "\<And>j. P \<Longrightarrow> n_inodes xal \<le> j \<Longrightarrow> j < n_inodes xal' \<Longrightarrow> named xal' j"
    "\<And>d. P \<Longrightarrow> d = self \<or> (n_inodes xal \<le> d \<and> d < n_inodes xal') \<Longrightarrow> dn_ok xal' d"
  using assms unfolding fi_post_def by blast+

lemma fpi_okD:
  assumes "fpi_ok P pi" "pi path self s = (Ok (), s')" "pool_ok (fst s)" "fresh (fst s)" "self < n_inodes (fst s)"
  shows "fi_post P (fst s) self (fst s')"
    "i_ftype (inode_of (fst s') self) = XAL_ODF_DIR3_FT_UNKNOWN \<Longrightarrow> fst s' = fst s"
    "i_ftype (inode_of (fst s') self) \<noteq> XAL_ODF_DIR3_FT_UNKNOWN \<Longrightarrow>
      xal_inode_is_dir (inode_of (fst s') self) \<or> xal_inode_is_file (inode_of (fst s') self)"
proof -
  have *: "fi_post P (fst s) self (fst s')
     \<and> (if i_ftype (inode_of (fst s') self) = XAL_ODF_DIR3_FT_UNKNOWN then fst s' = fst s
        else xal_inode_is_dir (inode_of (fst s') self) \<or> xal_inode_is_file (inode_of (fst s') self))"
    using assms unfolding fpi_ok_def by blast
  show "fi_post P (fst s) self (fst s')" using * by blast
  show "i_ftype (inode_of (fst s') self) = XAL_ODF_DIR3_FT_UNKNOWN \<Longrightarrow> fst s' = fst s" using * by simp
  show "i_ftype (inode_of (fst s') self) \<noteq> XAL_ODF_DIR3_FT_UNKNOWN \<Longrightarrow>
      xal_inode_is_dir (inode_of (fst s') self) \<or> xal_inode_is_file (inode_of (fst s') self)" using * by simp
qed

text \<open>Writing to the directory itself does not disturb what was done to its entries.\<close>

lemma put_inode_children: "d \<noteq> self \<Longrightarrow> children (put_inode xal self i) d = children xal d"
  by (simp add: children_def)

lemma sub_ok_put:
  assumes "sub_ok b xal d" "d \<noteq> self" "self < b"
  shows "sub_ok b (put_inode xal self i) d"
  by (rule sub_ok_frame [OF assms(1)]) (use assms in \<open>auto simp: sub_ok_def\<close>)

lemma visiting_put_self:
  assumes "visiting xal1 self lo b ns xal"
  shows "visiting xal1 self lo b ns (put_inode xal self i)"
proof -
  note V = visitingD [OF assms]
  have names: "names_of (put_inode xal self i) [lo..<lo + length ns] = names_of xal [lo..<lo + length ns]"
    using V(2) by auto
  have sub: "sub_ok b (put_inode xal self i) d" if "(lo \<le> d \<and> d < lo + length ns) \<or> (b \<le> d \<and> d < n_inodes xal)" for d
    by (rule sub_ok_put [OF V(9) [OF that]]) (use that V(2,3) in auto)
  show ?thesis
    using V(1-8) names sub unfolding visiting_def by (auto simp: pool_ok_def)
qed

text \<open>The names of what was processed, while the entries of \<open>self\<close> are visited.\<close>

definition nm_ok :: "nat \<Rightarrow> nat \<Rightarrow> nat \<Rightarrow> xal \<Rightarrow> bool" where
  "nm_ok lo m b xal \<longleftrightarrow> (\<forall>j. (lo \<le> j \<and> j < m) \<or> (b \<le> j \<and> j < n_inodes xal) \<longrightarrow> named xal j \<and> dn_ok xal j)"

lemma dn_ok_frame:
  assumes "dn_ok xal d" "inode_of xal' d = inode_of xal d"
    and "xal_inode_is_dir (inode_of xal d) \<Longrightarrow> \<forall>c \<in> set (children xal d). inode_of xal' c = inode_of xal c"
  shows "dn_ok xal' d"
proof -
  have "children xal' d = children xal d" using assms(2) by (simp add: children_def)
  moreover have "names_of xal' (children xal d) = names_of xal (children xal d)"
    if "xal_inode_is_dir (inode_of xal d)" using assms(3) [OF that] by simp
  ultimately show ?thesis using assms(1,2) unfolding dn_ok_def by metis
qed

lemma nm_ok_step:
  fixes xal child i
  defines "xalc \<equiv> put_inode xal child i"
  assumes v: "visiting xal1 self lo b ns xal" and child: "child = lo + length ns" "child < b"
    and post: "fi_post True xalc child xal'" and nm: "nm_ok lo child b xal" and i: "name_ok i"
  shows "nm_ok lo (Suc child) b xal'"
proof -
  note V = visitingD [OF v] and F = fi_postD [OF post]
  note P = ino_postD [OF F(1)]
  have n: "n_inodes xalc = n_inodes xal" by (simp add: xalc_def)
  have keep: "inode_of xal' j = inode_of xal j" if "j < n_inodes xal" "j \<noteq> child" for j
    using P(4) [of j] that by (simp add: n) (simp add: xalc_def)
  have "named xal' j \<and> dn_ok xal' j" if j: "(lo \<le> j \<and> j < Suc child) \<or> (b \<le> j \<and> j < n_inodes xal')" for j
  proof -
    consider "j = child" | "n_inodes xal \<le> j" "j < n_inodes xal'" "j \<noteq> child"
      | "(lo \<le> j \<and> j < child) \<or> (b \<le> j \<and> j < n_inodes xal)" "j \<noteq> child" "j < n_inodes xal"
      using j child V(4) not_less by fastforce
    then show ?thesis
    proof cases
      case 1
      have "name_ok (inode_of xal' child)" using P(5) i by (simp add: xalc_def same_label_def name_ok_def)
      then show ?thesis using 1 F(4) [OF TrueI, of child] by (simp add: named_def)
    next
      case 2
      then show ?thesis using F(3,4) [OF TrueI, of j] n by simp
    next
      case 3
      have old: "named xal j" "dn_ok xal j" using nm 3(1) by (auto simp: nm_ok_def)
      have "sub_ok b xal j" using V(9) [of j] 3(1) child(1) by blast
      then have ch: "\<forall>c \<in> set (children xal j). inode_of xal' c = inode_of xal c"
        if "xal_inode_is_dir (inode_of xal j)"
        using that keep child(2) by (auto simp: sub_ok_def dir_ok_def)
      show ?thesis using old keep [OF 3(3,2)] dn_ok_frame [OF old(2) keep [OF 3(3,2)] ch] by (simp add: named_def)
    qed
  qed
  then show ?thesis by (simp add: nm_ok_def)
qed

lemma nm_ok_put_self:
  assumes v: "visiting xal1 self lo b ns xal" and "nm_ok lo (lo + length ns) b xal"
  shows "nm_ok lo (lo + length ns) b (put_inode xal self i)"
proof -
  note V = visitingD [OF v]
  have "named (put_inode xal self i) j \<and> dn_ok (put_inode xal self i) j"
    if j: "(lo \<le> j \<and> j < lo + length ns) \<or> (b \<le> j \<and> j < n_inodes xal)" for j
  proof -
    have ne: "j \<noteq> self" using j V(2,3) by auto
    have "named xal j" "dn_ok xal j" using assms(2) j by (auto simp: nm_ok_def)
    moreover have "\<forall>c \<in> set (children xal j). inode_of (put_inode xal self i) c = inode_of xal c"
      if "xal_inode_is_dir (inode_of xal j)"
      using V(9) [OF j] that V(2,3) by (auto simp: sub_ok_def)
    ultimately show ?thesis using dn_ok_frame [of xal j "put_inode xal self i"] ne by (simp add: named_def)
  qed
  then show ?thesis by (simp add: nm_ok_def)
qed

text \<open>The directory while its entries are processed; the names in \<open>seen\<close> are.\<close>

definition dir_inv :: "bool \<Rightarrow> xal \<Rightarrow> nat \<Rightarrow> nat \<Rightarrow> nat \<Rightarrow> cstring list \<Rightarrow> xal \<Rightarrow> bool" where
  "dir_inv P xal1 self lo b seen xal \<longleftrightarrow> (\<exists>ns. visiting xal1 self lo b ns xal
     \<and> unat (i_idx (inode_of xal self)) = lo \<and> unat (i_count (inode_of xal self)) = length ns
     \<and> same_label (inode_of xal1 self) (inode_of xal self) \<and> fresh xal
     \<and> length ns \<le> length seen \<and> sorted ns \<and> set ns \<subseteq> cstr ` set seen
     \<and> (P \<longrightarrow> distinct ns \<and> nm_ok lo (lo + length ns) b xal))"

lemma label_cname: "i_cname (label_dentry nm p d) = cstr nm"
  by (simp add: label_dentry_def i_cname_def)

lemma cstr_plain: "0 \<notin> set nm \<Longrightarrow> cstr nm = nm"
  by (auto simp: cstr_def takeWhile_eq_all_conv)

lemma label_name_ok:
  assumes "plain [nm]" "length nm \<le> XAL_INODE_NAME_MAXLEN"
  shows "name_ok (label_dentry nm p d)"
proof -
  have "unat (of_nat (length nm) :: u8) = length nm"
    using assms(2) by (simp add: unat_of_nat take_bit_nat_eq_self)
  then show ?thesis using assms(1) by (simp add: name_ok_def label_dentry_def plain_def)
qed

text \<open>One entry: its slot is the one behind those kept so far, and it either goes back to zero or is kept.\<close>

lemma process_entry_inv:
  assumes pi: "fpi_ok P pi" and run: "process_entry pi path self nm s = (Ok (), s')"
    and inv: "dir_inv P xal1 self lo b seen (fst s)" and room: "lo + length seen < b"
    and zero: "\<And>j. lo \<le> j \<Longrightarrow> j < b \<Longrightarrow> inode_of xal1 j = zero_inode"
    and sorted: "\<And>x. x \<in> set seen \<Longrightarrow> cstr x \<le> cstr nm"
    and nm: "P \<Longrightarrow> plain [nm] \<and> cstr nm \<notin> cstr ` set seen"
  shows "dir_inv P xal1 self lo b (seen @ [nm]) (fst s')"
proof -
  let ?x = "fst s"
  obtain ns where v: "visiting xal1 self lo b ns ?x"
    and idx: "unat (i_idx (inode_of ?x self)) = lo" "unat (i_count (inode_of ?x self)) = length ns"
    and lab: "same_label (inode_of xal1 self) (inode_of ?x self)" and fr: "fresh ?x"
    and ns: "length ns \<le> length seen" "sorted ns" "set ns \<subseteq> cstr ` set seen"
    and names: "P \<Longrightarrow> distinct ns \<and> nm_ok lo (lo + length ns) b ?x"
    using inv unfolding dir_inv_def by blast
  note V = visitingD [OF v]
  define c where "c = lo + length ns"
  have c: "c < b" "c < n_inodes ?x" using ns(1) room V(4) by (simp_all add: c_def)
  have lim: "n_inodes ?x < 2 ^ 32" using V(1) by (simp add: pool_ok_def)
  have slot: "unat (i_idx (inode_of ?x self) + i_count (inode_of ?x self)) = c"
    using idx c(2) lim by (simp add: c_def unat_add_no_wrap)
  have "inode_of ?x c = inode_of xal1 c" using V(6) [of c] V(2) c by (simp add: c_def)
  then have zc: "inode_of ?x c = zero_inode" using zero [of c] c by (simp add: c_def)
  define i where "i = label_dentry nm (xal_inode_idx ?x self) (inode_of ?x c)"
  have len: "length nm \<le> XAL_INODE_NAME_MAXLEN" using run by (auto simp: process_entry_def Let_def split: if_splits)
  obtain s2 where s2: "pi (path_join path nm) c (on_xal (\<lambda>xal. put_inode xal c i) s) = (Ok (), s2)"
    and s': "fst s' = (if i_ftype (inode_of (fst s2) c) = XAL_ODF_DIR3_FT_UNKNOWN then put_inode (fst s2) c zero_inode
       else put_inode (fst s2) self ((inode_of (fst s2) self)\<lparr>i_count := i_count (inode_of (fst s2) self) + 1\<rparr>))"
    using run slot len unfolding process_entry_def i_def
    by (auto simp: Let_def bind_st_Ok_iff on_xal_def split: option.splits if_splits)
  have pre: "pool_ok (put_inode ?x c i)" "fresh (put_inode ?x c i)" "c < n_inodes (put_inode ?x c i)"
    using V(1) fr c(2) fresh_put by (simp_all add: pool_ok_def)
  note F = fpi_okD [OF pi s2, unfolded on_xal_simps, OF pre]
  show ?thesis
  proof (cases "i_ftype (inode_of (fst s2) c) = XAL_ODF_DIR3_FT_UNKNOWN")
    case True
    then have "fst s' = put_inode ?x c zero_inode" using s' F(2) by simp
    then have "fst s' = ?x" using zc put_inode_same [of ?x c] by simp
    then show ?thesis using v idx lab fr ns names unfolding dir_inv_def by fastforce
  next
    case False
    have "self < n_inodes ?x" using V(2) c by (simp add: c_def)
    then have parent: "unat (i_parent i) = self" using pool_ok_idx [OF V(1)] by (simp add: i_def label_dentry_def)
    have cn: "i_cname i = cstr nm" by (simp add: i_def label_cname)
    note step = visiting_step [OF v c_def c(1) parent fi_postD(1) [OF F(1)] F(3) [OF False], unfolded cn]
    let ?y = "put_inode (fst s2) self ((inode_of (fst s2) self)\<lparr>i_count := i_count (inode_of (fst s2) self) + 1\<rparr>)"
    have y: "fst s' = ?y" using s' False by simp
    have "unat (i_count (inode_of ?x self) + 1) = Suc (length ns)"
      using idx(2) c lim unat_add_no_wrap [of "i_count (inode_of ?x self)" 1] by (simp add: c_def)
    then have cnt: "unat (i_count (inode_of ?y self)) = length (ns @ [cstr nm])" using step(2) by simp
    have fy: "fresh ?y"
      using fi_postD(2) [OF F(1)] V(2) visitingD(4) [OF step(1)] c by (intro fresh_put) (simp_all add: c_def)
    have sorted': "sorted (ns @ [cstr nm])" using ns(2,3) sorted by (auto simp: sorted_append)
    have "nm_ok lo (Suc c) b (fst s2)" if P
      using nm_ok_step [OF v c_def c(1)] F(1) names nm that label_name_ok [OF _ len] by (simp add: c_def i_def)
    then have names': "P \<Longrightarrow> distinct (ns @ [cstr nm]) \<and> nm_ok lo (lo + length (ns @ [cstr nm])) b ?y"
      using nm_ok_put_self [OF step(1)] names nm ns(3) by (auto simp: c_def)
    show ?thesis unfolding dir_inv_def y
      using visiting_put_self [OF step(1)] cnt fy sorted' names' idx(1) lab step(2) ns(1,3)
      by (intro exI [of _ "ns @ [cstr nm]"]) (auto simp: same_label_def)
  qed
qed

lemma claim_entries_ok:
  assumes "claim_entries K self n s = (Ok (), s')" "pool_ok (fst s)" "fresh (fst s)" "self < n_inodes (fst s)"
    and "n * 8 < 2 ^ 63"
  shows "pool_ok (fst s')" "fresh (fst s')" "n_inodes (fst s') = n_inodes (fst s) + n"
    "h_root_idx (fst s') = h_root_idx (fst s)"
    "inode_of (fst s') = (inode_of (fst s))(self :=
       (inode_of (fst s) self)\<lparr>i_idx := of_nat (n_inodes (fst s)), i_count := 0\<rparr>)"
proof -
  let ?p = "h_inodes (fst s)"
  obtain idx pool where claim: "xal_pool_claim_inodes (k_os K) ?p (of_nat n) = (Inr idx, pool)"
    and s': "fst s' = put_inode ((fst s)\<lparr>h_inodes := pool\<rparr>) self ((inode_of (fst s) self)\<lparr>i_idx := idx, i_count := 0\<rparr>)"
    using assms(1) by (auto simp: claim_entries_def on_xal_def split: prod.splits sum.splits)
  have n: "unat (of_nat n :: u64) = n" using assms(5) by (simp add: unat_of_nat take_bit_nat_eq_self)
  have inv: "pool_inv ?p" "unat (free ?p) < 2 ^ 32" using assms(2) by (simp_all add: pool_ok_def)
  have nw: "unat (free ?p) + unat (of_nat n :: u64) < 2 ^ 64" using n inv(2) assms(5) by simp
  note ok = ino_pool.claim_ok [OF inv(1) nw claim] and fr = ino_pool.claim_frame [OF claim]
  have "of_nat (unat idx) = idx" by simp
  then have idx: "idx = of_nat (n_inodes (fst s))" using ok by simp
  show "pool_ok (fst s')" using ok ino_pool.claim_bound [OF claim] by (simp add: s' pool_ok_def)
  show "n_inodes (fst s') = n_inodes (fst s) + n" using ok n by (simp add: s')
  show "h_root_idx (fst s') = h_root_idx (fst s)" by (simp add: s')
  show "inode_of (fst s') = (inode_of (fst s))(self :=
       (inode_of (fst s) self)\<lparr>i_idx := of_nat (n_inodes (fst s)), i_count := 0\<rparr>)"
    using fr by (simp add: s' idx)
  have "pool_fresh zero_inode pool" by (rule ino_pool.claim_fresh [OF assms(3) inv(1) nw claim])
  then show "fresh (fst s')" unfolding s' using ok assms(4) by (intro fresh_put) simp_all
qed

text \<open>The names a directory is read for, sorted as the entries of the index must be.\<close>

lemma sorted_dirents:
  assumes "qsort compare_dirent entries = seen @ nm # rest" "x \<in> set seen"
  shows "cstr x \<le> cstr nm"
proof -
  have "sorted (map cstr (seen @ nm # rest))" using by_dirent.qsort_sorted [of entries] assms(1) by simp
  then show ?thesis using assms(2) by (auto simp: sorted_append)
qed

lemma loop_inv:
  assumes pi: "fpi_ok P pi" and run: "for_st (qsort compare_dirent entries) (process_entry pi path self) s = (Ok (), s')"
    and ok: "pool_ok (fst s)" "fresh (fst s)" "self < lo" "n_inodes (fst s) = lo + length entries"
    and idx: "unat (i_idx (inode_of (fst s) self)) = lo" "i_count (inode_of (fst s) self) = 0"
    and zero: "\<And>j. lo \<le> j \<Longrightarrow> inode_of (fst s) j = zero_inode"
    and names: "P \<Longrightarrow> distinct entries \<and> plain entries"
  shows "dir_inv P (fst s) self lo (n_inodes (fst s)) (qsort compare_dirent entries) (fst s')"
proof (rule for_st_prefix_inv [OF run, where I = "\<lambda>seen t. dir_inv P (fst s) self lo (n_inodes (fst s)) seen (fst t)"])
  have "visiting (fst s) self lo (n_inodes (fst s)) [] (fst s)"
    by (rule visiting_start) (use ok in simp_all)
  then show "dir_inv P (fst s) self lo (n_inodes (fst s)) [] (fst s)"
    using idx ok(2) by (auto simp: dir_inv_def nm_ok_def intro!: exI [of _ "[]"])
next
  fix seen nm rest t u
  assume split: "qsort compare_dirent entries = seen @ nm # rest"
    and inv: "dir_inv P (fst s) self lo (n_inodes (fst s)) seen (fst t)" and step: "process_entry pi path self nm t = (Ok (), u)"
  have mset: "mset (seen @ nm # rest) = mset entries" using by_dirent.qsort_mset split by metis
  then have len: "length entries = length (seen @ nm # rest)" by (metis size_mset)
  have nm: "plain [nm] \<and> cstr nm \<notin> cstr ` set seen" if P
  proof -
    have all: "distinct (seen @ nm # rest)" "set entries = set (seen @ nm # rest)"
      using names [OF that] mset mset_eq_imp_distinct_iff mset_eq_setD by metis+
    then have "0 \<notin> set x" if "x \<in> set (seen @ nm # rest)" for x
      using names [OF \<open>P\<close>] that by (auto simp: plain_def)
    then have "cstr x = x" if "x \<in> set (seen @ nm # rest)" for x using cstr_plain that by blast
    then have "cstr ` set seen = set seen" "cstr nm = nm" by (auto simp: image_def)
    then show ?thesis using all names [OF \<open>P\<close>] by (auto simp: plain_def)
  qed
  show "dir_inv P (fst s) self lo (n_inodes (fst s)) (seen @ [nm]) (fst u)"
    by (rule process_entry_inv [OF pi step inv])
       (use ok(4) len zero sorted_dirents [OF split] nm in auto)
qed

lemma dir_done:
  assumes inv: "dir_inv P xal1 self lo b entries xal" and n: "n_inodes xal0 = lo"
    and zero: "\<And>j. lo \<le> j \<Longrightarrow> j < b \<Longrightarrow> inode_of xal1 j = zero_inode"
    and frame: "\<And>j. j < lo \<Longrightarrow> j \<noteq> self \<Longrightarrow> inode_of xal1 j = inode_of xal0 j"
    and root: "h_root_idx xal1 = h_root_idx xal0" and label: "same_label (inode_of xal0 self) (inode_of xal1 self)"
  shows "fi_post P xal0 self xal"
proof -
  obtain ns where v: "visiting xal1 self lo b ns xal"
    and idx: "unat (i_idx (inode_of xal self)) = lo" "unat (i_count (inode_of xal self)) = length ns"
    and lab: "same_label (inode_of xal1 self) (inode_of xal self)" and fr: "fresh xal"
    and ns: "sorted ns" and names: "P \<Longrightarrow> distinct ns \<and> nm_ok lo (lo + length ns) b xal"
    using inv unfolding dir_inv_def by blast
  note V = visitingD [OF v]
  have rest: "inode_of xal j = zero_inode" if "lo + length ns \<le> j" "j < b" for j
    using V(6) [of j] V(2) that zero [of j] by simp
  have post: "ino_post xal0 self xal"
    by (rule visiting_finish [OF v n idx ns _ frame root same_label_trans [OF label lab]])
       (simp_all add: rest zero_inode_def xal_inode_is_dir_def)
  have "named xal j \<and> dn_ok xal j" if P "lo \<le> j" "j < n_inodes xal" for j
  proof (cases "lo + length ns \<le> j \<and> j < b")
    case True
    then show ?thesis using rest [of j] by (simp add: named_def dn_ok_def zero_inode_def xal_inode_is_dir_def)
  next
    case False
    then show ?thesis using names that by (auto simp: nm_ok_def)
  qed
  moreover have "dn_ok xal self" if P
    using names [OF that] V(7) by (simp add: dn_ok_def children_def idx)
  ultimately show ?thesis using post fr n unfolding fi_post_def by auto
qed

lemma fi_post_ipart:
  assumes "fi_post P xal self xal1" "ipart xal' = ipart xal1"
  shows "fi_post P xal self xal'"
proof -
  have eq: "h_inodes xal' = h_inodes xal1" "h_root_idx xal' = h_root_idx xal1" using ipartD [OF assms(2)] by auto
  have "sub_ok lo xal' d = sub_ok lo xal1 d" for lo d
    by (simp add: sub_ok_def dir_ok_def children_def eq)
  then show ?thesis using assms(1)
    by (simp add: fi_post_def ino_post_def pool_ok_def named_def dn_ok_def children_def eq)
qed

lemma fi_post_after:
  assumes "self_step xal self xal1" "fi_post P xal1 self xal'"
  shows "fi_post P xal self xal'"
  using assms ino_post_after [of xal self xal1 xal'] self_stepD(3) [OF assms(1)]
  by (auto simp: fi_post_def self_step_def)

lemma self_step_fi_post:
  assumes "self_step xal self xal'" "\<not> xal_inode_is_dir (inode_of xal' self)"
  shows "fi_post P xal self xal'"
  using assms only_self_post [of xal self xal'] self_stepD(3) [OF assms(1)]
  by (auto simp: fi_post_def self_step_def dn_ok_def)

lemma process_dir_post:
  assumes pi: "fpi_ok (dirents_ok K) pi"
    and run: "xal_be_fiemap_process_inode_dir pi K path self s = (Ok (), s')"
    and ok: "pool_ok (fst s)" "fresh (fst s)" "self < n_inodes (fst s)"
  shows "fi_post (dirents_ok K) (fst s) self (fst s')" "xal_inode_is_dir (inode_of (fst s) self)"
proof -
  obtain s1 es s2 entries s3 s4 s5 where
    1: "add_watch K path self s = (Ok (), s1)" and 2: "call (k_opendir K path) s1 = (Ok es, s2)"
    and 3: "collect_entries K (f_reflink (fbe_of (fst s2)) \<noteq> None) path es [] 0 s2 = (Ok entries, s3)"
    and 4: "claim_entries K self (length (qsort compare_dirent entries)) s3 = (Ok (), s4)"
    and 5: "for_st (qsort compare_dirent entries) (process_entry pi path self) s4 = (Ok (), s5)"
    and 6: "map_path K path self s5 = (Ok (), s')" and dir: "xal_inode_is_dir (inode_of (fst s) self)"
    using run by (auto simp: xal_be_fiemap_process_inode_dir_def Let_def bind_st_Ok_iff split: if_splits)
  show "xal_inode_is_dir (inode_of (fst s) self)" by (rule dir)
  have "ipart (fst s1) = ipart (fst s)" by (rule keeps_ret [OF keeps_add_watch 1]) simp
  moreover have "fst s2 = fst s1" by (rule call_xal [OF 2])
  moreover have "ipart (fst s3) = ipart (fst s2)" by (rule keeps_ret [OF keeps_collect 3])
  ultimately have "ipart (fst s3) = ipart (fst s)" by simp
  note eq = ipartD(1,2) [OF this]
  have len: "length (qsort compare_dirent entries) = length entries"
    using by_dirent.qsort_mset [of entries] by (metis size_mset)
  have small: "length entries * 8 < 2 ^ 63" using collect_entries_bound [OF 3] by simp
  have ok3: "pool_ok (fst s3)" "fresh (fst s3)" "self < n_inodes (fst s3)"
    using ok eq by (simp_all add: pool_ok_def)
  note C = claim_entries_ok [OF 4 ok3, unfolded len, OF small]
  let ?lo = "n_inodes (fst s3)"
  have zero: "inode_of (fst s4) j = zero_inode" if "?lo \<le> j" for j
    using C(5) ok3(2,3) that by (auto simp: pool_fresh_def)
  have idx: "unat (i_idx (inode_of (fst s4) self)) = ?lo" "i_count (inode_of (fst s4) self) = 0"
    using unat_free_u32 [OF ok3(1)] by (simp_all add: C(5))
  have names: "distinct entries \<and> plain entries" if "dirents_ok K"
  proof -
    obtain k k' where "k_opendir K path k = (Inr es, k')"
      using 2 by (auto simp: call_def split: prod.splits sum.splits)
    then have es: "distinct (map d_name es)" "plain (map d_name es)" using that unfolding dirents_ok_def by blast+
    then have "distinct entries" "set entries \<subseteq> set (map d_name es)" using collect_entries_names [OF 3] by simp_all
    then show ?thesis using es(2) unfolding plain_def by blast
  qed
  note L = loop_inv [OF pi 5 C(1,2) ok3(3) C(3) idx zero names]
  have "fi_post (dirents_ok K) (fst s3) self (fst s5)"
    by (rule dir_done [OF L refl]) (use zero C(4,5) in \<open>simp_all add: same_label_def\<close>)
  moreover have "self_step (fst s) self (fst s3)"
    by (rule self_step_ipart [OF ok(1,2)]) fact
  moreover have "ipart (fst s') = ipart (fst s5)" by (rule keeps_ret [OF keeps_map_path 6]) simp
  ultimately show "fi_post (dirents_ok K) (fst s) self (fst s')" using fi_post_after fi_post_ipart by blast
qed

lemma process_file_post:
  assumes "xal_be_fiemap_process_inode_file K path self s = (Ok (), s')"
    and "pool_ok (fst s)" "fresh (fst s)" "self < n_inodes (fst s)"
  shows "fi_post P (fst s) self (fst s')" "xal_inode_is_file (inode_of (fst s') self)"
proof -
  note F = process_file_step [OF assms]
  have "same_label (inode_of (fst s) self) (inode_of (fst s') self)" by (rule self_stepD(6) [OF F(1)])
  then show "xal_inode_is_file (inode_of (fst s') self)"
    using F(2) by (simp add: same_label_def xal_inode_is_file_def)
  then have "\<not> xal_inode_is_dir (inode_of (fst s') self)" by (simp add: xal_inode_is_dir_def xal_inode_is_file_def)
  then show "fi_post P (fst s) self (fst s')" using self_step_fi_post F(1) by blast
qed

lemma classify_label:
  "classify stx i = Some j \<Longrightarrow> same_label i j \<and> (i_ftype i = XAL_ODF_DIR3_FT_UNKNOWN \<longrightarrow> xal_inode_is_dir j \<or> xal_inode_is_file j)"
  by (auto simp: classify_def same_label_def xal_inode_is_dir_def xal_inode_is_file_def Let_def split: if_splits)

lemma classify_None: "classify stx i = None \<Longrightarrow> i_ftype i = XAL_ODF_DIR3_FT_UNKNOWN"
  by (auto simp: classify_def Let_def split: if_splits)

text \<open>Processing an inode does what is asked of it, at every depth.\<close>

lemma process_ino_fiemap_ok: "fpi_ok (dirents_ok K) (process_ino_fiemap fuel K)"
proof (induction fuel)
  case (Suc fuel)
  show ?case unfolding fpi_ok_def
  proof (intro allI impI)
    fix path self s s'
    assume run: "process_ino_fiemap (Suc fuel) K path self s = (Ok (), s')"
      and ok: "pool_ok (fst s)" "fresh (fst s)" "self < n_inodes (fst s)"
    obtain stx t where t: "call (k_statx K path) s = (Inr stx, t)"
      using run by (auto split: prod.splits sum.splits if_splits)
    have eq: "fst t = fst s" by (rule call_xal [OF t])
    show "fi_post (dirents_ok K) (fst s) self (fst s')
      \<and> (if i_ftype (inode_of (fst s') self) = XAL_ODF_DIR3_FT_UNKNOWN then fst s' = fst s
         else xal_inode_is_dir (inode_of (fst s') self) \<or> xal_inode_is_file (inode_of (fst s') self))"
    proof (cases "classify stx (inode_of (fst s) self)")
      case None
      then have "fst s' = fst s" using run t eq by simp
      then show ?thesis using classify_None [OF None] ok self_step_fi_post [OF self_step_refl [OF ok(1,2)]]
        by (simp add: xal_inode_is_dir_def)
    next
      case (Some i)
      let ?u = "on_xal (\<lambda>xal. put_inode xal self i) t"
      have lab: "same_label (inode_of (fst s) self) i" using classify_label [OF Some] by blast
      have step: "self_step (fst s) self (fst ?u)" using self_step_put [OF ok lab] eq by simp
      have oku: "pool_ok (fst ?u)" "fresh (fst ?u)" "self < n_inodes (fst ?u)"
        using self_stepD(1-3) [OF step] ok(3) by simp_all
      consider "xal_be_fiemap_process_inode_dir (process_ino_fiemap fuel K) K path self ?u = (Ok (), s')"
        | "xal_be_fiemap_process_inode_file K path self ?u = (Ok (), s')"
        using run t eq Some by (auto simp: Let_def split: if_splits)
      then have "fi_post (dirents_ok K) (fst ?u) self (fst s')
          \<and> (xal_inode_is_dir (inode_of (fst s') self) \<or> xal_inode_is_file (inode_of (fst s') self))"
      proof cases
        case 1
        note D = process_dir_post [OF Suc 1 oku]
        then have "same_label (inode_of (fst ?u) self) (inode_of (fst s') self)"
          using ino_postD(5) [OF fi_postD(1)] by blast
        then show ?thesis using D by (auto simp: same_label_def xal_inode_is_dir_def)
      next
        case 2
        then show ?thesis using process_file_post [OF 2 oku] by blast
      qed
      then show ?thesis using fi_post_after [OF step]
        by (auto simp: xal_inode_is_dir_def xal_inode_is_file_def)
    qed
  qed
qed (simp add: fpi_ok_def)

section \<open>The rebuild\<close>

lemma keeps_core_claim [keeps_intros]: "keeps core (claim_entries K inode n)"
  by (auto simp: keeps_def claim_entries_def on_xal_def split: prod.split sum.split)

lemma keeps_core_process_entry:
  assumes "\<And>path self. keeps core (pi path self)"
  shows "keeps core (process_entry pi path inode nm)"
proof -
  have pi: "core (fst (snd (pi p i s))) = core (fst s)" for p i s by (rule keepsD [OF assms])
  show ?thesis unfolding keeps_def process_entry_def Let_def
    by (auto simp: pi snd_bind_st [of "\<lambda>s. core (fst s)"] split: option.split)
qed

lemma keeps_core_dir:
  assumes "\<And>path self. keeps core (pi path self)"
  shows "keeps core (xal_be_fiemap_process_inode_dir pi K path inode)"
proof -
  have w: "keeps core (add_watch K path inode)" by (intro keeps_intros) (simp add: set_inotify_def)
  have m: "keeps core (map_path K path inode)" by (intro keeps_intros) simp
  have l: "keeps core (for_st es (process_entry pi path inode))" for es
    by (intro keeps_intros keeps_core_process_entry assms)
  have "core (fst (snd (add_watch K path inode s))) = core (fst s)" "core (fst (snd (map_path K path inode s))) = core (fst s)"
    "core (fst (snd (for_st es (process_entry pi path inode) s))) = core (fst s)"
    "core (fst (snd (claim_entries K inode n s))) = core (fst s)"
    "core (fst (snd (collect_entries K rl path ds en cap s))) = core (fst s)" for s es n rl ds en cap
    using keepsD [OF w] keepsD [OF m] keepsD [OF l] keepsD [OF keeps_core_claim] keepsD [OF keeps_collect, of core] by blast+
  then show ?thesis unfolding keeps_def xal_be_fiemap_process_inode_dir_def Let_def
    by (simp add: snd_bind_st [of "\<lambda>s. core (fst s)"] del: split_paired_All)
qed

lemma keeps_core_file: "keeps core (xal_be_fiemap_process_inode_file K path inode)"
proof -
  have f: "keeps core (put_fe idx fes i)" for idx fes i
    by (simp add: keeps_def put_fe_def split: option.split)
  have st: "keeps core (store_extents K inode fes)" for fes
  proof -
    have fl: "core (fst (snd (for_st xs (put_fe idx fes) s))) = core (fst s)" for xs idx s
      by (rule keepsD [OF keeps_for [OF f]])
    show ?thesis unfolding keeps_def store_extents_def
      by (simp add: fl del: split_paired_All split: prod.split sum.split)
  qed
  have mp: "keeps core (map_path K path inode)" by (intro keeps_intros) simp
  have mf: "keeps core (map_fd_extents K fd inode)" for fd
    unfolding map_fd_extents_def read_fiemap_def by (intro keeps_intros st)
  have cl: "keeps core (reflink_clone_file K rl fd)" for rl fd by (intro keeps_intros) simp
  have "keeps core (\<lambda>s. bind_st (reflink_clone_file K rl fd s)
      (\<lambda>c s. close_after K c (map_fd_extents K c inode s)))" for rl fd
    by (intro keeps_intros cl mf)
  then have fx: "keeps core (file_extents K fd inode)" for fd
    unfolding file_extents_def
    by (intro keeps_intros) (simp_all add: keeps_def keepsD [OF mf] split: option.split)
  have fd: "keeps core (\<lambda>s. bind_st (close_after K fd (file_extents K fd inode s)) (\<lambda>_ s. map_path K path inode s))" for fd
    by (intro keeps_intros fx mp)
  show ?thesis unfolding keeps_def xal_be_fiemap_process_inode_file_def
    using keepsD [OF fd] call_xal by (fastforce split: prod.split sum.split)
qed

lemma keeps_core_process_ino: "keeps core (process_ino_fiemap fuel K path self)"
proof (induction fuel arbitrary: path self)
  case (Suc fuel)
  note d = keepsD [OF keeps_core_dir [OF Suc]] and f = keepsD [OF keeps_core_file]
  show ?case unfolding keeps_def
    using call_xal by (fastforce simp: d f Let_def split: prod.split sum.split option.split)
qed (simp add: keeps_def)

lemma keeps_check_roots: "keeps g (check_roots K be)"
  by (simp add: keeps_def check_roots_def snd_bind_st [of "\<lambda>s. g (fst s)"] split: option.split)

lemma keeps_clear_watches:
  assumes "\<And>xal i. g (set_inotify xal i) = g xal"
  shows "keeps g (clear_watches dfuel K)"
proof -
  have "keeps g (\<lambda>s. bind_st (xal_be_fiemap_inotify_clear_inode_map K ino s)
      (\<lambda>_ s. xal_be_fiemap_inotify_drain dfuel K ino s))" for ino
    by (intro keeps_intros) (simp add: keeps_def xal_be_fiemap_inotify_clear_inode_map_def assms)
  then show ?thesis by (simp add: keeps_def clear_watches_def split: option.split)
qed

lemma ipart_sweep [simp]: "ipart (fst (sweep_clones K s)) = ipart (fst s)"
  by (simp add: sweep_clones_def split: option.split)

lemma clear_index_fields:
  "h_inodes (clear_index xal) = xal_pool_clear zero_inode (h_inodes xal)" "core (clear_index xal) = core xal"
  by (simp_all add: clear_index_def Let_def clear_pools_def core_def set_fbe_def xal_pool_clear_def)

lemma keeps_core_rebuild: "core (fst (snd (fiemap_rebuild fuel dfuel K s))) = core (fst s)"
proof -
  have w: "core (fst (snd (clear_watches dfuel K s))) = core (fst s)" for s
    by (rule keepsD [OF keeps_clear_watches]) (simp add: set_inotify_def)
  have "core (fst (sweep_clones K s)) = core (fst s)" for s using ipartD(3) [OF ipart_sweep] .
  then show ?thesis unfolding fiemap_rebuild_def
    by (simp add: snd_bind_st [of "\<lambda>s. core (fst s)"] keepsD [OF keeps_check_roots, of core] w Let_def
        clear_index_fields keepsD [OF keeps_core_process_ino])
qed

lemma fiemap_index_bracket:
  assumes "fiemap_be_index fuel dfuel K k xal = (r, xal')"
  shows "r = Fail EINVAL \<and> xal' = xal
    \<or> (\<exists>mid. rebuilt (index_enter xal) mid \<and> finish_index (r, mid) = (r, xal'))"
proof (cases "f_mountpoint (fbe_of xal) = []")
  case True
  then show ?thesis using assms by (simp add: fiemap_be_index_def xal_be_fiemap_index_def)
next
  case False
  obtain r' mid k' where run: "fiemap_rebuild fuel dfuel K (index_enter xal, k) = (r', mid, k')" by (metis prod.exhaust)
  have fin: "finish_index (r', mid) = (r, xal')"
    using assms False run
    by (auto simp: fiemap_be_index_def xal_be_fiemap_index_def on_xal_def split: prod.splits)
  have "core mid = core (index_enter xal)"
    using keeps_core_rebuild [of fuel dfuel K "(index_enter xal, k)"] run by simp
  then have "rebuilt (index_enter xal) mid" by (rule rebuilt_core)
  then show ?thesis using fin finish_index_fst [OF fin] by blast
qed

text \<open>The pool a rebuild starts from: as mapped, or as left by an earlier rebuild.\<close>

definition pool_ready :: "xal \<Rightarrow> bool" where
  "pool_ready xal \<longleftrightarrow> pool_inv (h_inodes xal) \<and> fresh xal"

lemma rebuild_post:
  assumes "fiemap_rebuild fuel dfuel K s = (Ok (), s')" "pool_ready (fst s)"
  shows "\<exists>xal. pool_ok xal \<and> h_root_idx xal = 0 \<and> n_inodes xal = 1 \<and> i_ftype (inode_of xal 0) = XAL_ODF_DIR3_FT_DIR
    \<and> i_parent (inode_of xal 0) = XAL_POOL_IDX_NONE \<and> fi_post (dirents_ok K) xal 0 (fst s')"
proof -
  obtain s1 s2 s3 where 1: "check_roots K (fbe_of (fst s)) s = (Ok (), s1)"
    and 2: "clear_watches dfuel K (on_xal clear_index s1) = (Ok (), s2)"
    and s3: "(fst (claim_root (k_os K) (fst s2)), snd (claim_root (k_os K) (fst s2)), snd s2) = (Ok (), s3)"
    and 4: "process_ino_fiemap fuel K (walk_root (fbe_of (fst (sweep_clones K s3))))
        (unat (h_root_idx (fst (sweep_clones K s3)))) (sweep_clones K s3) = (Ok (), s')"
    using assms(1) unfolding fiemap_rebuild_def Let_def by (elim bind_st_OkE) simp
  have 3: "claim_root (k_os K) (fst s2) = (Ok (), fst s3)" using s3 by (auto simp: prod_eq_iff)
  have "fst s1 = fst s" using keeps_ret [OF keeps_check_roots 1, of "\<lambda>x. x"] .
  then have "ipart (fst s2) = ipart (clear_index (fst s))"
    using keeps_ret [OF keeps_clear_watches 2, of ipart] by simp
  then have p: "h_inodes (fst s2) = xal_pool_clear zero_inode (h_inodes (fst s))"
    using ipartD(1) clear_index_fields(1) by metis
  have empty: "pool_inv (h_inodes (fst s2))" "free (h_inodes (fst s2)) = 0" "\<And>j. inode_of (fst s2) j = zero_inode"
    using assms(2) unfolding p by (auto simp: pool_ready_def xal_pool_clear_def pool_inv_def pool_fresh_def)
  note R = claim_root_empty [OF 3 empty(1,2)]
  let ?t = "sweep_clones K s3"
  have eq: "h_inodes (fst ?t) = h_inodes (fst s3)" "h_root_idx (fst ?t) = h_root_idx (fst s3)"
    using ipartD [OF ipart_sweep [of K "s3"]] by simp_all
  have ok: "pool_ok (fst ?t)" "n_inodes (fst ?t) = 1" using R(1,3) eq by (simp_all add: pool_ok_def)
  have fr: "fresh (fst ?t)" using empty(3) R(3,4) eq by (simp add: pool_fresh_def)
  have "fi_post (dirents_ok K) (fst ?t) 0 (fst s')"
    by (rule fpi_okD [OF process_ino_fiemap_ok]) (use 4 eq R(2) ok fr in simp_all)
  then show ?thesis using ok R(2,4) eq by (intro exI [of _ "fst ?t"]) simp
qed

lemma fiemap_index_Ok:
  assumes "fiemap_be_index fuel dfuel K k xal = (Ok (), xal')"
  obtains s where "fiemap_rebuild fuel dfuel K (index_enter xal, k) = (Ok (), s)" "xal' = index_exit (fst s) None"
proof -
  obtain r mid k' where run: "fiemap_rebuild fuel dfuel K (index_enter xal, k) = (r, mid, k')" by (metis prod.exhaust)
  have "finish_index (r, mid) = (Ok (), xal')"
    using assms run by (auto simp: fiemap_be_index_def xal_be_fiemap_index_def on_xal_def split: prod.splits if_splits)
  then show thesis using finish_index_Ok [of "(r, mid)"] run that [of "(mid, k')"] by auto
qed

lemma pool_ready_enter [simp]: "pool_ready (index_enter xal) = pool_ready xal"
  by (simp add: pool_ready_def)

lemma fiemap_index_builds:
  assumes "fiemap_be_index fuel dfuel K k xal = (Ok (), xal')" "pool_ready xal"
  shows "index_wf xal' \<and> pool_ready xal' \<and> (dirents_ok K \<longrightarrow> names_ok xal')"
proof -
  obtain s where run: "fiemap_rebuild fuel dfuel K (index_enter xal, k) = (Ok (), s)" and xal': "xal' = index_exit (fst s) None"
    using fiemap_index_Ok [OF assms(1)] by blast
  obtain xal1 where x: "pool_ok xal1" "h_root_idx xal1 = 0" "n_inodes xal1 = 1"
    "i_ftype (inode_of xal1 0) = XAL_ODF_DIR3_FT_DIR" "i_parent (inode_of xal1 0) = XAL_POOL_IDX_NONE"
    and post: "fi_post (dirents_ok K) xal1 0 (fst s)"
    using rebuild_post [OF run] assms(2) by auto
  note F = fi_postD [OF post]
  have wf: "index_wf (fst s)" by (rule root_processed [OF x F(1)])
  have eq: "h_inodes xal' = h_inodes (fst s)" "h_root_idx xal' = h_root_idx (fst s)"
    by (simp_all add: xal' index_exit_frame)
  have "names_ok (fst s)" if "dirents_ok K"
  proof -
    have "dn_ok (fst s) d" if "d < n_inodes (fst s)" for d using F(4) [of d] \<open>dirents_ok K\<close> x(3) that by (cases "d = 0") auto
    moreover have "name_ok (inode_of (fst s) c)" if "d < n_inodes (fst s)" "xal_inode_is_dir (inode_of (fst s) d)"
      "c \<in> set (children (fst s) d)" for c d
    proof -
      have "dir_ok (fst s) d" using wf that by (simp add: index_wf_def tree_ok_def)
      note D = dir_okD [OF this that(3)]
      then have "named (fst s) c" using F(3) [of c] \<open>dirents_ok K\<close> x(3) by simp
      then show ?thesis using D(4) by (auto simp: named_def xal_inode_is_dir_def xal_inode_is_file_def)
    qed
    ultimately show ?thesis by (auto simp: names_ok_def dn_ok_def)
  qed
  moreover have "pool_ready (fst s)" using ino_postD(1) [OF F(1)] F(2) by (simp add: pool_ready_def pool_ok_def)
  ultimately show ?thesis using wf index_wf_frame [OF eq]
    by (simp add: pool_ready_def names_ok_def children_def eq)
qed

interpretation fiemap_index: index_backend "fiemap_be_index fuel dfuel K k" pool_ready
  for fuel dfuel K k
proof unfold_locales
  show "pool_ready (xal\<lparr>h_indexing := True\<rparr>) = pool_ready xal" for xal by (simp add: pool_ready_def)
qed (simp_all add: fiemap_index_bracket fiemap_index_builds)

lemma index_fiemap_result:
  assumes "pool_ready xal" "xal_index (fiemap_be_index fuel dfuel K k) xal = (Ok (), xal')"
  shows "index_wf xal' \<and> (dirents_ok K \<longrightarrow> names_ok xal') \<and> h_index_state xal' = XAL_STATE_CLEAN
    \<and> h_seq_lock xal' = h_seq_lock xal + 2 \<and> h_last_err xal' = None \<and> \<not> h_indexing xal' \<and> pool_ready xal'"
proof -
  obtain x where x: "fiemap_be_index fuel dfuel K k (xal\<lparr>h_indexing := True\<rparr>) = (Ok (), x)"
    "xal' = x\<lparr>h_last_err := None, h_indexing := False\<rparr>"
    using assms(2) by (auto simp: xal_index_def split: if_splits prod.splits sum.splits fault.splits)
  have "pool_ready (xal\<lparr>h_indexing := True\<rparr>)" using assms(1) by (simp add: pool_ready_def)
  from fiemap_index_builds [OF x(1) this]
  have "pool_ready xal'" "dirents_ok K \<longrightarrow> names_ok xal'"
    by (simp_all add: x(2) pool_ready_def names_ok_def children_def)
  then show ?thesis using fiemap_index.index_ok [OF assms(2)] assms(1) by blast
qed


text \<open>
  A file system for the witnesses: the mount point \<open>/m\<close> holds a file \<open>b\<close> of one extent, a directory \<open>a\<close> without
  entries and a symlink \<open>c\<close>; the kernel has no state.
\<close>

definition demo_kernel :: "'k kernel" where
  "demo_kernel = still_kernel\<lparr>
     k_statx := (\<lambda>path k. (if path = str ''/m'' \<or> path = str ''/m/a''
        then Inr \<lparr>stx_mode = 0x41ED, stx_ino = 100, stx_size = 0, stx_mount_root = False\<rparr>
        else if path = str ''/m/b'' then Inr \<lparr>stx_mode = 0x81A4, stx_ino = 101, stx_size = 4096, stx_mount_root = False\<rparr>
        else Inr \<lparr>stx_mode = 0xA1FF, stx_ino = 102, stx_size = 1, stx_mount_root = False\<rparr>, k)),
     k_lstat := (\<lambda>path k. (Inr \<lparr>st_mode = 0x41ED, st_dev = 7, st_ino = 100\<rparr>, k)),
     k_opendir := (\<lambda>path k. (if path = str ''/m'' then
        Inr [\<lparr>d_name = [dot], d_kind = DT_DIR\<rparr>, \<lparr>d_name = str ''b'', d_kind = DT_REG\<rparr>,
             \<lparr>d_name = str ''c'', d_kind = DT_REG\<rparr>, \<lparr>d_name = str ''a'', d_kind = DT_UNKNOWN\<rparr>]
        else Inr [], k)),
     k_open := (\<lambda>path flags k. (Inr 5, k)),
     k_fstat := (\<lambda>fd k. (Inr \<lparr>st_mode = 0x81A4, st_dev = 7, st_ino = 101\<rparr>, k)),
     k_fiemap := (\<lambda>fd sync n k. (Inr (1, if n = 0 then []
        else [\<lparr>fe_logical = 0, fe_physical = 8192, fe_length = 4096, fe_flags = 1\<rparr>]), k))\<rparr>"

definition demo_mount :: xal where
  "demo_mount = sample_xal\<lparr>h_be := Be_fiemap (sample_be\<lparr>f_path_inode_map := Some (\<lambda>_. None)\<rparr>),
     h_inodes := sample_pool 0 (\<lambda>_. zero_inode), h_extents := sample_pool 0 (\<lambda>_. zero_extent),
     h_root_idx := XAL_POOL_IDX_NONE\<rparr>"

definition demo_mount_indexed :: "unit res \<times> xal" where
  "demo_mount_indexed = xal_index (fiemap_be_index 3 1 demo_kernel ()) demo_mount"

lemma demo_mount_ok: "fst demo_mount_indexed = Ok ()"
  by code_simp

lemma demo_mount_ready: "pool_ready demo_mount"
  by (simp add: demo_mount_def sample_pool_def pool_inv_def pool_fresh_def pool_ready_def)

lemma demo_dirents: "dirents_ok demo_kernel"
  by (auto simp: dirents_ok_def demo_kernel_def plain_def str_def)


end
