(* ===== verification/Xal_Fiemap_Files.thy ===== *)
theory Xal_Fiemap_Files
  imports Xal_Fiemap_Correct
begin

text \<open>
  What the FIEMAP backend records of a file: the extents are those of the mapping the kernel reports, all
  of them and in its order, and no file descriptor is left open on any path, errors included.
\<close>

section \<open>Reading the mapping\<close>

text \<open>
  What the documentation of the ioctl (\<open>Documentation/filesystems/fiemap.rst\<close>) says of a file whose mapping
  is \<open>es\<close> and stays so: with no room it counts the extents, with room it writes as many as fit, and the last
  extent of the file is flagged. A call that flushes first may fail with the error of a past writeback.
\<close>

definition fiemap_answer :: "fiemap_extent list \<Rightarrow> u32 \<Rightarrow> u32 \<times> fiemap_extent list" where
  "fiemap_answer es n =
     (if n = 0 then (of_nat (length es), [])
      else (if unat n < length es then n else of_nat (length es), take (unat n) es))"

definition maps_as :: "'k kernel \<Rightarrow> fiemap_extent list \<Rightarrow> bool" where
  "maps_as K es \<longleftrightarrow> length es < 2 ^ 32 \<and> (es \<noteq> [] \<longrightarrow> fe_flags (last es) AND FIEMAP_EXTENT_LAST \<noteq> 0)
     \<and> (\<forall>fd n k. fst (k_fiemap K fd False n k) = Inr (fiemap_answer es n))
     \<and> (\<forall>fd n k. fst (k_fiemap K fd True n k) = Inr (fiemap_answer es n) \<or> (\<exists>e. fst (k_fiemap K fd True n k) = Inl e))"

lemma fiemap_ioctl_answer:
  assumes "maps_as K es"
  shows "\<exists>k'. fiemap_ioctl K fd sync n k = (Inr (fiemap_answer es n), k')"
proof -
  obtain r k1 where r: "k_fiemap K fd sync n k = (r, k1)" by fastforce
  have plain: "\<exists>k2. k_fiemap K fd False n k' = (Inr (fiemap_answer es n), k2)" for k'
    using assms unfolding maps_as_def by (metis prod.collapse)
  have "r = Inr (fiemap_answer es n) \<or> (sync \<and> (\<exists>e. r = Inl e))"
    using assms r unfolding maps_as_def by (cases sync) (metis fst_conv)+
  then show ?thesis using r plain [of k1] by (auto simp: fiemap_ioctl_def)
qed

lemma fiemap_attempts_exact:
  assumes "maps_as K es" "\<And>n k. fst (k_alloc K n k)"
  shows "fst (fiemap_attempts (Suc left) K fd sync s) = Ok es"
proof -
  have len: "length es < 2 ^ 32" using assms(1) by (simp add: maps_as_def)
  let ?n = "of_nat (length es) :: u32"
  have un: "unat ?n = length es" using len by (simp add: unat_of_nat take_bit_nat_eq_self)
  obtain k1 where 1: "fiemap_ioctl K fd sync 0 (snd s) = (Inr (?n, []), k1)"
    using fiemap_ioctl_answer [OF assms(1), of fd sync 0] by (auto simp: fiemap_answer_def)
  show ?thesis
  proof (cases "es = []")
    case True
    then show ?thesis using 1 by (simp add: call_def)
  next
    case False
    then have n: "?n \<noteq> 0" using un by (metis length_0_conv unat_0)
    obtain k2 where 2: "need_mem K (32 + 56 * unat ?n) ENOMEM (fst s, k1) = (Ok (), fst s, k2)"
      using assms(2) [of "32 + 56 * unat ?n" k1] len un by (cases "k_alloc K (32 + 56 * unat ?n) k1") (auto simp: need_mem_def)
    obtain k3 where 3: "fiemap_ioctl K fd False ?n k2 = (Inr (?n, es), k3)"
      using fiemap_ioctl_answer [OF assms(1), of fd False ?n k2] n un by (auto simp: fiemap_answer_def)
    have arr: "fm_extents (length es) es = es" by (simp add: fm_extents_def)
    have "fe_flags (es ! (length es - 1)) AND FIEMAP_EXTENT_LAST \<noteq> 0"
      using assms(1) False by (simp add: maps_as_def last_conv_nth)
    then show ?thesis using 1 2 3 n un arr by (simp add: call_def Let_def)
  qed
qed


definition one_extent :: fiemap_extent where
  "one_extent = \<lparr>fe_logical = 0, fe_physical = 8192, fe_length = 4096, fe_flags = 1\<rparr>"

lemma demo_maps: "maps_as demo_kernel [one_extent]"
  unfolding maps_as_def
  by (auto simp: demo_kernel_def fiemap_answer_def one_extent_def word_unat_eq_iff)

lemma demo_alloc: "fst (k_alloc demo_kernel n k)"
  by (simp add: demo_kernel_def still_kernel_def)


text \<open>What a successful attempt has seen: nothing mapped, the last extent of the file, or room left in the buffer.\<close>

lemma fiemap_attempts_complete:
  assumes "fiemap_attempts n K fd sync s = (Ok fes, s')"
  shows "(\<exists>b k es k'. fes = [] \<and> fiemap_ioctl K fd b 0 k = (Inr (0, es), k'))
    \<or> fes \<noteq> [] \<and> fe_flags (last fes) AND FIEMAP_EXTENT_LAST \<noteq> 0
    \<or> (\<exists>total k m es k'. fiemap_ioctl K fd False total k = (Inr (m, es), k') \<and> length fes = unat m \<and> m < total)"
  using assms
proof (induction n arbitrary: sync s)
  case (Suc n)
  obtain total es k1 where 1: "fiemap_ioctl K fd sync 0 (snd s) = (Inr (total, es), k1)"
    using Suc.prems by (auto simp: call_def bind_st_Ok_iff split: prod.splits sum.splits)
  show ?case
  proof (cases "total = 0")
    case True
    then show ?thesis using Suc.prems 1 by (auto simp: call_def)
  next
    case False
    have first: "call (fiemap_ioctl K fd sync 0) s = (Ok (total, es), fst s, k1)" using 1 by (simp add: call_def)
    from Suc.prems have "\<exists>w m es' v. call (fiemap_ioctl K fd False total) w = (Ok (m, es'), v)
        \<and> (let extents = fm_extents (unat total) es'
           in if m < total then (Ok (take (unat m) extents), v)
              else if total < m then (Inl Undef, v)
              else if fe_flags (extents ! (unat m - 1)) AND FIEMAP_EXTENT_LAST \<noteq> 0 then (Ok extents, v)
              else fiemap_attempts n K fd False v) = (Ok fes, s')"
      using first False unfolding fiemap_attempts.simps
      by (auto simp: first simp del: split_paired_Ex elim!: bind_st_OkE)
    then obtain w m es' v where call: "call (fiemap_ioctl K fd False total) w = (Ok (m, es'), v)"
      and r: "fes = take (unat m) (fm_extents (unat total) es') \<and> m < total
        \<or> m = total \<and> fes = fm_extents (unat total) es' \<and> fe_flags (fes ! (unat m - 1)) AND FIEMAP_EXTENT_LAST \<noteq> 0
        \<or> (\<exists>t. fiemap_attempts n K fd False t = (Ok fes, s'))"
      unfolding Let_def by (fastforce split: if_splits)
    obtain k3 where 2: "fiemap_ioctl K fd False total (snd w) = (Inr (m, es'), k3)"
      using call by (auto simp: call_def split: prod.splits sum.splits)
    have len: "length (fm_extents (unat total) es') = unat total" by (simp add: fm_extents_def)
    from r consider "fes = take (unat m) (fm_extents (unat total) es')" "m < total"
      | "m = total" "fes = fm_extents (unat total) es'" "fe_flags (fes ! (unat m - 1)) AND FIEMAP_EXTENT_LAST \<noteq> 0"
      | t where "fiemap_attempts n K fd False t = (Ok fes, s')" by blast
    then show ?thesis
    proof cases
      case 1
      then have "length fes = unat m" using len by (simp add: word_less_nat_alt)
      then show ?thesis using 2 1(2) by blast
    next
      case 2
      have "0 < unat total" using False by (simp add: unat_gt_0)
      then have "fes \<noteq> []" using 2 len by auto
      then show ?thesis using 2 len by (simp add: last_conv_nth)
    next
      case 3
      then show ?thesis by (rule Suc.IH)
    qed
  qed
qed simp

text \<open>
  C28: whatever the kernel answers, a mapping that was read is one the kernel reported as whole: nothing is
  mapped, or it ends with the last extent of the file, or it left room in the buffer. A mapping cut off at the
  size of the buffer is never taken for the whole.
\<close>

theorem read_fiemap_complete:
  assumes "read_fiemap K fd s = (Ok fes, s')"
  shows "(\<exists>b k es k'. fes = [] \<and> fiemap_ioctl K fd b 0 k = (Inr (0, es), k'))
    \<or> fes \<noteq> [] \<and> fe_flags (last fes) AND FIEMAP_EXTENT_LAST \<noteq> 0
    \<or> (\<exists>total k m es k'. fiemap_ioctl K fd False total k = (Inr (m, es), k') \<and> length fes = unat m \<and> m < total)"
  using assms unfolding read_fiemap_def by (rule fiemap_attempts_complete)

theorem read_fiemap_complete_witness:
  "fst (read_fiemap demo_kernel 5 (demo_mount, ())) = Ok [one_extent] \<and>
   ((\<exists>b (k :: unit) es k'. [one_extent] = [] \<and> fiemap_ioctl demo_kernel 5 b 0 k = (Inr (0, es), k'))
    \<or> [one_extent] \<noteq> [] \<and> fe_flags (last [one_extent]) AND FIEMAP_EXTENT_LAST \<noteq> 0
    \<or> (\<exists>total (k :: unit) m es k'. fiemap_ioctl demo_kernel 5 False total k = (Inr (m, es), k')
         \<and> length [one_extent] = unat m \<and> m < total))"
proof
  have ok: "fst (fiemap_attempts 8 demo_kernel 5 True (demo_mount, ())) = Ok [one_extent]"
    using fiemap_attempts_exact [OF demo_maps demo_alloc, of 7] by (simp add: eval_nat_numeral)
  then show "fst (read_fiemap demo_kernel 5 (demo_mount, ())) = Ok [one_extent]" by (simp add: read_fiemap_def)
  from this have "read_fiemap demo_kernel 5 (demo_mount, ()) = (Ok [one_extent], snd (read_fiemap demo_kernel 5 (demo_mount, ())))"
    by (simp add: prod_eq_iff)
  then show "(\<exists>b (k :: unit) es k'. [one_extent] = [] \<and> fiemap_ioctl demo_kernel 5 b 0 k = (Inr (0, es), k'))
    \<or> [one_extent] \<noteq> [] \<and> fe_flags (last [one_extent]) AND FIEMAP_EXTENT_LAST \<noteq> 0
    \<or> (\<exists>total (k :: unit) m es k'. fiemap_ioctl demo_kernel 5 False total k = (Inr (m, es), k')
         \<and> length [one_extent] = unat m \<and> m < total)"
    by (rule read_fiemap_complete)
qed

section \<open>The extents of a file\<close>

text \<open>The extents an inode refers to, and a step that makes them those of the mapping \<open>es\<close>, past the extents in use.\<close>

definition inode_extents :: "xal \<Rightarrow> nat \<Rightarrow> xal_extent list" where
  "inode_extents xal i = map (extent_of xal)
     [unat (i_idx (inode_of xal i))..<unat (i_idx (inode_of xal i)) + unat (i_count (inode_of xal i))]"

definition records :: "xal \<Rightarrow> nat \<Rightarrow> fiemap_extent list \<Rightarrow> xal \<Rightarrow> bool" where
  "records xal inode es xal' \<longleftrightarrow>
     inode_extents xal' inode = map (extent_of_fe (sb_blocksize (h_sb xal))) es
     \<and> (\<forall>j < unat (free (h_extents xal)). extent_of xal' j = extent_of xal j)
     \<and> unat (free (h_extents xal')) = unat (free (h_extents xal)) + length es \<and> pool_inv (h_extents xal')"

abbreviation rpart :: "xal \<Rightarrow> xal_inode xal_pool \<times> xal_extent xal_pool \<times> xal_sb" where
  "rpart xal \<equiv> (h_inodes xal, h_extents xal, h_sb xal)"

lemma records_cong: "rpart xal1 = rpart xal \<Longrightarrow> rpart xal2 = rpart xal' \<Longrightarrow> records xal1 i es xal2 = records xal i es xal'"
  by (auto simp: records_def inode_extents_def)

lemma records_none:
  "pool_inv (h_extents xal) \<Longrightarrow> i_count (inode_of xal i) = 0 \<Longrightarrow> records xal i [] xal"
  by (simp add: records_def inode_extents_def)

lemma put_fe_Ok:
  "put_fe idx fes i s = (Ok (), s') \<Longrightarrow> s' = on_xal (\<lambda>xal. put_extent xal (unat (idx + of_nat i))
     (extent_of_fe (sb_blocksize (h_sb xal)) (fes ! i))) s"
  by (auto simp: put_fe_def split: option.splits if_splits)

lemma store_extents_records:
  assumes "store_extents K inode fes s = (Ok (), s')" "pool_inv (h_extents (fst s))" "length fes < 2 ^ 32"
    and "i_count (inode_of (fst s) inode) = 0"
  shows "records (fst s) inode fes (fst s')"
proof (cases "fes = []")
  case True
  then show ?thesis using assms by (simp add: store_extents_def records_none)
next
  case False
  let ?p = "h_extents (fst s)" let ?n = "of_nat (length fes) :: u64" let ?bs = "sb_blocksize (h_sb (fst s))"
  obtain idx q where claim: "xal_pool_claim_extents (k_os K) ?p ?n = (Inr idx, q)"
    and run: "for_st [0..<length fes] (put_fe idx fes) (on_xal (\<lambda>xal. put_inode (xal\<lparr>h_extents := q\<rparr>) inode
       ((inode_of xal inode)\<lparr>i_idx := idx, i_count := of_nat (length fes)\<rparr>)) s) = (Ok (), s')"
    using assms(1) False by (auto simp: store_extents_def split: prod.splits sum.splits)
  have n: "unat ?n = length fes" "unat (of_nat (length fes) :: u32) = length fes"
    using assms(3) by (simp_all add: unat_of_nat take_bit_nat_eq_self)
  have "unat (free ?p) + unat ?n < 2 ^ 64" using pool_invD [OF assms(2)] assms(3) unfolding n(1) by simp
  note C = ext_pool.claim_ok [OF assms(2) this claim] ext_pool.claim_bound [OF claim] ext_pool.claim_frame [OF claim]
  have idx: "unat (idx + of_nat j) = unat (free ?p) + j" if "j < length fes" for j
    using C that n by (simp add: unat_word_ariths unat_of_nat)
  define I where "I k t \<longleftrightarrow> h_sb (fst t) = h_sb (fst s) \<and> free (h_extents (fst t)) = free q \<and> pool_inv (h_extents (fst t))
     \<and> i_idx (inode_of (fst t) inode) = idx \<and> i_count (inode_of (fst t) inode) = of_nat (length fes)
     \<and> (\<forall>j. extent_of (fst t) j = (if unat (free ?p) \<le> j \<and> j < unat (free ?p) + k
          then extent_of_fe ?bs (fes ! (j - unat (free ?p))) else extent_of (fst s) j))" for k and t :: "xal \<times> 'a"
  have "I (length fes) s'"
    using run
  proof (rule for_st_upt_inv)
    show "I 0 (on_xal (\<lambda>xal. put_inode (xal\<lparr>h_extents := q\<rparr>) inode
       ((inode_of xal inode)\<lparr>i_idx := idx, i_count := of_nat (length fes)\<rparr>)) s)" using C by (auto simp: I_def)
  next
    fix k t u assume "k < length fes" "I k t" "put_fe idx fes k t = (Ok (), u)"
    then show "I (Suc k) u" using idx [of k] put_fe_Ok [of idx fes k t u] unfolding I_def
      by (auto simp: put_extent_def pool_inv_def)
  qed
  note J = this [unfolded I_def]
  have i: "unat (i_idx (inode_of (fst s') inode)) = unat (free ?p)" "unat (i_count (inode_of (fst s') inode)) = length fes"
    using J C n(2) by simp_all
  have "inode_extents (fst s') inode = map (extent_of_fe ?bs) fes"
    unfolding inode_extents_def i by (rule nth_equalityI) (use J in simp_all)
  moreover have "unat (free (h_extents (fst s'))) = unat (free ?p) + length fes" using J C n(1) by simp
  ultimately show ?thesis using J unfolding records_def by simp
qed


text \<open>A kernel that keeps answering: the mapping of every file is \<open>es\<close> and memory does not run out.\<close>

lemma read_fiemap_Ok:
  assumes "maps_as K es" "\<And>n k. fst (k_alloc K n k)" "read_fiemap K fd s = (Ok fes, s')"
  shows "fes = es"
  using fiemap_attempts_exact [OF assms(1,2), of 7 fd True s] assms(3)
  by (simp add: read_fiemap_def eval_nat_numeral)

lemma map_fd_extents_records:
  assumes "maps_as K es" "\<And>n k. fst (k_alloc K n k)" "map_fd_extents K fd inode s = (Ok (), s')"
    and "pool_inv (h_extents (fst s))" "i_count (inode_of (fst s) inode) = 0"
  shows "records (fst s) inode es (fst s')"
proof -
  obtain t fes u where t: "need_mem K 32 ENOMEM s = (Ok (), t)" "read_fiemap K fd t = (Ok fes, u)"
    and st: "store_extents K inode fes u = (Ok (), s')"
    using assms(3) by (auto simp: map_fd_extents_def elim!: bind_st_OkE)
  have eq: "fst t = fst s" "fst u = fst t"
    using need_mem_xal [OF t(1)] keeps_ret [OF keeps_fiemap_attempts [where g = "\<lambda>x. x"] t(2) [unfolded read_fiemap_def]]
    by simp_all
  have fes: "fes = es" by (rule read_fiemap_Ok [OF assms(1,2) t(2)])
  have "length es < 2 ^ 32" using assms(1) by (simp add: maps_as_def)
  from store_extents_records [OF st [unfolded fes] _ this] show ?thesis using assms(4,5) eq by simp
qed

lemma file_extents_records:
  assumes "maps_as K es" "\<And>n k. fst (k_alloc K n k)" "file_extents K fd inode s = (Ok (), s')"
    and "pool_inv (h_extents (fst s))" "i_count (inode_of (fst s) inode) = 0"
  shows "records (fst s) inode es (fst s')"
proof -
  obtain st t where t: "call (k_fstat K fd) s = (Ok st, t)"
    and run: "(case f_reflink (fbe_of (fst t)) of
               None \<Rightarrow> map_fd_extents K fd inode t
             | Some rl \<Rightarrow> bind_st (reflink_clone_file K rl fd t)
                   (\<lambda>clone_fd s. close_after K clone_fd (map_fd_extents K clone_fd inode s))) = (Ok (), s')"
    using assms(3) by (auto simp: file_extents_def split: if_splits elim!: bind_st_OkE)
  have eq: "fst t = fst s" by (rule call_xal [OF t])
  show ?thesis
  proof (cases "f_reflink (fbe_of (fst t))")
    case None
    then show ?thesis using map_fd_extents_records [OF assms(1,2), of fd inode t s'] run assms(4,5) eq by simp
  next
    case (Some rl)
    then obtain c u v where u: "reflink_clone_file K rl fd t = (Ok c, u)" "map_fd_extents K c inode u = (Ok (), v)"
      "fst s' = fst v"
      using run by (auto elim!: bind_st_OkE dest!: close_after_Ok)
    have "rpart (fst u) = rpart (fst t)" by (rule keeps_ret [OF keeps_clone u(1)]) simp
    then show ?thesis using map_fd_extents_records [OF assms(1,2) u(2)] assms(4,5) eq u(3)
      records_cong [of "fst u" "fst s" "fst v" "fst s'"] by simp
  qed
qed

text \<open>
  C27: when a regular file is indexed, the extents its inode refers to afterwards are exactly the extents of the
  mapping the kernel reports, in order and in units of blocks, with their flags; the extents recorded before it
  keep their contents. This holds for the file itself and, in reflink snapshot mode, for its clone.
\<close>

theorem process_file_extents:
  assumes "maps_as K es" "\<And>n k. fst (k_alloc K n k)"
    and "xal_be_fiemap_process_inode_file K path inode s = (Ok (), s')"
    and "pool_inv (h_extents (fst s))" "i_count (inode_of (fst s) inode) = 0"
  shows "inode_extents (fst s') inode = map (extent_of_fe (sb_blocksize (h_sb (fst s)))) es
    \<and> (\<forall>j. j < unat (free (h_extents (fst s))) \<longrightarrow> extent_of (fst s') j = extent_of (fst s) j)"
proof -
  obtain fd t u v where t: "call (k_open K path O_rdonly_nofollow_nonblock) s = (Inr fd, t)"
    and u: "file_extents K fd inode t = (Ok (), u)" "fst v = fst u" and v: "map_path K path inode v = (Ok (), s')"
    using assms(3)
    by (auto simp: xal_be_fiemap_process_inode_file_def bind_st_Ok_iff split: if_splits prod.splits sum.splits
        dest!: close_after_Ok)
  have eq: "fst t = fst s" by (rule call_xal [OF t])
  have "rpart (fst s') = rpart (fst v)" by (rule keeps_ret [OF keeps_map_path v]) simp
  then have "records (fst s) inode es (fst s')"
    using file_extents_records [OF assms(1,2) u(1)] assms(4,5) eq u(2)
      records_cong [of "fst s" "fst s" "fst s'" "fst u"] by simp
  then show ?thesis by (simp add: records_def)
qed

definition demo_regular :: xal where
  "demo_regular = put_inode demo_mount 0 (zero_inode\<lparr>i_ftype := XAL_ODF_DIR3_FT_REG_FILE\<rparr>)"

lemma demo_regular_ok:
  "fst (xal_be_fiemap_process_inode_file demo_kernel (str ''/m/b'') 0 (demo_regular, ())) = Ok ()"
  by code_simp

theorem process_file_extents_witness:
  "inode_extents (fst (snd (xal_be_fiemap_process_inode_file demo_kernel (str ''/m/b'') 0 (demo_regular, ())))) 0
     = map (extent_of_fe (sb_blocksize (h_sb demo_regular))) [one_extent]"
proof -
  let ?r = "xal_be_fiemap_process_inode_file demo_kernel (str ''/m/b'') 0 (demo_regular, ())"
  have run: "?r = (Ok (), snd ?r)" using demo_regular_ok by (simp add: prod_eq_iff)
  have "pool_inv (h_extents (fst (demo_regular, ())))" "i_count (inode_of (fst (demo_regular, ())) 0) = 0"
    by (simp_all add: demo_regular_def demo_mount_def sample_pool_def pool_inv_def zero_inode_def)
  from process_file_extents [OF demo_maps demo_alloc run this] show ?thesis by simp
qed

end
