(* ===== verification/Xal_Fiemap_Fds.thy ===== *)
theory Xal_Fiemap_Fds
  imports Xal_Fiemap_Files
begin

text \<open>
  File descriptors. The FIEMAP backend opens a descriptor for every file, a second one for its clone, and one for
  every clone it removes; the theory shows that a rebuild leaves the table of open descriptors as it found it, on
  every outcome.
\<close>

section \<open>The descriptor table\<close>

text \<open>
  What POSIX says of the table \<open>fds\<close> of open descriptors: \<open>open()\<close> returns one that was not open, \<open>close()\<close> removes
  it, and the other calls of the walk neither open nor close any.
\<close>

definition opened :: "('k \<Rightarrow> int set) \<Rightarrow> 'k \<Rightarrow> 'e + int \<Rightarrow> 'k \<Rightarrow> bool" where
  "opened fds k r k' \<longleftrightarrow>
     (case r of Inl _ \<Rightarrow> fds k' = fds k | Inr fd \<Rightarrow> fd \<notin> fds k \<and> fds k' = insert fd (fds k))"

definition tracks_fds :: "'k kernel \<Rightarrow> ('k \<Rightarrow> int set) \<Rightarrow> bool" where
  "tracks_fds K fds \<longleftrightarrow>
     (\<forall>path flags k. opened fds k (fst (k_open K path flags k)) (snd (k_open K path flags k)))
     \<and> (\<forall>fd k. fds (k_close K fd k) = fds k - {fd})
     \<and> (\<forall>n k. fds (snd (k_alloc K n k)) = fds k) \<and> (\<forall>path k. fds (snd (k_statx K path k)) = fds k)
     \<and> (\<forall>dir nm k. fds (snd (k_statx_at K dir nm k)) = fds k) \<and> (\<forall>path k. fds (snd (k_lstat K path k)) = fds k)
     \<and> (\<forall>path k. fds (snd (k_opendir K path k)) = fds k) \<and> (\<forall>fd k. fds (snd (k_fstat K fd k)) = fds k)
     \<and> (\<forall>fd sync n k. fds (snd (k_fiemap K fd sync n k)) = fds k) \<and> (\<forall>fd k. fds (snd (k_getflags K fd k)) = fds k)
     \<and> (\<forall>fd v k. fds (snd (k_setflags K fd v k)) = fds k) \<and> (\<forall>fd k. fds (snd (k_getversion K fd k)) = fds k)
     \<and> (\<forall>fd fd' k. fds (snd (k_ficlone K fd fd' k)) = fds k) \<and> (\<forall>path k. fds (snd (k_unlink K path k)) = fds k)
     \<and> (\<forall>path k. fds (snd (k_rmdir K path k)) = fds k) \<and> (\<forall>path k. fds (snd (k_mkdir K path k)) = fds k)
     \<and> (\<forall>fd path k. fds (snd (k_inotify_add_watch K fd path k)) = fds k)
     \<and> (\<forall>fd wd k. fds (snd (k_inotify_rm_watch K fd wd k)) = fds k)
     \<and> (\<forall>fd k. fds (snd (k_read_events K fd k)) = fds k)"

lemma tracks_calls:
  assumes "tracks_fds K fds"
  shows "fds (snd (k_alloc K n k)) = fds k" "fds (snd (k_statx K path k)) = fds k"
    "fds (snd (k_statx_at K path nm k)) = fds k" "fds (snd (k_lstat K path k)) = fds k"
    "fds (snd (k_opendir K path k)) = fds k" "fds (snd (k_fstat K fd k)) = fds k"
    "fds (snd (k_fiemap K fd sync m k)) = fds k" "fds (snd (k_getflags K fd k)) = fds k"
    "fds (snd (k_setflags K fd m k)) = fds k" "fds (snd (k_getversion K fd k)) = fds k"
    "fds (snd (k_ficlone K fd fd' k)) = fds k" "fds (snd (k_unlink K path k)) = fds k"
    "fds (snd (k_rmdir K path k)) = fds k" "fds (snd (k_mkdir K path k)) = fds k"
    "fds (snd (k_inotify_add_watch K fd path k)) = fds k" "fds (snd (k_inotify_rm_watch K fd fd' k)) = fds k"
    "fds (snd (k_read_events K fd k)) = fds k" "fds (k_close K fd k) = fds k - {fd}"
  using assms by (simp_all add: tracks_fds_def)


lemma tracks_open:
  "tracks_fds K fds \<Longrightarrow> k_open K path flags k = (r, k') \<Longrightarrow> opened fds k r k'"
  unfolding tracks_fds_def by (metis fst_conv snd_conv)

lemma opened_simps [simp]:
  "opened fds k (Inl e) k' \<longleftrightarrow> fds k' = fds k"
  "opened fds k (Inr fd) k' \<longleftrightarrow> fd \<notin> fds k \<and> fds k' = insert fd (fds k)"
  by (simp_all add: opened_def)

lemma opened_from: "opened fds k1 r k' \<Longrightarrow> fds k1 = fds k \<Longrightarrow> opened fds k r k'"
  by (cases r) simp_all

lemma call_fds: "(\<And>k. fds (snd (f k)) = fds k) \<Longrightarrow> fds (snd (snd (call f s))) = fds (snd s)"
  by (simp add: call_def case_prod_unfold split: sum.split)

section \<open>Clones\<close>

lemma chattr_fds: "tracks_fds K fds \<Longrightarrow> fds (snd (reflink_chattr_immutable K fd b k)) = fds k"
  by (simp add: reflink_chattr_immutable_def case_prod_unfold tracks_calls split: sum.split)

lemma purge_entry_fds:
  assumes "tracks_fds K fds"
  shows "fds (purge_entry K dir e k) = fds k"
proof -
  have "fds (case k_open K path O_rdonly k of (Inl _, k) \<Rightarrow> k
      | (Inr fd, k) \<Rightarrow> k_close K fd (snd (reflink_chattr_immutable K fd False k))) = fds k" for path
    by (auto simp: tracks_calls [OF assms] chattr_fds [OF assms] split: prod.split sum.split dest!: tracks_open [OF assms])
  then show ?thesis by (simp add: purge_entry_def Let_def tracks_calls [OF assms])
qed

lemma fold_fds: "(\<And>e k. g (f e k) = g k) \<Longrightarrow> g (fold f es k) = g k"
  by (induction es arbitrary: k) simp_all

lemma dir_purge_fds: "tracks_fds K fds \<Longrightarrow> fds (reflink_dir_purge K dir k) = fds k"
  by (simp add: reflink_dir_purge_def case_prod_unfold tracks_calls fold_fds [of fds] purge_entry_fds split: sum.split)

lemma sweep_fds: "tracks_fds K fds \<Longrightarrow> fds (reflink_sweep_orphans K mountpoint k) = fds k"
  by (simp add: reflink_sweep_orphans_def sweep_entry_def Let_def case_prod_unfold tracks_calls dir_purge_fds
      fold_fds [of fds] split: sum.split)

lemma dir_prepare_fds: "tracks_fds K fds \<Longrightarrow> fds (snd (reflink_dir_prepare K rl k)) = fds k"
  by (simp add: reflink_dir_prepare_def case_prod_unfold tracks_calls dir_purge_fds split: sum.split)

text \<open>A clone is handed out as an open descriptor, and nothing else is left open; a failure leaves none.\<close>

lemma make_clone_opens:
  assumes T: "tracks_fds K fds"
  shows "opened fds k (fst (make_clone K path origin k)) (snd (make_clone K path origin k))"
proof -
  obtain r k1 where o1: "k_open K path O_rdwr_creat_excl k = (r, k1)" by fastforce
  show ?thesis
  proof (cases r)
    case (Inl e)
    then have k1: "fds k1 = fds k" using tracks_open [OF T o1] by simp
    obtain r' k2 where "k_open K path O_rdonly k1 = (r', k2)" by fastforce
    with tracks_open [OF T this] have "opened fds k (fst (k_open K path O_rdonly k1)) (snd (k_open K path O_rdonly k1))"
      using k1 by (auto intro: opened_from)
    then show ?thesis using Inl o1 k1 by (simp add: make_clone_def split: errno.split)
  next
    case (Inr cfd)
    then have k1: "cfd \<notin> fds k" "fds k1 = insert cfd (fds k)" using tracks_open [OF T o1] by simp_all
    have undo: "fds (snd (k_unlink K path (k_close K cfd k2))) = fds k" if "fds k2 = fds k1" for k2
      using that k1 by (simp add: tracks_calls [OF T])
    obtain c k2 where 2: "k_ficlone K cfd origin k1 = (c, k2)" by (rule prod.exhaust)
    obtain d k3 where 3: "reflink_chattr_immutable K cfd True k2 = (d, k3)" by (rule prod.exhaust)
    have k: "fds k2 = fds k1" "fds k3 = fds k1"
      using tracks_calls(11) [OF T, of cfd origin k1] chattr_fds [OF T, of cfd True k2] 2 3 by simp_all
    show ?thesis using o1 Inr 2 3 k undo [OF k(1)] undo [OF k(2)] k1
      by (cases c; cases d) (simp_all add: make_clone_def Let_def)
  qed
qed

lemma clone_at_opens:
  assumes T: "tracks_fds K fds"
  shows "opened fds k (fst (clone_at K dir origin k)) (snd (clone_at K dir origin k))"
proof -
  obtain sb k1 where 1: "k_fstat K origin k = (sb, k1)" by (rule prod.exhaust)
  obtain gen k2 where 2: "k_getversion K origin k1 = (gen, k2)" by (rule prod.exhaust)
  have k: "fds k1 = fds k" "fds k2 = fds k"
    using tracks_calls(6) [OF T, of origin k] tracks_calls(10) [OF T, of origin k1] 1 2 by simp_all
  show ?thesis using 1 2 k opened_from [OF make_clone_opens [OF T] k(2)]
    by (cases sb; cases gen) (simp_all add: clone_at_def Let_def)
qed

lemma clone_file_opens:
  assumes T: "tracks_fds K fds" and run: "reflink_clone_file K rl origin s = (r, s')"
  shows "opened fds (snd s) r (snd s')"
proof -
  obtain q t where q: "(if rl_dir_created rl then (Ok rl, s) else call (reflink_dir_prepare K rl) s) = (q, t)"
    by (rule prod.exhaust)
  have t: "fds (snd t) = fds (snd s)"
    using q call_fds [where fds = fds and f = "reflink_dir_prepare K rl", OF dir_prepare_fds [OF T], of s] by (simp split: if_splits)
  show ?thesis
  proof (cases q)
    case (Inl e)
    then show ?thesis using run t unfolding reflink_clone_file_def q by auto
  next
    case (Inr rl')
    obtain v k' where c: "clone_at K (rl_dir rl') origin (snd t) = (v, k')" by fastforce
    have "opened fds (snd t) v k'" using clone_at_opens [OF T, of "snd t" "rl_dir rl'" origin] c by simp
    then show ?thesis using run t c unfolding reflink_clone_file_def q Inr
      by (cases v) (auto simp: call_def)
  qed
qed


section \<open>The walk\<close>

text \<open>A step that leaves the table as it found it, on every outcome; the rules chain such steps.\<close>

definition balanced :: "('k \<Rightarrow> int set) \<Rightarrow> (xal \<times> 'k \<Rightarrow> 'a res \<times> xal \<times> 'k) \<Rightarrow> bool" where
  "balanced fds f \<longleftrightarrow> (\<forall>s. fds (snd (snd (f s))) = fds (snd s))"

lemma balancedD: "balanced fds f \<Longrightarrow> fds (snd (snd (f s))) = fds (snd s)"
  unfolding balanced_def by blast

lemma balanced_ret: "balanced fds f \<Longrightarrow> f s = (r, s') \<Longrightarrow> fds (snd s') = fds (snd s)"
  using balancedD [of fds f s] by simp

named_theorems balanced_intros

lemma balanced_bind [balanced_intros]:
  "balanced fds f \<Longrightarrow> (\<And>v. balanced fds (h v)) \<Longrightarrow> balanced fds (\<lambda>s. bind_st (f s) (\<lambda>v. h v))"
  unfolding balanced_def using snd_bind_st [of "\<lambda>s. fds (snd s)"] by metis

lemma balanced_for [balanced_intros]: "(\<And>i. balanced fds (f i)) \<Longrightarrow> balanced fds (for_st is f)"
  unfolding balanced_def using snd_for_st [of "\<lambda>s. fds (snd s)"] by metis

lemma balanced_if [balanced_intros]:
  "balanced fds f \<Longrightarrow> balanced fds h \<Longrightarrow> balanced fds (\<lambda>s. if b s then f s else h s)"
  by (simp add: balanced_def)

lemma balanced_option [balanced_intros]:
  "balanced fds f \<Longrightarrow> (\<And>v. balanced fds (h v)) \<Longrightarrow> balanced fds (\<lambda>s. case x s of None \<Rightarrow> f s | Some v \<Rightarrow> h v s)"
  by (simp add: balanced_def split: option.split)

lemma balanced_call [balanced_intros]: "(\<And>k. fds (snd (f k)) = fds k) \<Longrightarrow> balanced fds (call f)"
  by (simp add: balanced_def call_fds del: split_paired_All)

lemma balanced_pure [balanced_intros]: "balanced fds (\<lambda>s. (r, s))" "balanced fds (\<lambda>s. (r, on_xal u s))"
  by (simp_all add: balanced_def)

text \<open>A descriptor that is opened, used and closed.\<close>

lemma balanced_bracket:
  assumes T: "tracks_fds K fds" and "\<And>s r s'. f s = (r, s') \<Longrightarrow> opened fds (snd s) r (snd s')"
    and "\<And>fd. balanced fds (h fd)"
  shows "balanced fds (\<lambda>s. bind_st (f s) (\<lambda>fd s. close_after K fd (h fd s)))"
  unfolding balanced_def
proof
  fix s
  obtain r s' where f: "f s = (r, s')" by (rule prod.exhaust)
  show "fds (snd (snd (bind_st (f s) (\<lambda>fd s. close_after K fd (h fd s))))) = fds (snd s)"
    using assms(2) [OF f] f balancedD [OF assms(3)] by (cases r) (auto simp: close_after_def tracks_calls [OF T])
qed

lemma balanced_mem [balanced_intros]: "tracks_fds K fds \<Longrightarrow> balanced fds (need_mem K n e)"
  by (simp add: balanced_def need_mem_def case_prod_unfold tracks_calls)

lemma ioctl_fds: "tracks_fds K fds \<Longrightarrow> fds (snd (fiemap_ioctl K fd sync n k)) = fds k"
  by (simp add: fiemap_ioctl_def case_prod_unfold tracks_calls split: sum.split)

lemma balanced_attempts [balanced_intros]:
  assumes T: "tracks_fds K fds"
  shows "balanced fds (fiemap_attempts n K fd sync)"
proof (induction n arbitrary: sync)
  case (Suc n)
  show ?case unfolding fiemap_attempts.simps Let_def case_prod_unfold
    by (intro balanced_intros ioctl_fds T Suc)
qed (simp add: balanced_def)

lemma balanced_map_path [balanced_intros]: "tracks_fds K fds \<Longrightarrow> balanced fds (map_path K path inode)"
  unfolding map_path_def path_map_insert_def by (intro balanced_intros)

lemma balanced_store [balanced_intros]: "balanced fds (store_extents K inode fes)"
proof -
  have f: "balanced fds (put_fe idx fes i)" for idx i by (simp add: balanced_def put_fe_def split: option.split)
  show ?thesis unfolding balanced_def store_extents_def
    by (simp add: balancedD [OF balanced_for [OF f]] split: prod.split sum.split)
qed

lemma balanced_map_fd [balanced_intros]: "tracks_fds K fds \<Longrightarrow> balanced fds (map_fd_extents K fd inode)"
  unfolding map_fd_extents_def read_fiemap_def by (intro balanced_intros)

lemma balanced_file_extents [balanced_intros]:
  assumes T: "tracks_fds K fds"
  shows "balanced fds (file_extents K fd inode)"
  unfolding file_extents_def
  by (intro balanced_intros balanced_bracket [OF T clone_file_opens [OF T]] tracks_calls(6) T)

lemma open_opens:
  "tracks_fds K fds \<Longrightarrow> call (k_open K path flags) s = (r, s') \<Longrightarrow> opened fds (snd s) r (snd s')"
  by (auto simp: call_def split: prod.splits sum.splits dest!: tracks_open)

lemma balanced_process_file [balanced_intros]:
  assumes T: "tracks_fds K fds"
  shows "balanced fds (xal_be_fiemap_process_inode_file K path inode)"
proof -
  let ?open = "call (k_open K path O_rdonly_nofollow_nonblock)"
  have b: "balanced fds (\<lambda>s. bind_st (bind_st (?open s) (\<lambda>fd s. close_after K fd (file_extents K fd inode s)))
      (\<lambda>_ s. map_path K path inode s))"
    by (intro balanced_intros balanced_bracket [OF T open_opens [OF T]] T)
  have "fds (snd (snd (xal_be_fiemap_process_inode_file K path inode s))) = fds (snd s)" for s
  proof -
    obtain r t where "?open s = (r, t)" by (rule prod.exhaust)
    then show ?thesis using balancedD [OF b, of s] open_opens [OF T, of path O_rdonly_nofollow_nonblock s]
      by (cases r) (auto simp: xal_be_fiemap_process_inode_file_def)
  qed
  then show ?thesis by (simp add: balanced_def del: split_paired_All)
qed

lemma skipped_fds: "tracks_fds K fds \<Longrightarrow> fds (snd (is_skipped K dir e k)) = fds k"
  by (simp add: is_skipped_def case_prod_unfold tracks_calls split: sum.split)

lemma collect_fds:
  assumes T: "tracks_fds K fds"
  shows "fds (snd (snd (collect_entries K rl path es entries cap s))) = fds (snd s)"
proof (induction es arbitrary: rl entries cap s)
  case (Cons e es)
  obtain b k where p: "is_skipped K path e (snd s) = (b, k)" by (rule prod.exhaust)
  have k: "fds k = fds (snd s)" using skipped_fds [OF T, of path e "snd s"] p by simp
  have "fds (snd (snd (bind_st (if full then need_mem K m ENOMEM (fst s, k) else (Ok (), fst s, k))
      (\<lambda>_ s. bind_st (need_mem K (length (d_name e) + 1) ENOMEM s)
         (\<lambda>_ s. collect_entries K rl path es en c s))))) = fds (snd s)" for full m en c
    by (simp add: snd_bind_st [of "\<lambda>s. fds (snd s)"] Cons balancedD [OF balanced_mem [OF T]] k)
  then show ?case using p k by (cases b) (simp_all add: Let_def Cons)
qed simp

lemma balanced_collect [balanced_intros]:
  "tracks_fds K fds \<Longrightarrow> balanced fds (\<lambda>s. collect_entries K (rl s) path es entries cap s)"
  by (simp add: balanced_def collect_fds del: split_paired_All)

lemma balanced_add_watch [balanced_intros]:
  "tracks_fds K fds \<Longrightarrow> balanced fds (add_watch K path inode)"
  unfolding add_watch_def xal_be_fiemap_inotify_add_watcher_def
  by (intro balanced_intros tracks_calls)

lemma balanced_claim [balanced_intros]: "balanced fds (claim_entries K inode n)"
  by (simp add: balanced_def claim_entries_def split: prod.split sum.split)

lemma balanced_process_entry [balanced_intros]:
  assumes "\<And>p i. balanced fds (pi p i)"
  shows "balanced fds (process_entry pi path inode nm)"
  unfolding balanced_def process_entry_def Let_def
  by (auto simp: snd_bind_st [of "\<lambda>s. fds (snd s)"] balancedD [OF assms] split: option.split)

lemma balanced_process_dir [balanced_intros]:
  assumes "tracks_fds K fds" "\<And>p i. balanced fds (pi p i)"
  shows "balanced fds (xal_be_fiemap_process_inode_dir pi K path inode)"
  unfolding xal_be_fiemap_process_inode_dir_def Let_def
  by (intro balanced_intros tracks_calls assms)

lemma balanced_process_ino [balanced_intros]:
  assumes T: "tracks_fds K fds"
  shows "balanced fds (process_ino_fiemap fuel K path self)"
proof (induction fuel arbitrary: path self)
  case (Suc fuel)
  have "fds (snd (snd (process_ino_fiemap (Suc fuel) K path self s))) = fds (snd s)" for s
  proof -
    obtain r t where r: "call (k_statx K path) s = (r, t)" by (rule prod.exhaust)
    have t: "fds (snd t) = fds (snd s)" using call_fds [of fds "k_statx K path" s] tracks_calls [OF T] r by simp
    note d = balancedD [OF balanced_process_dir [OF T Suc]] balancedD [OF balanced_process_file [OF T]]
    show ?thesis using r t d by (cases r) (auto simp: Let_def split: option.split)
  qed
  then show ?case by (simp add: balanced_def del: split_paired_All)
qed (simp add: balanced_def)

lemma balanced_clear_watches [balanced_intros]:
  assumes T: "tracks_fds K fds"
  shows "balanced fds (clear_watches fuel K)"
proof -
  have clear: "balanced fds (xal_be_fiemap_inotify_clear_inode_map K ino)" for ino
    by (simp add: balanced_def xal_be_fiemap_inotify_clear_inode_map_def fold_fds [of fds] tracks_calls [OF T])
  have "balanced fds (xal_be_fiemap_inotify_drain fuel K ino)" for ino
  proof (induction fuel)
    case (Suc fuel)
    have "fds (snd (snd (xal_be_fiemap_inotify_drain (Suc fuel) K ino s))) = fds (snd s)" for s
    proof -
      obtain r t where r: "call (k_read_events K (n_fd ino)) s = (r, t)" by (rule prod.exhaust)
      have t: "fds (snd t) = fds (snd s)"
        using call_fds [of fds "k_read_events K (n_fd ino)" s] tracks_calls [OF T] r by simp
      show ?thesis using r t balancedD [OF Suc] by (auto split: sum.split list.split fault.split errno.split)
    qed
    then show ?case by (simp add: balanced_def del: split_paired_All)
  qed (simp add: balanced_def)
  then show ?thesis unfolding clear_watches_def by (intro balanced_intros clear)
qed

lemma check_root_fds: "tracks_fds K fds \<Longrightarrow> fds (snd (check_root K path k)) = fds k"
  by (simp add: check_root_def case_prod_unfold tracks_calls split: sum.split)

lemma check_subtree_fds: "tracks_fds K fds \<Longrightarrow> fds (snd (check_subtree K path sb k)) = fds k"
  by (simp add: check_subtree_def case_prod_unfold check_root_fds split: sum.split)

lemma balanced_check_roots [balanced_intros]: "tracks_fds K fds \<Longrightarrow> balanced fds (check_roots K be)"
  unfolding check_roots_def by (intro balanced_intros check_root_fds check_subtree_fds)

lemma balanced_rebuild:
  assumes T: "tracks_fds K fds"
  shows "fds (snd (snd (fiemap_rebuild fuel dfuel K s))) = fds (snd s)"
proof -
  have sweep: "fds (snd (sweep_clones K s)) = fds (snd s)" for s
    by (simp add: sweep_clones_def sweep_fds [OF T] split: option.split)
  note b = balancedD [OF balanced_check_roots [OF T]] balancedD [OF balanced_clear_watches [OF T]]
    balancedD [OF balanced_process_ino [OF T]]
  show ?thesis unfolding fiemap_rebuild_def Let_def
    by (simp add: snd_bind_st [of "\<lambda>s. fds (snd s)"] b sweep)
qed


text \<open>A kernel that hands out the descriptor past the highest open one.\<close>

definition table_kernel :: "int list kernel" where
  "table_kernel = demo_kernel\<lparr>
     k_open := (\<lambda>_ _ k. (Inr (fold max k 2 + 1), (fold max k 2 + 1) # k)),
     k_close := (\<lambda>fd k. filter (\<lambda>x. x \<noteq> fd) k)\<rparr>"

lemma le_fold_max: "x \<in> set k \<or> x \<le> m \<Longrightarrow> x \<le> fold max k (m :: int)"
  by (induction k arbitrary: m) (auto simp: le_max_iff_disj)

lemma table_kernel_tracks: "tracks_fds table_kernel set"
proof -
  have "fold max k 2 + 1 \<notin> set k" for k :: "int list" using le_fold_max [of _ k 2] by fastforce
  then show ?thesis by (auto simp: tracks_fds_def table_kernel_def demo_kernel_def still_kernel_def)
qed


end
