(* ===== verification/Xal_Print.thy ===== *)
theory Xal_Print
  imports Xal_Walk Xal_Xfs_Disk Xal_Kernel
begin

text \<open>
  The pretty printers (\<open>src/src/pp.c\<close>): what they write to standard output and the number of bytes they claim to
  have written. Standard output is the list of the bytes written so far and takes every byte. The structures that
  are printed as they lie in memory are read as on a little-endian host.
\<close>

section \<open>Formatting\<close>

text \<open>\<open>%x\<close> and \<open>%X\<close>, and the field width of \<open>%08X\<close>.\<close>

definition hex_digit :: "bool \<Rightarrow> nat \<Rightarrow> u8" where
  "hex_digit upper d = of_nat (if d < 10 then 48 + d else if upper then 55 + d else 87 + d)"

fun hex_digits :: "bool \<Rightarrow> nat \<Rightarrow> cstring" where
  "hex_digits upper n =
     (if n < 16 then [hex_digit upper n] else hex_digits upper (n div 16) @ [hex_digit upper (n mod 16)])"

declare hex_digits.simps [simp del]

definition hex08 :: "nat \<Rightarrow> cstring" where
  "hex08 n = (let d = hex_digits True n in replicate (8 - length d) 48 @ d)"

text \<open>\<open>%d\<close> and its longer forms.\<close>

definition dec_int :: "int \<Rightarrow> cstring" where
  "dec_int i = (if i < 0 then str ''-'' @ dec_digits (nat (- i)) else dec_digits (nat i))"

definition dec :: "'a :: len word \<Rightarrow> cstring" where
  "dec w = dec_digits (unat w)"

definition hex :: "'a :: len word \<Rightarrow> cstring" where
  "hex w = hex_digits False (unat w)"

definition line :: "string \<Rightarrow> cstring \<Rightarrow> cstring" where
  "line label text = str label @ text @ [10]"

text \<open>\<open>wrtn += printf(...)\<close>, once for each text.\<close>

definition printf :: "cstring \<Rightarrow> cstring \<Rightarrow> int \<times> cstring" where
  "printf text out = (int (length text), out @ text)"

fun print_all :: "cstring list \<Rightarrow> int \<times> cstring \<Rightarrow> int \<times> cstring" where
  "print_all [] s = s"
| "print_all (t # ts) (wrtn, out) = (case printf t out of (n, out) \<Rightarrow> print_all ts (wrtn + n, out))"

text \<open>Fields of a structure in memory, in the byte order of the host.\<close>

definition le16 :: "mem \<Rightarrow> nat \<Rightarrow> u16" where
  "le16 m o' = push_bit 8 (ucast (m (o' + 1))) OR ucast (m o')"

definition le32 :: "mem \<Rightarrow> nat \<Rightarrow> u32" where
  "le32 m o' = push_bit 16 (ucast (le16 m (o' + 2))) OR ucast (le16 m o')"

definition le64 :: "mem \<Rightarrow> nat \<Rightarrow> u64" where
  "le64 m o' = push_bit 32 (ucast (le32 m (o' + 4))) OR ucast (le32 m o')"

section \<open>The handle\<close>

definition xal_ag_pp :: "xal_ag option \<Rightarrow> cstring \<Rightarrow> int \<times> cstring" where
  "xal_ag_pp ag out =
     (case ag of
        None \<Rightarrow> print_all [line ''xal_ag: ~'' []] (0, out)
      | Some ag \<Rightarrow>
          print_all
            [line ''xal_ag:'' [],
             line ''  seqno: '' (dec (ag_seqno ag)),
             line ''  offset: '' (dec_int (sint (ag_offset ag))),
             line ''  agf_length: '' (dec (agf_length ag)),
             line ''  agi_count: '' (dec (agi_count ag)),
             line ''  agi_root: '' (dec (agi_root ag)),
             line ''  agi_level: '' (dec (agi_level ag))] (0, out))"

definition xal_be_fiemap_pp :: "xal_be_fiemap option \<Rightarrow> cstring \<Rightarrow> int \<times> cstring" where
  "xal_be_fiemap_pp be out =
     (case be of
        None \<Rightarrow> print_all [line ''xal_be_fiemap: ~'' []] (0, out)
      | Some be \<Rightarrow>
          print_all
            [line ''xal_be_fiemap:'' [],
             line ''  mountpoint: '' (f_mountpoint be),
             line ''  subtree: '' (case f_subtree be of None \<Rightarrow> str ''~'' | Some s \<Rightarrow> s)] (0, out))"

text \<open>The groups from the first on; reading past the table, which an attached handle does not have, is not defined.\<close>

fun pp_groups :: "nat \<Rightarrow> xal_ag list \<Rightarrow> int \<times> cstring \<Rightarrow> int res \<times> cstring" where
  "pp_groups 0 ags (wrtn, out) = (Ok wrtn, out)"
| "pp_groups (Suc n) [] (wrtn, out) = (Inl Undef, out)"
| "pp_groups (Suc n) (ag # ags) (wrtn, out) =
     (case xal_ag_pp (Some ag) out of (m, out) \<Rightarrow> pp_groups n ags (wrtn + m, out))"

definition xal_be_xfs_pp :: "xal \<Rightarrow> xal_be_xfs option \<Rightarrow> cstring \<Rightarrow> int res \<times> cstring" where
  "xal_be_xfs_pp xal be out =
     (case be of
        None \<Rightarrow> (case print_all [line ''xal_be_xfs: ~'' []] (0, out) of (n, out) \<Rightarrow> (Ok n, out))
      | Some be \<Rightarrow> pp_groups (unat (sb_agcount (h_sb xal))) (xfs_ags be) (0, out))"

definition sb_lines :: "xal_sb \<Rightarrow> cstring list" where
  "sb_lines sb =
     [line ''xal:'' [],
      line ''  sb.blocksize: '' (dec (sb_blocksize sb)),
      line ''  sb.sectsize: '' (dec (sb_sectsize sb)),
      line ''  sb.inodesize: '' (dec (sb_inodesize sb)),
      line ''  sb.inopblock: '' (dec (sb_inopblock sb)),
      line ''  sb.inopblog: '' (dec (sb_inopblog sb)),
      line ''  sb.icount: '' (dec (sb_icount sb)),
      line ''  sb.nallocated: '' (dec (sb_nallocated sb)),
      line ''  sb.rootino: '' (dec (sb_rootino sb)),
      line ''  sb.agblocks: '' (dec (sb_agblocks sb)),
      line ''  sb.agblklog: '' (dec (sb_agblklog sb)),
      line ''  sb.agcount: '' (dec (sb_agcount sb)),
      line ''  sb.dirblocksize: '' (dec (sb_dirblocksize sb))]"

definition add_wrtn :: "int \<Rightarrow> int res \<times> cstring \<Rightarrow> int res \<times> cstring" where
  "add_wrtn n r = (case r of (Inl f, out) \<Rightarrow> (Inl f, out) | (Inr m, out) \<Rightarrow> (Ok (n + m), out))"

definition xal_pp :: "xal option \<Rightarrow> cstring \<Rightarrow> int res \<times> cstring" where
  "xal_pp xal out =
     (case xal of
        None \<Rightarrow> (case print_all [line ''xal: ~'' []] (0, out) of (n, out) \<Rightarrow> (Ok n, out))
      | Some xal \<Rightarrow>
          (case print_all (sb_lines (h_sb xal)) (0, out) of
             (n, out) \<Rightarrow>
               (case h_be xal of
                  Be_xfs be \<Rightarrow> add_wrtn n (xal_be_xfs_pp xal (Some be) out)
                | Be_fiemap be \<Rightarrow> (case xal_be_fiemap_pp (Some be) out of (m, out) \<Rightarrow> (Ok (n + m), out))
                | Be_other _ \<Rightarrow> (Ok n, out))))"

section \<open>Structures on disk\<close>

definition xal_odf_sb_pp :: "mem \<Rightarrow> cstring \<Rightarrow> int \<times> cstring" where
  "xal_odf_sb_pp buf out =
     print_all
       [line ''xal_odf_sb:'' [],
        line ''  magicnum: 0x'' (hex (be32 buf 0)),
        line ''  blocksize: 0x'' (hex (be32 buf 4) @ str ''x''),
        line ''  rootino: '' (hex (be64 buf 56) @ str ''zu''),
        line ''  agblocks: '' (hex (be32 buf 84) @ str ''d''),
        line ''  agcount: '' (hex (be32 buf 88) @ str ''d''),
        line ''  sectsize: '' (hex (be16 buf 102) @ str ''u''),
        line ''  inodesize: '' (hex (be16 buf 104) @ str ''u''),
        line ''  fname: '' (str [CHR 0x27] @ cstr (map (\<lambda>i. buf (108 + i)) [0..<12]) @ str [CHR 0x27]),
        line ''  dirblklog: 0x'' (dec (buf 192) @ str ''x'')] (0, out)"

definition xal_odf_agf_pp :: "mem \<Rightarrow> cstring \<Rightarrow> int \<times> cstring" where
  "xal_odf_agf_pp buf out =
     print_all
       [line ''xal_odf_agf:'' [],
        line ''  magicnum: 0x'' (hex (be32 buf 0)),
        line ''  seqno: 0x'' (hex (be32 buf 8)),
        line ''  length: 0x'' (hex (be32 buf 12))] (0, out)"

definition xal_odf_agi_pp :: "mem \<Rightarrow> cstring \<Rightarrow> int \<times> cstring" where
  "xal_odf_agi_pp buf out =
     print_all
       [line ''xal_agi:'' [],
        line ''  magicnum: 0x'' (hex (be32 buf 0)),
        line ''  seqno: 0x'' (hex (be32 buf 8)),
        line ''  length: 0x'' (hex (be32 buf 12))] (0, out)"

definition xal_odf_agfl_pp :: "mem \<Rightarrow> cstring \<Rightarrow> int \<times> cstring" where
  "xal_odf_agfl_pp buf out =
     print_all
       [line ''xal_odf_agfl:'' [],
        line ''  magicnum: 0x'' (hex (le32 buf 0)),
        line ''  seqno: 0x'' (hex (le32 buf 4))] (0, out)"

definition xal_odf_dinode_format_str :: "int \<Rightarrow> cstring" where
  "xal_odf_dinode_format_str val =
     (if val = 3 then str ''btree''
      else if val = 0 then str ''dev''
      else if val = 2 then str ''extents''
      else if val = 1 then str ''local''
      else if val = 4 then str ''uuid''
      else str ''INODE_FORMAT_UNKNOWN'')"

definition mode_to_type_str :: "u32 \<Rightarrow> cstring" where
  "mode_to_type_str mode =
     (if mode AND 0xF000 = 0x4000 then str ''directory''
      else if mode AND 0xF000 = 0x8000 then str ''file''
      else str ''UNEXPECTED'')"

definition xal_odf_dinode_pp :: "mem \<Rightarrow> cstring \<Rightarrow> int \<times> cstring" where
  "xal_odf_dinode_pp buf out =
     print_all
       [line ''xal_dinode:'' [],
        line ''  magic: 0x'' (hex (be16 buf 0) @ str '' | 0x'' @ hex (0x494E :: u16)),
        line ''  mode: 0x'' (hex (di_mode buf 0) @ str ('' | '' @ [CHR 0x27]) @ mode_to_type_str (ucast (di_mode buf 0)) @ str [CHR 0x27]),
        line ''  format: 0x'' (dec (buf 5) @ str ('' | '' @ [CHR 0x27]) @ xal_odf_dinode_format_str (uint (buf 5)) @ str [CHR 0x27]),
        line ''  ino: '' (dec (di_ino buf 0))] (0, out)"

definition xal_odf_btree_iab3_sfmt_pp :: "mem option \<Rightarrow> cstring \<Rightarrow> int \<times> cstring" where
  "xal_odf_btree_iab3_sfmt_pp iab3 out =
     (case iab3 of
        None \<Rightarrow> print_all [line ''xal_ofd_btree_iab3: ~'' []] (0, out)
      | Some m \<Rightarrow>
          print_all
            [line ''xal_ofd_btree_iab3:'' [],
             line ''  magic: 0x'' (hex08 (unat (le32 m 0)) @ str ('' / '' @ [CHR 0x27]) @ cstr (map m [0..<4]) @ str [CHR 0x27]),
             line ''  level: '' (dec (le16 m 4)),
             line ''  numrecs: '' (dec (le16 m 6)),
             line ''  leftsib: 0x'' (hex08 (unat (le32 m 8))),
             line ''  rightsib: 0x'' (hex08 (unat (le32 m 12))),
             line ''  blkno: '' (dec_digits (unat (le64 m 16) div 8))] (0, out))"

definition xal_odf_inobt_rec_pp :: "mem option \<Rightarrow> cstring \<Rightarrow> int \<times> cstring" where
  "xal_odf_inobt_rec_pp rec out =
     (case rec of
        None \<Rightarrow> print_all [line ''xal_ofd_inobt_rec: ~'' []] (0, out)
      | Some m \<Rightarrow>
          print_all
            [line ''xal_ofd_inobt_rec:'' [],
             line ''  startino: '' (dec (le32 m 0)),
             line ''  holemask: '' (dec (le16 m 4)),
             line ''  count: '' (dec (m 6)),
             line ''  freecount: '' (dec (m 7)),
             line ''  free: '' (dec (le64 m 8))] (0, out))"

section \<open>Extents, inodes and watches\<close>

definition xal_extent_pp :: "xal_extent option \<Rightarrow> cstring \<Rightarrow> int \<times> cstring" where
  "xal_extent_pp extent out =
     (case extent of
        None \<Rightarrow> print_all [line ''xal_extent: ~'' []] (0, out)
      | Some x \<Rightarrow>
          print_all
            [line ''xal_extent:'' [],
             line ''  start_offset: '' (dec (x_start_offset x)),
             line ''  start_block: '' (dec (x_start_block x)),
             line ''  nblocks: '' (dec (x_nblocks x)),
             line ''  flag: '' (dec (x_flag x))] (0, out))"

definition xal_extent_converted_pp :: "xal_extent_converted option \<Rightarrow> cstring \<Rightarrow> int \<times> cstring" where
  "xal_extent_converted_pp extent out =
     (case extent of
        None \<Rightarrow> print_all [line ''xal_extent_converted: ~'' []] (0, out)
      | Some x \<Rightarrow>
          print_all
            ([line ''xal_extent_converted:'' [],
              line ''  start_offset: '' (dec (c_start_offset x)),
              line ''  start_block: '' (dec (c_start_block x))]
             @ (case c_unit x of
                  XAL_EXTENT_UNIT_BYTES \<Rightarrow> [line ''  bytes: '' (dec (c_size x)), line ''  unit: XAL_EXTENT_UNIT_BYTES'' []]
                | XAL_EXTENT_UNIT_LBA \<Rightarrow> [line ''  nblocks: '' (dec (c_size x)), line ''  unit: XAL_EXTENT_UNIT_LBA'' []])) (0, out))"

text \<open>The file and the device range of an extent in sectors of 512 bytes, without a look at its flags.\<close>

definition bmap_line :: "xal \<Rightarrow> xal_extent \<Rightarrow> cstring" where
  "bmap_line xal extent =
     (let blocksize = ucast (xal_get_sb_blocksize xal) :: u64;
          fofz_begin = (x_start_offset extent * blocksize) div 512;
          fofz_end = fofz_begin + (x_nblocks extent * blocksize) div 512 - 1;
          bofz_begin = xal_fsbno_offset xal (x_start_block extent) div 512;
          bofz_end = bofz_begin + (x_nblocks extent * blocksize) div 512 - 1
      in str ''- ['' @ dec fofz_begin @ str '', '' @ dec fofz_end @ str '', '' @ dec bofz_begin @ str '', '' @ dec bofz_end @ str '']'' @ [10])"

fun pp_extents :: "xal \<Rightarrow> u32 \<Rightarrow> nat list \<Rightarrow> int \<times> cstring \<Rightarrow> int \<times> cstring" where
  "pp_extents xal idx [] s = s"
| "pp_extents xal idx (i # is) s =
     (case xal_extent_at xal (idx + of_nat i) of
        None \<Rightarrow> print_all [line ''- ~ # index out of range'' []] s
      | Some x \<Rightarrow> pp_extents xal idx is (print_all [bmap_line xal (extent_of xal x)] s))"

text \<open>The entries of a directory; what printing a child returns is dropped.\<close>

fun pp_dentries :: "(nat \<Rightarrow> cstring \<Rightarrow> int res \<times> cstring) \<Rightarrow> xal \<Rightarrow> u32 \<Rightarrow> nat list \<Rightarrow> int \<times> cstring \<Rightarrow> int res \<times> cstring" where
  "pp_dentries pp xal idx [] (wrtn, out) = (Ok wrtn, out)"
| "pp_dentries pp xal idx (i # is) (wrtn, out) =
     (case xal_inode_at xal (idx + of_nat i) of
        None \<Rightarrow> (case print_all [line ''  dentries: ~ # index out of range'' []] (wrtn, out) of (wrtn, out) \<Rightarrow> (Ok wrtn, out))
      | Some child \<Rightarrow>
          (case pp child out of
             (Inl f, out) \<Rightarrow> (Inl f, out)
           | (Inr _, out) \<Rightarrow> pp_dentries pp xal idx is (wrtn, out)))"

definition inode_lines :: "xal_inode \<Rightarrow> cstring list" where
  "inode_lines inode =
     [line ''xal_inode:'' [],
      line ''  ino: 0x'' (hex08 (unat (i_ino inode))),
      line ''  size: '' (dec (i_size inode)),
      line ''  namelen: '' (dec (i_namelen inode)),
      line ''  name: '' (str [CHR 0x27] @ take 256 (i_cname inode) @ str [CHR 0x27]),
      line ''  ftype: '' (dec (i_ftype inode))]"

text \<open>The depth of the recursion is bounded by fuel, since a pool that is no tree has no bound.\<close>

fun xal_inode_pp :: "nat \<Rightarrow> xal \<Rightarrow> nat option \<Rightarrow> cstring \<Rightarrow> int res \<times> cstring" where
  "xal_inode_pp 0 xal inode out = (Inl Out_of_fuel, out)"
| "xal_inode_pp (Suc fuel) xal inode out =
     (case inode of
        None \<Rightarrow> (case print_all [line ''xal_inode: ~'' []] (0, out) of (n, out) \<Rightarrow> (Ok n, out))
      | Some inode \<Rightarrow>
          (let i = inode_of xal inode; s = print_all (inode_lines i) (0, out)
           in if i_ftype i = XAL_ODF_DIR3_FT_DIR then
                pp_dentries (\<lambda>child. xal_inode_pp fuel xal (Some child)) xal (i_idx i) [0..<unat (i_count i)]
                  (print_all [line ''  dentries.count: '' (dec (i_count i))] s)
              else if i_ftype i = XAL_ODF_DIR3_FT_REG_FILE then
                (case pp_extents xal (i_idx i) [0..<unat (i_count i)]
                        (print_all [line ''  extents.count: '' (dec (i_count i))] s) of (n, out) \<Rightarrow> (Ok n, out))
              else (Ok (fst s), snd s)))"

text \<open>\<open>%p\<close> is up to the C library: the text of the address of the map is given.\<close>

definition xal_inotify_pp :: "cstring \<Rightarrow> xal_inotify option \<Rightarrow> cstring \<Rightarrow> int \<times> cstring" where
  "xal_inotify_pp addr inotify out =
     (case inotify of
        None \<Rightarrow> print_all [line ''xal_inotify: ~'' []] (0, out)
      | Some ino \<Rightarrow>
          print_all
            [line ''xal_inotify:'' [],
             line ''  fd: '' (dec_int (n_fd ino)),
             line ''  inode_map addr: '' addr,
             (case n_watch_mode ino of
                XAL_WATCHMODE_NONE \<Rightarrow> line ''  watchmode: XAL_WATCHMODE_NONE'' []
              | XAL_WATCHMODE_REFLINK_SNAPSHOT \<Rightarrow> line ''  watchmode: XAL_WATCHMODE_REFLINK_SNAPSHOT'' []
              | Watchmode_other _ \<Rightarrow> line ''  watchmode: ?'' []),
             line ''  watch_thread_id: '' (dec_int (sint (of_nat (n_tid ino) :: u64)))] (0, out))"

section \<open>What the printers return\<close>

text \<open>A printer appends to the output, and returns how much.\<close>

definition counted :: "cstring \<Rightarrow> int \<times> cstring \<Rightarrow> bool" where
  "counted out r \<longleftrightarrow> (\<exists>text. snd r = out @ text \<and> fst r = int (length text))"

lemma print_all_text: "print_all ts (w, out) = (w + int (length (concat ts)), out @ concat ts)"
  by (induction ts arbitrary: w out) (simp_all add: printf_def)

declare print_all.simps [simp del]

lemma counted_print_all [simp]: "counted out (print_all ts (0, out))"
  by (simp add: counted_def print_all_text)

lemma printers_count:
  "counted out (xal_ag_pp ag out)" "counted out (xal_be_fiemap_pp be out)" "counted out (xal_odf_sb_pp buf out)"
  "counted out (xal_odf_agf_pp buf out)" "counted out (xal_odf_agi_pp buf out)" "counted out (xal_odf_agfl_pp buf out)"
  "counted out (xal_odf_dinode_pp buf out)" "counted out (xal_extent_pp extent out)"
  "counted out (xal_extent_converted_pp converted out)" "counted out (xal_odf_btree_iab3_sfmt_pp iab3 out)"
  "counted out (xal_odf_inobt_rec_pp rec out)" "counted out (xal_inotify_pp addr inotify out)"
  by (simp_all add: xal_ag_pp_def xal_be_fiemap_pp_def xal_odf_sb_pp_def xal_odf_agf_pp_def xal_odf_agi_pp_def
      xal_odf_agfl_pp_def xal_odf_dinode_pp_def xal_extent_pp_def xal_extent_converted_pp_def xal_odf_btree_iab3_sfmt_pp_def
      xal_odf_inobt_rec_pp_def xal_inotify_pp_def split: option.split)

lemma pp_groups_counts:
  "pp_groups n ags (w, out) = (Ok w', out') \<Longrightarrow> \<exists>text. out' = out @ text \<and> w' = w + int (length text)"
proof (induction n ags "(w, out)" arbitrary: w out rule: pp_groups.induct)
  case (3 n ag ags w out)
  obtain m out1 where p: "xal_ag_pp (Some ag) out = (m, out1)" by (rule prod.exhaust)
  obtain t where t: "out1 = out @ t" "m = int (length t)" using printers_count(1) [of out "Some ag"] by (auto simp: p counted_def)
  obtain u where "out' = out1 @ u" "w' = w + m + int (length u)" using 3 by (auto simp: p)
  then show ?case using t by (intro exI [of _ "t @ u"]) simp
qed auto

lemma xal_pp_counts:
  assumes "xal_pp xal out = (Ok w, out')"
  shows "counted out (w, out')"
proof (cases xal)
  case None
  then show ?thesis using assms by (auto simp: xal_pp_def counted_def print_all_text)
next
  case (Some x)
  let ?h = "concat (sb_lines (h_sb x))"
  consider (xfs) be where "h_be x = Be_xfs be" | (fiemap) be where "h_be x = Be_fiemap be" | (other) n where "h_be x = Be_other n"
    by (cases "h_be x")
  then show ?thesis
  proof cases
    case xfs
    obtain r out1 where g: "pp_groups (unat (sb_agcount (h_sb x))) (xfs_ags be) (0, out @ ?h) = (r, out1)" by (rule prod.exhaust)
    then obtain m where m: "r = Ok m" "w = int (length ?h) + m" "out1 = out'"
      using assms Some xfs by (cases r) (auto simp: xal_pp_def print_all_text xal_be_xfs_pp_def add_wrtn_def)
    obtain t where "out' = (out @ ?h) @ t" "m = int (length t)"
      using pp_groups_counts [OF g [unfolded m(1)]] m(3) by auto
    then show ?thesis using m(2) by (auto simp: counted_def)
  next
    case fiemap
    then show ?thesis using assms Some printers_count(2) [of "out @ ?h" "Some be"]
      by (auto simp: xal_pp_def print_all_text counted_def split: prod.splits)
  next
    case other
    then show ?thesis using assms Some by (auto simp: xal_pp_def print_all_text counted_def)
  qed
qed

text \<open>On a well-formed index printing an inode comes to an end: it goes no deeper than the pool has inodes.\<close>

lemma pp_dentries_ends:
  assumes "\<And>child out. child \<in> set (map (\<lambda>i. unat (idx + of_nat i)) is) \<Longrightarrow> \<exists>n out'. pp child out = (Ok n, out')"
  shows "\<exists>n out'. pp_dentries pp xal idx is (w, out) = (Ok n, out')"
  using assms
proof (induction "is" arbitrary: w out)
  case (Cons i "is")
  obtain n out' where "pp (unat (idx + of_nat i)) out = (Ok n, out')" using Cons.prems by fastforce
  moreover have "\<exists>n out''. pp_dentries pp xal idx is (w, out') = (Ok n, out'')" using Cons by simp
  ultimately show ?case
    by (cases "unat (allocated (h_inodes xal)) \<le> unat (idx + of_nat i :: u32)") (auto simp: print_all_text xal_inode_at_def word_le_nat_alt)
qed simp

lemma inode_pp_ends:
  assumes "tree_ok xal"
  shows "i < n_inodes xal \<Longrightarrow> n_inodes xal - i \<le> fuel \<Longrightarrow> \<exists>n out'. xal_inode_pp fuel xal (Some i) out = (Ok n, out')"
proof (induction fuel arbitrary: i out)
  case (Suc fuel)
  let ?i = "inode_of xal i"
  have "\<exists>n out'. xal_inode_pp fuel xal (Some c) out = (Ok n, out')"
    if d: "xal_inode_is_dir ?i" and c: "c \<in> set (map (\<lambda>j. unat (i_idx ?i + of_nat j)) [0..<unat (i_count ?i)])" for c out
  proof -
    obtain j where j: "j < unat (i_count ?i)" "c = unat (i_idx ?i + of_nat j)" using c by auto
    have m: "unat (i_idx ?i) + j \<in> set (children xal i)" using j(1) by (simp add: children_def)
    note D = dir_okD(1,2) [OF tree_okD [OF assms Suc.prems(1) d] m]
    have "j < 2 ^ 32" "unat (i_idx ?i) + j < 2 ^ 32" using D(2) assms by (simp_all add: tree_ok_def)
    then have "c = unat (i_idx ?i) + j" using j(2) by (simp add: unat_word_ariths unat_of_nat)
    then show ?thesis using Suc D by simp
  qed
  then have "\<exists>n out'. pp_dentries (\<lambda>child. xal_inode_pp fuel xal (Some child)) xal (i_idx ?i) [0..<unat (i_count ?i)] (w, out) = (Ok n, out')"
    if "i_ftype ?i = XAL_ODF_DIR3_FT_DIR" for w out
    using that by (intro pp_dentries_ends) (simp add: xal_inode_is_dir_def)
  then show ?case by (auto simp: Let_def print_all_text split: prod.split)
qed simp

text \<open>
  The count of a directory is that of its own lines: what its entries print is not in it, although it is part of the
  output.
\<close>

lemma pp_dentries_wrtn:
  assumes "pp_dentries pp xal idx is (w, out) = (Ok n, out')" "\<forall>i \<in> set is. unat (idx + of_nat i) < unat (allocated (h_inodes xal))"
  shows "n = w"
  using assms
proof (induction "is" arbitrary: out)
  case (Cons i "is")
  then show ?case by (auto simp: xal_inode_at_def word_le_nat_alt split: prod.splits sum.splits)
qed simp

lemma inode_pp_undercounts:
  assumes "tree_ok xal" "d < n_inodes xal" "xal_inode_is_dir (inode_of xal d)"
    and "xal_inode_pp fuel xal (Some d) out = (Ok n, out')"
  shows "n = int (length (concat (inode_lines (inode_of xal d) @ [line ''  dentries.count: '' (dec (i_count (inode_of xal d)))])))"
proof -
  let ?i = "inode_of xal d"
  obtain f where f: "fuel = Suc f" using assms(4) by (cases fuel) auto
  have "unat (i_idx ?i + of_nat j) < unat (allocated (h_inodes xal))" if "j < unat (i_count ?i)" for j
  proof -
    have "unat (i_idx ?i) + j \<in> set (children xal d)" using that by (simp add: children_def)
    note D = dir_okD(2) [OF tree_okD [OF assms(1-3)] this]
    then have "unat (i_idx ?i + of_nat j) = unat (i_idx ?i) + j"
      using assms(1) by (simp add: tree_ok_def unat_word_ariths unat_of_nat)
    then show ?thesis using D n_inodes_le_allocated [OF assms(1)] by simp
  qed
  then show ?thesis using assms(3,4) pp_dentries_wrtn [of _ xal "i_idx ?i" "[0..<unat (i_count ?i)]"]
    by (auto simp: f Let_def print_all_text xal_inode_is_dir_def)
qed

end
