(* ===== verification/Xal_Open.thy ===== *)
theory Xal_Open
  imports Xal_Fiemap Xal_Xfs_Index
begin

text \<open>
  Opening and closing a handle (\<open>src/src/xal.c\<close>, \<open>xal_be_fiemap_open()\<close> and \<open>xal_be_fiemap_close()\<close> of
  \<open>src/src/xal_be_fiemap.c\<close>, \<open>xal_be_xfs_open()\<close> and \<open>xal_be_xfs_close()\<close> of \<open>src/src/xal_be_xfs.c\<close>). The state of an
  opening is the candidate handle, the names of the shared memory objects and the kernel. Releasing
  memory is left out; unmapping pools, removing names, joining the watch thread and removing clones
  is what closing does to the outside.
\<close>

section \<open>Options\<close>

abbreviation (input) XAL_BACKEND_XFS :: int where "XAL_BACKEND_XFS \<equiv> 1"
abbreviation (input) XAL_BACKEND_FIEMAP :: int where "XAL_BACKEND_FIEMAP \<equiv> 2"

datatype xal_file_lookupmode = XAL_FILE_LOOKUPMODE_TRAVERSE | XAL_FILE_LOOKUPMODE_HASHMAP

record xal_opts =
  o_be :: int
  o_watch_mode :: xal_watchmode
  o_file_lookupmode :: xal_file_lookupmode
  o_mountpoint :: "cstring option"
  o_shm_name :: "cstring option"
  o_subtree :: "cstring option"

section \<open>Closing\<close>

definition xal_be_fiemap_close :: "'k kernel \<Rightarrow> nat \<Rightarrow> xal \<times> 'k \<Rightarrow> xal \<times> 'k" where
  "xal_be_fiemap_close K self s =
     (let s =
        (if h_procrole (fst s) = XAL_PROCROLE_SECONDARY then s
         else
           (let s = (case f_inotify (fbe_of (fst s)) of
                       None \<Rightarrow> s
                     | Some ino \<Rightarrow>
                         on_xal (\<lambda>xal. set_fbe xal ((fbe_of xal)\<lparr>f_inotify := None\<rparr>))
                           (on_kernel (xal_be_fiemap_inotify_close K self ino) s));
                s = on_xal (\<lambda>xal. if h_state xal then xal_mark_dirty xal else xal) s
            in case f_reflink (fbe_of (fst s)) of
                 None \<Rightarrow> s
               | Some rl \<Rightarrow>
                   on_xal (\<lambda>xal. set_fbe xal ((fbe_of xal)\<lparr>f_reflink := None\<rparr>))
                     (if rl_dir_created rl then on_kernel (reflink_dir_purge K (rl_dir rl)) s else s)))
      in on_xal path_map_destroy s)"

definition xal_be_xfs_close :: "xal \<Rightarrow> xal" where
  "xal_be_xfs_close xal = set_be xal ((be_of xal)\<lparr>xfs_dinodes_map := (\<lambda>_. None), xfs_dinodes := None\<rparr>)"

text \<open>\<open>be->close\<close> as the backends set it; a candidate whose backend is not set up yet has none.\<close>

definition be_close :: "'k kernel \<Rightarrow> nat \<Rightarrow> xal \<times> 'k \<Rightarrow> xal \<times> 'k" where
  "be_close K self s =
     (case h_be (fst s) of
        Be_fiemap _ \<Rightarrow> xal_be_fiemap_close K self s
      | Be_xfs _ \<Rightarrow> on_xal xal_be_xfs_close s
      | Be_other _ \<Rightarrow> s)"

text \<open>The handle it leaves is the one about to be freed; its state word may be in shared memory.\<close>

definition xal_close :: "'k kernel \<Rightarrow> nat \<Rightarrow> xal \<times> shm_names \<times> 'k \<Rightarrow> xal \<times> shm_names \<times> 'k" where
  "xal_close K self s =
     (case s of (xal, ns, k) \<Rightarrow>
        let xal = (if h_procrole xal = XAL_PROCROLE_PRIMARY \<and> h_state xal then xal_mark_dirty xal else xal);
            (xal, k) = be_close K self (xal, k);
            should_unlink = (h_procrole xal \<noteq> XAL_PROCROLE_SECONDARY);
            (_, inodes, ns) = xal_pool_unmap (k_os K) (h_inodes xal) should_unlink ns;
            (_, extents, ns) = xal_pool_unmap (k_os K) (h_extents xal) should_unlink ns;
            ns = (if h_state xal then
                    (case h_state_shm_name xal of None \<Rightarrow> ns | Some nm \<Rightarrow> snd (shm_unlink (k_os K) nm ns))
                  else ns)
        in (xal\<lparr>h_inodes := inodes, h_extents := extents\<rparr>, ns, k))"

section \<open>The mount table\<close>

text \<open>\<open>isspace()\<close>, and what \<open>fscanf()\<close> reads for \<open>%s\<close>: the white space before a field is skipped.\<close>

definition is_space :: "u8 \<Rightarrow> bool" where
  "is_space b \<longleftrightarrow> b = 32 \<or> 9 \<le> b \<and> b \<le> 13"

definition scan_field :: "cstring \<Rightarrow> cstring \<times> cstring" where
  "scan_field s = (let s = dropWhile is_space s in (takeWhile (\<lambda>b. \<not> is_space b) s, dropWhile (\<lambda>b. \<not> is_space b) s))"

abbreviation (input) newline :: u8 where "newline \<equiv> 10"

lemma scan_field_length: "scan_field s = (a, t) \<Longrightarrow> length a + length t \<le> length s"
  by (auto simp: scan_field_def Let_def)
     (metis (no_types, lifting) length_append length_dropWhile_le takeWhile_dropWhile_id)

text \<open>
  One turn a line: two fields, into buffers of 256 bytes that \<open>%s\<close> does not know the size of, and the rest of
  the line. \<open>None\<close> says that no line has the device.
\<close>

function scan_mounts :: "cstring \<Rightarrow> cstring \<Rightarrow> cstring option res" where
  "scan_mounts dev_uri content =
     (let (d, s1) = scan_field content; (m, s2) = scan_field s1
      in if XAL_PATH_MAXLEN < length d \<or> XAL_PATH_MAXLEN < length m then Inl Undef
         else if d = [] \<or> m = [] then Ok None
         else if d = dev_uri then Ok (Some m)
         else scan_mounts dev_uri (dropWhile (\<lambda>b. b \<noteq> newline) s2))"
  by pat_completeness auto
termination
proof (relation "measure (\<lambda>(uri, s). length s)", goal_cases)
  case (2 uri s x1 d s1 x2 m s2)
  have "length d + length s1 \<le> length s" "length m + length s2 \<le> length s1"
    using 2 scan_field_length by metis+
  moreover have "length (dropWhile (\<lambda>b. b \<noteq> newline) s2) \<le> length s2" by (rule length_dropWhile_le)
  moreover have "0 < length d" using 2 by simp
  ultimately have "length (dropWhile (\<lambda>b. b \<noteq> newline) s2) < length s" by linarith
  then show ?case by simp
qed simp

declare scan_mounts.simps [simp del]

text \<open>\<open>mounts\<close> is what \<open>/proc/mounts\<close> holds, or the error of opening it.\<close>

definition retrieve_mountpoint :: "errno + cstring \<Rightarrow> cstring \<Rightarrow> cstring res" where
  "retrieve_mountpoint mounts dev_uri =
     (case mounts of
        Inl e \<Rightarrow> Fail e
      | Inr content \<Rightarrow>
          bind_res (scan_mounts dev_uri content)
            (\<lambda>r. case r of None \<Rightarrow> Fail EINVAL | Some m \<Rightarrow> Ok m))"

section \<open>Opening with the FIEMAP backend\<close>

text \<open>A handle fresh from \<open>calloc()\<close> with its three words set; the backend is still unknown.\<close>

definition empty_pool :: "'a \<Rightarrow> 'a xal_pool" where
  "empty_pool zero = \<lparr>reserved = 0, allocated = 0, growby = 0, free = 0, element_size = 0, shm_name = None,
     mapped = False, memory = (\<lambda>_. zero)\<rparr>"

definition zero_sb :: xal_sb where
  "zero_sb = \<lparr>sb_blocksize = 0, sb_sectsize = 0, sb_inodesize = 0, sb_inopblock = 0, sb_inopblog = 0, sb_icount = 0,
     sb_nallocated = 0, sb_rootino = 0, sb_agblocks = 0, sb_agblklog = 0, sb_agcount = 0, sb_dirblocksize = 0,
     sb_lba_blksze = 0\<rparr>"

definition new_cand :: "xal_be \<Rightarrow> xal" where
  "new_cand be = \<lparr>h_inodes = empty_pool zero_inode, h_extents = empty_pool zero_extent, h_root_idx = XAL_POOL_IDX_NONE,
     h_sb = zero_sb, h_be = be, h_index_state = XAL_STATE_CLEAN, h_seq_lock = 0, h_state = False,
     h_state_shm_name = None, h_procrole = XAL_PROCROLE_SINGLE, h_indexing = False, h_last_err = None\<rparr>"

text \<open>A step that does not touch the names, and the sizes of the two kinds of pool elements in bytes.\<close>

definition with_names :: "(xal \<times> 'k \<Rightarrow> 'a res \<times> xal \<times> 'k) \<Rightarrow> xal \<times> shm_names \<times> 'k \<Rightarrow> 'a res \<times> xal \<times> shm_names \<times> 'k" where
  "with_names f s = (case s of (xal, ns, k) \<Rightarrow> (case f (xal, k) of (r, xal, k) \<Rightarrow> (r, xal, ns, k)))"

abbreviation (input) XAL_INODE_NBYTES :: u64 where "XAL_INODE_NBYTES \<equiv> 312"
abbreviation (input) XAL_EXTENT_NBYTES :: u64 where "XAL_EXTENT_NBYTES \<equiv> 25"

definition pool_step ::
  "errno option \<times> 'p \<times> shm_names \<Rightarrow> ('p \<Rightarrow> xal \<Rightarrow> xal) \<Rightarrow> xal \<times> 'k \<Rightarrow> unit res \<times> xal \<times> shm_names \<times> 'k" where
  "pool_step r put s =
     (case r of (e, pool, ns) \<Rightarrow>
        (case e of None \<Rightarrow> Ok () | Some e \<Rightarrow> Fail e, put pool (fst s), ns, snd s))"

text \<open>The end of both opening functions: the role, and the two pools with \<open>alloc\<close> elements to begin with.\<close>

definition open_pools ::
  "pool_os \<Rightarrow> xal_opts \<Rightarrow> u64 \<Rightarrow> xal \<times> shm_names \<times> 'k \<Rightarrow> unit res \<times> xal \<times> shm_names \<times> 'k" where
  "open_pools os opts alloc s =
     (case o_shm_name opts of
        Some nm \<Rightarrow>
          if XAL_PATH_MAXLEN < length nm then (Fail EINVAL, s)
          else
            (let s = (case s of (xal, ns, k) \<Rightarrow> (xal\<lparr>h_procrole := XAL_PROCROLE_PRIMARY\<rparr>, ns, k))
             in bind_st (case s of (xal, ns, k) \<Rightarrow>
                  pool_step (xal_pool_map os zero_inode (h_inodes xal) 40000000 alloc XAL_INODE_NBYTES (Some (nm @ str ''_inodes'')) ns)
                    (\<lambda>p xal. xal\<lparr>h_inodes := p\<rparr>) (xal, k))
                (\<lambda>_ s. case s of (xal, ns, k) \<Rightarrow>
                  pool_step (xal_pool_map os zero_extent (h_extents xal) 40000000 alloc XAL_EXTENT_NBYTES (Some (nm @ str ''_extents'')) ns)
                    (\<lambda>p xal. xal\<lparr>h_extents := p\<rparr>) (xal, k)))
      | None \<Rightarrow>
          bind_st (case s of (xal, ns, k) \<Rightarrow>
            pool_step (xal_pool_map os zero_inode (h_inodes xal) 40000000 alloc XAL_INODE_NBYTES None ns)
              (\<lambda>p xal. xal\<lparr>h_inodes := p\<rparr>) (xal, k))
          (\<lambda>_ s. case s of (xal, ns, k) \<Rightarrow>
            pool_step (xal_pool_map os zero_extent (h_extents xal) 40000000 alloc XAL_EXTENT_NBYTES None ns)
              (\<lambda>p xal. xal\<lparr>h_extents := p\<rparr>) (xal, k)))"

definition open_mountpoint :: "'k kernel \<Rightarrow> cstring \<Rightarrow> xal \<times> 'k \<Rightarrow> stat res \<times> xal \<times> 'k" where
  "open_mountpoint K mountpoint s =
     bind_st (need_mem K (length mountpoint + 1) ENOMEM s)
       (\<lambda>_ s. let s = on_xal (\<lambda>xal. set_fbe xal ((fbe_of xal)\<lparr>f_mountpoint := strip_trailing_slashes mountpoint\<rparr>)) s
          in bind_st (call (check_root K (f_mountpoint (fbe_of (fst s)))) s)
               (\<lambda>sb s. case k_stat K [slash] (snd s) of
                  (Inr root, k) \<Rightarrow>
                    (if st_dev root = st_dev sb \<and> st_ino root = st_ino sb then Fail EINVAL else Ok sb, fst s, k)
                | (Inl _, k) \<Rightarrow> (Ok sb, fst s, k)))"

definition open_subtree :: "'k kernel \<Rightarrow> xal_opts \<Rightarrow> stat \<Rightarrow> xal \<times> 'k \<Rightarrow> unit res \<times> xal \<times> 'k" where
  "open_subtree K opts sb s =
     (case o_subtree opts of
        None \<Rightarrow> (Ok (), s)
      | Some subtree \<Rightarrow>
          if subtree = [] then (Ok (), s)
          else
            bind_st (need_mem K (length subtree + 1) ENOMEM s)
              (\<lambda>_ s. let subtree = strip_trailing_slashes subtree;
                         s = on_xal (\<lambda>xal. set_fbe xal ((fbe_of xal)\<lparr>f_subtree := Some subtree\<rparr>)) s
                 in if path_under_basepath subtree (f_mountpoint (fbe_of (fst s))) = None then (Fail EINVAL, s)
                    else call (check_subtree K subtree sb) s))"

definition open_reflink :: "'k kernel \<Rightarrow> xal_opts \<Rightarrow> xal \<times> 'k \<Rightarrow> unit res \<times> xal \<times> 'k" where
  "open_reflink K opts s =
     (if o_watch_mode opts = XAL_WATCHMODE_REFLINK_SNAPSHOT then
        bind_st (need_mem K 16 ENOMEM s)
          (\<lambda>_ s. let mountpoint = f_mountpoint (fbe_of (fst s)); dlen = length mountpoint + 32
             in bind_st (need_mem K dlen ENOMEM s)
                  (\<lambda>_ s. let dir = take (dlen - 1) (path_join mountpoint (XAL_SNAPSHOT_PREFIX @ dec_digits (k_pid K)))
                     in (Ok (), on_kernel (reflink_sweep_orphans K mountpoint)
                          (on_xal (\<lambda>xal. set_fbe xal ((fbe_of xal)\<lparr>f_reflink :=
                             Some \<lparr>rl_dir = dir, rl_dir_created = False\<rparr>\<rparr>)) s))))
      else (Ok (), s))"

definition open_watch :: "'k kernel \<Rightarrow> xal_opts \<Rightarrow> xal \<times> 'k \<Rightarrow> unit res \<times> xal \<times> 'k" where
  "open_watch K opts s =
     (if o_watch_mode opts = XAL_WATCHMODE_NONE then (Ok (), s)
      else
        bind_st (need_mem K 152 ENOMEM s)
          (\<lambda>_ s. bind_st (call (xal_be_fiemap_inotify_init K (o_watch_mode opts)) s)
             (\<lambda>ino s. (Ok (), on_xal (\<lambda>xal. set_inotify xal ino) s))))"

definition open_count :: "nat \<Rightarrow> 'k kernel \<Rightarrow> xal \<times> 'k \<Rightarrow> int res \<times> xal \<times> 'k" where
  "open_count fuel K s =
     (case retrieve_total_entries fuel K (walk_root (fbe_of (fst s))) (snd s) of (r, k) \<Rightarrow> (r, fst s, k))"

definition open_statfs :: "'k kernel \<Rightarrow> stat \<Rightarrow> xal \<times> 'k \<Rightarrow> unit res \<times> xal \<times> 'k" where
  "open_statfs K sb s =
     bind_st (call (k_statfs K (f_mountpoint (fbe_of (fst s)))) s)
       (\<lambda>bsize s. (Ok (), on_xal (\<lambda>xal. xal\<lparr>h_sb := (h_sb xal)\<lparr>sb_blocksize := bsize, sb_rootino := st_ino sb\<rparr>\<rparr>) s))"

definition open_hashmap :: "'k kernel \<Rightarrow> xal_opts \<Rightarrow> xal \<times> 'k \<Rightarrow> unit res \<times> xal \<times> 'k" where
  "open_hashmap K opts s =
     (if o_file_lookupmode opts = XAL_FILE_LOOKUPMODE_HASHMAP then
        bind_st (need_mem K 0 EINVAL s)
          (\<lambda>_ s. (Ok (), on_xal (\<lambda>xal. set_fbe xal ((fbe_of xal)\<lparr>f_path_inode_map := Some (\<lambda>_. None)\<rparr>)) s))
      else (Ok (), s))"

text \<open>Everything up to the \<open>failed\<close> label, on the candidate.\<close>

definition fiemap_open_steps ::
  "nat \<Rightarrow> 'k kernel \<Rightarrow> cstring \<Rightarrow> xal_opts \<Rightarrow> xal \<times> shm_names \<times> 'k \<Rightarrow> unit res \<times> xal \<times> shm_names \<times> 'k" where
  "fiemap_open_steps fuel K mountpoint opts s =
     bind_st (with_names (open_mountpoint K mountpoint) s)
       (\<lambda>sb s. bind_st (with_names (open_subtree K opts sb) s)
          (\<lambda>_ s. bind_st (with_names (open_reflink K opts) s)
             (\<lambda>_ s. bind_st (with_names (open_watch K opts) s)
                (\<lambda>_ s. bind_st (with_names (open_count fuel K) s)
                   (\<lambda>nallocated s. bind_st (with_names (open_statfs K sb) s)
                      (\<lambda>_ s. bind_st (open_pools (k_os K) opts (of_int nallocated) s)
                         (\<lambda>_ s. with_names (open_hashmap K opts) s)))))))"

text \<open>A failed assertion or fuel that runs out ends the model where it happens; an error closes the candidate.\<close>

definition close_on_failure ::
  "'k kernel \<Rightarrow> nat \<Rightarrow> unit res \<times> xal \<times> shm_names \<times> 'k \<Rightarrow> xal res \<times> shm_names \<times> 'k" where
  "close_on_failure K self r =
     (case r of
        (Inr _, s) \<Rightarrow> (Ok (fst s), snd s)
      | (Inl (Errno e), s) \<Rightarrow> (Fail e, snd (xal_close K self s))
      | (Inl f, s) \<Rightarrow> (Inl f, snd s))"

definition xal_be_fiemap_open ::
  "nat \<Rightarrow> 'k kernel \<Rightarrow> nat \<Rightarrow> cstring \<Rightarrow> xal_opts \<Rightarrow> shm_names \<times> 'k \<Rightarrow> xal res \<times> shm_names \<times> 'k" where
  "xal_be_fiemap_open fuel K self mountpoint opts s =
     (if o_watch_mode opts \<noteq> XAL_WATCHMODE_NONE \<and> o_watch_mode opts \<noteq> XAL_WATCHMODE_REFLINK_SNAPSHOT then (Fail EINVAL, s)
      else
        (case need_mem K 376 ENOMEM (new_cand (Be_fiemap no_be_fiemap), snd s) of
           (Inl e, _, k) \<Rightarrow> (Inl e, fst s, k)
         | (Inr _, cand, k) \<Rightarrow> close_on_failure K self (fiemap_open_steps fuel K mountpoint opts (cand, fst s, k))))"

section \<open>Opening with the XFS backend\<close>

text \<open>
  The header of an allocation group: the AGF in the second sector of the group and the AGI in the third. The
  table of groups is written before the assertions.
\<close>

definition decode_ag :: "xal_sb \<Rightarrow> u32 \<Rightarrow> mem \<Rightarrow> xal_ag" where
  "decode_ag sb seqno buf =
     (let agf = unat (sb_sectsize sb); agi = 2 * unat (sb_sectsize sb)
      in \<lparr>ag_seqno = seqno, ag_offset = ucast seqno * ucast (sb_agblocks sb) * ucast (sb_blocksize sb),
          agf_length = be32 buf (agf + 12), agi_count = be32 buf (agi + 16), agi_root = be32 buf (agi + 20),
          agi_level = be32 buf (agi + 24)\<rparr>)"

definition ag_header_ok :: "xal_sb \<Rightarrow> u32 \<Rightarrow> mem \<Rightarrow> bool" where
  "ag_header_ok sb seqno buf =
     (let agf = unat (sb_sectsize sb); agi = 2 * unat (sb_sectsize sb)
      in be32 buf agf = XAL_ODF_AGF_MAGIC \<and> be32 buf agi = XAL_ODF_AGI_MAGIC
         \<and> be32 buf (agi + 8) = seqno \<and> be32 buf (agf + 8) = seqno)"

definition retrieve_and_decode_allocation_group :: "xfs_env \<Rightarrow> u32 \<Rightarrow> xal \<Rightarrow> unit res \<times> xal" where
  "retrieve_and_decode_allocation_group env seqno xal =
     (let sb = h_sb xal; offset = ucast seqno * ucast (sb_agblocks sb) * ucast (sb_blocksize sb)
      in bind_st (dev_read_buf env xal (ucast (sb_sectsize sb) * 4) offset)
           (\<lambda>_ xal.
              let be = be_of xal; buf = xfs_buf be;
                  xal = set_be xal (be\<lparr>xfs_ags := (xfs_ags be)[unat seqno := decode_ag sb seqno buf]\<rparr>)
              in if ag_header_ok sb seqno buf then (Ok (), xal) else (Inl Abort, xal)))"

definition zero_ag :: xal_ag where
  "zero_ag = \<lparr>ag_seqno = 0, ag_offset = 0, agf_length = 0, agi_count = 0, agi_root = 0, agi_level = 0\<rparr>"

text \<open>
  A failed read is reported with \<open>errno\<close>, which the failing call need not have set: \<open>None\<close> stands for the 0 it may
  be, that is for success without a handle.
\<close>

definition errno_res :: "xfs_env \<Rightarrow> 'a option res" where
  "errno_res env = (case env_errno env of Some e \<Rightarrow> Fail e | None \<Rightarrow> Ok None)"

definition retrieve_and_decode_primary_superblock ::
  "xfs_env \<Rightarrow> 'k kernel \<Rightarrow> mem \<Rightarrow> 'k \<Rightarrow> xal option res \<times> 'k" where
  "retrieve_and_decode_primary_superblock env K buf k =
     (case dev_read env buf 4096 0 of
        (Inl (Errno _), _) \<Rightarrow> (errno_res env, k)
      | (Inl f, _) \<Rightarrow> (Inl f, k)
      | (Inr _, buf) \<Rightarrow>
          (case k_alloc K 376 k of
             (False, k) \<Rightarrow> (Fail ENOMEM, k)
           | (True, k) \<Rightarrow>
               (let sb = odf_sb buf
                in case k_alloc K (32 * unat (sb_agcount sb)) k of
                     (False, k) \<Rightarrow> (Fail ENOMEM, k)
                   | (True, k) \<Rightarrow>
                       (Ok (Some ((new_cand (Be_xfs (no_be_xfs\<lparr>xfs_buf := buf,
                          xfs_ags := replicate (unat (sb_agcount sb)) zero_ag\<rparr>)))\<lparr>h_sb := sb\<rparr>)), k))))"

definition add_group :: "xfs_env \<Rightarrow> nat \<Rightarrow> xal \<Rightarrow> unit res \<times> xal" where
  "add_group env i xal =
     bind_st (retrieve_and_decode_allocation_group env (of_nat i) xal)
       (\<lambda>_ xal. (Ok (), xal\<lparr>h_sb := (h_sb xal)\<lparr>sb_nallocated :=
          sb_nallocated (h_sb xal) + ucast (agi_count (xfs_ags (be_of xal) ! i))\<rparr>\<rparr>))"

definition xfs_open_steps ::
  "xfs_env \<Rightarrow> xal_opts \<Rightarrow> xal \<times> shm_names \<times> 'k \<Rightarrow> unit res \<times> xal \<times> shm_names \<times> 'k" where
  "xfs_open_steps env opts s =
     (case s of (xal, ns, k) \<Rightarrow>
        (case for_st [0..<unat (sb_agcount (h_sb xal))] (add_group env) xal of
           (r, xal) \<Rightarrow>
             bind_st (r, xal, ns, k) (\<lambda>_ s. open_pools (env_os env) opts (sb_nallocated (h_sb (fst s))) s)))"

text \<open>\<open>Ok None\<close>: the function returned 0 and did not set the handle.\<close>

definition xal_be_xfs_open ::
  "xfs_env \<Rightarrow> 'k kernel \<Rightarrow> nat \<Rightarrow> xal_opts \<Rightarrow> shm_names \<times> 'k \<Rightarrow> xal option res \<times> shm_names \<times> 'k" where
  "xal_be_xfs_open env K self opts s =
     (case k_alloc K (unat BUF_NBYTES) (snd s) of
        (False, k) \<Rightarrow> (errno_res env, fst s, k)
      | (True, k) \<Rightarrow>
          (case retrieve_and_decode_primary_superblock env K (\<lambda>_. 0) k of
             (Inl f, k) \<Rightarrow> (Inl f, fst s, k)
           | (Inr None, k) \<Rightarrow> (Inl Undef, fst s, k)
           | (Inr (Some cand), k) \<Rightarrow>
               (case close_on_failure K self (xfs_open_steps env opts (cand, fst s, k)) of
                  (Inl f, s) \<Rightarrow> (Inl f, s)
                | (Inr xal, s) \<Rightarrow> (Ok (Some xal), s))))"

section \<open>The shared state\<close>

abbreviation (input) XAL_SHM_MAGIC :: u64 where "XAL_SHM_MAGIC \<equiv> 0x58414C5341"
abbreviation (input) XAL_SHM_VERSION :: u32 where "XAL_SHM_VERSION \<equiv> 3"
abbreviation (input) SHARED_STATE_NBYTES :: u64 where "SHARED_STATE_NBYTES \<equiv> 600"

record xal_shared_state =
  ss_magic :: u64
  ss_version :: u32
  ss_type :: int
  ss_sb :: xal_sb
  ss_mountpoint :: cstring
  ss_subtree :: cstring
  ss_index_state :: xal_state
  ss_seq_lock :: u32

text \<open>
  What is written to the region, which \<open>ftruncate()\<close> has filled with zeros. The two paths are cut to 254 bytes.
\<close>

definition published_state :: "xal \<Rightarrow> cstring \<Rightarrow> int \<Rightarrow> xal_shared_state" where
  "published_state xal mountpoint be =
     (let state = \<lparr>ss_magic = XAL_SHM_MAGIC, ss_version = XAL_SHM_VERSION, ss_type = be, ss_sb = h_sb xal,
            ss_mountpoint = take (XAL_PATH_MAXLEN - 1) mountpoint, ss_subtree = [],
            ss_index_state = XAL_STATE_DIRTY, ss_seq_lock = 0\<rparr>
      in if be = XAL_BACKEND_FIEMAP then
           state\<lparr>ss_mountpoint := take (XAL_PATH_MAXLEN - 1) (f_mountpoint (fbe_of xal)),
                 ss_subtree := (case f_subtree (fbe_of xal) of None \<Rightarrow> [] | Some s \<Rightarrow> take (XAL_PATH_MAXLEN - 1) s)\<rparr>
         else state)"

text \<open>From here on the two atomic words of the handle are those of the region.\<close>

definition publish_shared_state ::
  "pool_os \<Rightarrow> cstring \<Rightarrow> cstring \<Rightarrow> int \<Rightarrow> xal \<times> shm_names \<Rightarrow> xal_shared_state res \<times> xal \<times> shm_names" where
  "publish_shared_state os nm mountpoint be s =
     (case s of (xal, ns) \<Rightarrow>
        let name = nm @ str ''_state''
        in case shm_open_excl os name ns of
             (Some e, ns) \<Rightarrow> (Fail e, xal, ns)
           | (None, ns) \<Rightarrow>
               (case os_ftruncate os SHARED_STATE_NBYTES of
                  Some e \<Rightarrow> (Fail e, xal, snd (shm_unlink os name ns))
                | None \<Rightarrow>
                    (case os_mmap os SHARED_STATE_NBYTES of
                       Some e \<Rightarrow> (Fail e, xal, snd (shm_unlink os name ns))
                     | None \<Rightarrow>
                         (case os_strdup os name of
                            Some _ \<Rightarrow> (Fail ENOMEM, xal, snd (shm_unlink os name ns))
                          | None \<Rightarrow>
                              (let state = published_state xal mountpoint be
                               in (Ok state,
                                   xal\<lparr>h_state_shm_name := Some name, h_state := True,
                                       h_index_state := ss_index_state state, h_seq_lock := ss_seq_lock state\<rparr>,
                                   ns))))))"

text \<open>Publishing as the last step of an opening; a failure closes the handle again.\<close>

definition publish_or_close ::
  "'k kernel \<Rightarrow> nat \<Rightarrow> xal_opts \<Rightarrow> cstring \<Rightarrow> xal \<times> shm_names \<times> 'k \<Rightarrow> xal res \<times> shm_names \<times> 'k" where
  "publish_or_close K self opts mountpoint s =
     (case o_shm_name opts of
        None \<Rightarrow> (Ok (fst s), snd s)
      | Some nm \<Rightarrow>
          (case s of (xal, ns, k) \<Rightarrow>
             (case publish_shared_state (k_os K) nm mountpoint (o_be opts) (xal, ns) of
                (Inl f, xal, ns) \<Rightarrow> (Inl f, snd (xal_close K self (xal, ns, k)))
              | (Inr _, xal, ns) \<Rightarrow> (Ok xal, ns, k))))"

definition given_mountpoint :: "xal_opts \<Rightarrow> cstring" where
  "given_mountpoint opts = (case o_mountpoint opts of None \<Rightarrow> [] | Some m \<Rightarrow> take XAL_PATH_MAXLEN m)"

text \<open>The options are the caller's; the backend that is chosen is stored in them.\<close>

definition xal_open_from_uri ::
  "nat \<Rightarrow> 'k kernel \<Rightarrow> nat \<Rightarrow> errno + cstring \<Rightarrow> cstring \<Rightarrow> xal_opts \<Rightarrow> shm_names \<times> 'k
     \<Rightarrow> xal res \<times> xal_opts \<times> shm_names \<times> 'k" where
  "xal_open_from_uri fuel K self mounts uri opts s =
     (if o_be opts \<noteq> 0 \<and> o_be opts \<noteq> XAL_BACKEND_FIEMAP then (Fail EINVAL, opts, s)
      else
        (let opts = opts\<lparr>o_be := XAL_BACKEND_FIEMAP\<rparr>;
             mountpoint = (if given_mountpoint opts \<noteq> [] then Ok (given_mountpoint opts) else retrieve_mountpoint mounts uri)
         in case mountpoint of
              Inl f \<Rightarrow> (Inl f, opts, s)
            | Inr mountpoint \<Rightarrow>
                (case xal_be_fiemap_open fuel K self mountpoint opts s of
                   (Inl f, s) \<Rightarrow> (Inl f, opts, s)
                 | (Inr xal, s) \<Rightarrow>
                     (case publish_or_close K self opts mountpoint (xal, s) of (r, s) \<Rightarrow> (r, opts, s)))))"

text \<open>
  What \<open>xal_open()\<close> asks the device library: the identity of the device and the format of the namespace.
\<close>

record xnvme_dev =
  dev_env :: xfs_env
  dev_uri :: "cstring option"
  dev_ns :: "errno option + (u8 \<times> u8 \<times> u8 \<times> (u8 \<Rightarrow> u8))"

text \<open>\<open>1U << ds\<close> is not defined for 32 and more.\<close>

definition lba_size :: "u8 \<times> u8 \<times> u8 \<times> (u8 \<Rightarrow> u8) \<Rightarrow> u32 option" where
  "lba_size ns =
     (case ns of (format, format_msb, nlbaf, lbaf) \<Rightarrow>
        let fidx = (if 16 < nlbaf then format + push_bit 4 format_msb else format); ds = lbaf fidx
        in if 32 \<le> ds then None else Some (push_bit (unat ds) 1))"

definition choose_backend :: "errno + cstring \<Rightarrow> cstring \<Rightarrow> xal_opts \<Rightarrow> (xal_opts \<times> cstring) res" where
  "choose_backend mounts uri opts =
     (let mountpoint = given_mountpoint opts
      in if o_be opts \<noteq> 0 then Ok (opts, mountpoint)
         else if mountpoint \<noteq> [] then Ok (opts\<lparr>o_be := XAL_BACKEND_FIEMAP\<rparr>, mountpoint)
         else
           (case retrieve_mountpoint mounts uri of
              Inl (Errno _) \<Rightarrow> Ok (opts\<lparr>o_be := XAL_BACKEND_XFS\<rparr>, [])
            | Inl f \<Rightarrow> Inl f
            | Inr m \<Rightarrow> Ok (opts\<lparr>o_be := XAL_BACKEND_FIEMAP\<rparr>, m)))"

definition open_backend ::
  "nat \<Rightarrow> 'k kernel \<Rightarrow> nat \<Rightarrow> errno + cstring \<Rightarrow> xfs_env \<Rightarrow> cstring \<Rightarrow> xal_opts \<Rightarrow> cstring \<Rightarrow> shm_names \<times> 'k
     \<Rightarrow> (xal option \<times> cstring) res \<times> shm_names \<times> 'k" where
  "open_backend fuel K self mounts env uri opts mountpoint s =
     (if o_be opts = XAL_BACKEND_XFS then
        (case xal_be_xfs_open env K self opts s of
           (Inl f, s) \<Rightarrow> (Inl f, s)
         | (Inr xal, s) \<Rightarrow> (Ok (xal, mountpoint), s))
      else if o_be opts = XAL_BACKEND_FIEMAP then
        (case (if mountpoint = [] then retrieve_mountpoint mounts uri else Ok mountpoint) of
           Inl f \<Rightarrow> (Inl f, s)
         | Inr mountpoint \<Rightarrow>
             (case xal_be_fiemap_open fuel K self mountpoint opts s of
                (Inl f, s) \<Rightarrow> (Inl f, s)
              | (Inr xal, s) \<Rightarrow> (Ok (Some xal, mountpoint), s)))
      else (Fail EINVAL, s))"

text \<open>The error of a namespace that is not there is \<open>errno\<close>; with an \<open>errno\<close> of 0 the closed handle counts as opened.\<close>

definition open_finish ::
  "'k kernel \<Rightarrow> nat \<Rightarrow> xnvme_dev \<Rightarrow> xal_opts \<Rightarrow> cstring \<Rightarrow> xal \<times> shm_names \<times> 'k \<Rightarrow> xal option res \<times> shm_names \<times> 'k" where
  "open_finish K self dev opts mountpoint s =
     (case dev_ns dev of
        Inl e \<Rightarrow> (case e of None \<Rightarrow> Ok None | Some e \<Rightarrow> Fail e, snd (xal_close K self s))
      | Inr ns \<Rightarrow>
          (case lba_size ns of
             None \<Rightarrow> (Inl Undef, snd s)
           | Some blksze \<Rightarrow>
               (case publish_or_close K self opts mountpoint
                       ((fst s)\<lparr>h_sb := (h_sb (fst s))\<lparr>sb_lba_blksze := blksze\<rparr>\<rparr>, snd s) of
                  (Inl f, s) \<Rightarrow> (Inl f, s)
                | (Inr xal, s) \<Rightarrow> (Ok (Some xal), s))))"

definition xal_open ::
  "nat \<Rightarrow> 'k kernel \<Rightarrow> nat \<Rightarrow> errno + cstring \<Rightarrow> xnvme_dev \<Rightarrow> xal_opts \<Rightarrow> shm_names \<times> 'k
     \<Rightarrow> xal option res \<times> xal_opts \<times> shm_names \<times> 'k" where
  "xal_open fuel K self mounts dev opts s =
     (case dev_uri dev of
        None \<Rightarrow> (Fail EINVAL, opts, s)
      | Some uri \<Rightarrow>
          (case choose_backend mounts uri opts of
             Inl f \<Rightarrow> (Inl f, opts, s)
           | Inr (opts, mountpoint) \<Rightarrow>
               (case open_backend fuel K self mounts (dev_env dev) uri opts mountpoint s of
                  (Inl f, s) \<Rightarrow> (Inl f, opts, s)
                | (Inr (None, _), s) \<Rightarrow> (Inl Undef, opts, s)
                | (Inr (Some xal, mountpoint), s) \<Rightarrow>
                    (case open_finish K self dev opts mountpoint (xal, s) of (r, s) \<Rightarrow> (r, opts, s)))))"

end
