(* ===== verification/Xal_Hashmap.thy ===== *)
theory Xal_Hashmap
  imports Xal_Fiemap
begin

text \<open>
  Building the path map from an index (\<open>build_hashmap_walk()\<close> and \<open>xal_build_lookup_hashmap()\<close> of
  \<open>src/src/xal_be_fiemap.c\<close>), as a secondary process does once it has attached. The theory shows that the map holds
  exactly the paths of the index, so that looking a path up in it gives what the search of the index gives.
\<close>

section \<open>Operations\<close>

text \<open>
  \<open>act inode\<close> is the value of the sequence lock when it is read again after the path of \<open>inode\<close> was
  assembled, which a rebuild may have changed. The recursion follows the directories of the pool, counted by fuel.
\<close>

fun build_hashmap_walk :: "nat \<Rightarrow> 'k kernel \<Rightarrow> (nat \<Rightarrow> u32) \<Rightarrow> nat \<Rightarrow> xal \<times> 'k \<Rightarrow> unit res \<times> xal \<times> 'k" where
  "build_hashmap_walk 0 K act inode s = (Inl Out_of_fuel, s)"
| "build_hashmap_walk (Suc fuel) K act inode s =
     (case xal_inode_path (Some (fst s)) (Some inode) (XAL_INODE_PATH_MAXLEN + 1) (act inode) of
        Inl e \<Rightarrow> (Inl e, s)
      | Inr path \<Rightarrow>
          bind_st (path_map_insert K (cstr path) inode s)
            (\<lambda>_ s. if xal_inode_is_dir (inode_of (fst s) inode) then
                     for_st [0..<unat (i_count (inode_of (fst s) inode))]
                       (\<lambda>i s. case xal_inode_at (fst s) (i_idx (inode_of (fst s) inode) + of_nat i) of
                                None \<Rightarrow> (Fail ESTALE, s)
                              | Some child \<Rightarrow> build_hashmap_walk fuel K act child s) s
                   else (Ok (), s)))"

definition new_path_map :: "xal \<Rightarrow> xal" where
  "new_path_map xal = set_fbe xal ((fbe_of xal)\<lparr>f_path_inode_map := Some (\<lambda>_. None)\<rparr>)"

definition xal_build_lookup_hashmap ::
  "nat \<Rightarrow> 'k kernel \<Rightarrow> (nat \<Rightarrow> u32) \<Rightarrow> xal option \<Rightarrow> 'k \<Rightarrow> unit res \<times> xal option \<times> 'k" where
  "xal_build_lookup_hashmap fuel K act xal k =
     (case xal of
        None \<Rightarrow> (Fail EINVAL, None, k)
      | Some xal \<Rightarrow>
          (case h_be xal of
             Be_fiemap be \<Rightarrow>
               if xal_is_dirty xal then (Fail ESTALE, Some xal, k)
               else
                 (case xal_inode_at xal (h_root_idx xal) of
                    None \<Rightarrow> (Fail ESTALE, Some xal, k)
                  | Some root \<Rightarrow>
                      (case need_mem K 0 ENOMEM (path_map_destroy xal, k) of
                         (Inl e, s) \<Rightarrow> (Inl e, Some (fst s), snd s)
                       | (Inr _, s) \<Rightarrow>
                           (case build_hashmap_walk fuel K act root (on_xal new_path_map s) of
                              (Inl e, s) \<Rightarrow> (Inl e, Some (path_map_destroy (fst s)), snd s)
                            | (Inr _, s) \<Rightarrow> (Ok (), Some (fst s), snd s))))
           | _ \<Rightarrow> (Fail EINVAL, Some xal, k)))"

section \<open>The map does not matter for the tree\<close>

definition with_map :: "xal \<Rightarrow> (cstring \<Rightarrow> nat option) option \<Rightarrow> xal" where
  "with_map xal m = set_fbe xal ((fbe_of xal)\<lparr>f_path_inode_map := m\<rparr>)"

lemma with_map_simps [simp]:
  "h_inodes (with_map xal m) = h_inodes xal" "h_root_idx (with_map xal m) = h_root_idx xal"
  "h_index_state (with_map xal m) = h_index_state xal" "h_seq_lock (with_map xal m) = h_seq_lock xal"
  "with_map (with_map xal m) m' = with_map xal m'" "f_path_inode_map (fbe_of (with_map xal m)) = m"
  by (simp_all add: with_map_def set_fbe_def fbe_of_def)

lemma resolves_same_inodes:
  assumes "h_inodes xal' = h_inodes xal" "resolves xal d cs i"
  shows "resolves xal' d cs i"
  using assms(2)
proof (induction rule: resolves.induct)
  case (there d c cs i)
  have "resolves xal' d (i_cname (inode_of xal' c) # cs) i"
    by (rule resolves.there) (use there assms(1) in \<open>simp_all add: children_def\<close>)
  then show ?case using assms(1) by simp
qed (rule resolves.here)

lemma with_map_tree [simp]:
  "resolves (with_map xal m) = resolves xal" "index_wf (with_map xal m) = index_wf xal"
  "names_ok (with_map xal m) = names_ok xal" "undisturbed (with_map xal m) = undisturbed xal"
  by (auto simp: index_wf_def tree_ok_def root_ok_def dir_ok_def names_ok_def children_def undisturbed_def fun_eq_iff
      intro: resolves_same_inodes [of _ "with_map xal m"] resolves_same_inodes [of "with_map xal m" xal])

lemma basepath_with_map [simp]:
  "h_be xal = Be_fiemap be \<Longrightarrow> basepath_of (with_map xal m) = basepath_of xal"
  by (simp add: basepath_of_def with_map_def set_fbe_def fbe_of_def cong: option.case_cong)

lemma path_of_with_map [simp]: "h_be xal = Be_fiemap be \<Longrightarrow> path_of (with_map xal m) = path_of xal"
  by (simp add: path_of_def fun_eq_iff)

lemma map_ops_with_map:
  "path_map_destroy xal = with_map xal None" "new_path_map xal = with_map xal (Some (\<lambda>_. None))"
  by (simp_all add: path_map_destroy_def new_path_map_def with_map_def)

lemma path_map_insert_Ok:
  "path_map_insert K p i (with_map xal (Some m), k) = (Ok (), s') \<Longrightarrow> fst s' = with_map xal (Some (m(p \<mapsto> i)))"
  by (auto simp: path_map_insert_def bind_st_Ok_iff with_map_def set_fbe_def dest!: need_mem_xal)
     (simp add: fbe_of_def)

section \<open>What the map holds\<close>

text \<open>Every entry is the path of its inode; the paths of the inodes below \<open>d\<close> are entries.\<close>

definition map_sound :: "xal \<Rightarrow> (cstring \<Rightarrow> nat option) \<Rightarrow> bool" where
  "map_sound xal m \<longleftrightarrow> (\<forall>p i. m p = Some i \<longrightarrow> (\<exists>cs. resolves xal 0 cs i \<and> p = path_of xal cs))"

definition map_covers :: "xal \<Rightarrow> cstring list \<Rightarrow> nat \<Rightarrow> (cstring \<Rightarrow> nat option) \<Rightarrow> bool" where
  "map_covers xal cs d m \<longleftrightarrow> (\<forall>ds i. resolves xal d ds i \<longrightarrow> path_of xal (cs @ ds) \<in> dom m)"

lemma path_of_no_nul:
  assumes "index_wf xal" "names_ok xal" "0 \<notin> set (basepath_of xal)" "resolves xal 0 cs i"
  shows "0 \<notin> set (path_of xal cs)"
  using resolves_plain [OF _ assms(2,4) root_in_pool(3) [OF assms(1)]] plain_join_path [of cs] assms(1,3)
  by (auto simp: path_of_def index_wf_def)

lemma child_index:
  assumes "tree_ok xal" "d < n_inodes xal" "xal_inode_is_dir (inode_of xal d)" "k < unat (i_count (inode_of xal d))"
  shows "unat (i_idx (inode_of xal d) + of_nat k) = unat (i_idx (inode_of xal d)) + k"
proof -
  have "unat (i_idx (inode_of xal d)) + k < n_inodes xal"
    by (rule dir_okD(2) [OF tree_okD [OF assms(1-3)] children_nth [OF assms(4)]])
  also have "\<dots> < 2 ^ 32" using assms(1) by (simp add: tree_ok_def)
  finally show ?thesis by (simp add: unat_word_ariths unat_of_nat)
qed

lemma map_covers_dir:
  assumes "path_of xal cs \<in> dom m"
    and "\<And>j. j < unat (i_count (inode_of xal d)) \<Longrightarrow>
      map_covers xal (cs @ [i_cname (inode_of xal (children xal d ! j))]) (children xal d ! j) m"
  shows "map_covers xal cs d m"
  unfolding map_covers_def
proof (intro allI impI)
  fix ds i assume "resolves xal d ds i"
  then show "path_of xal (cs @ ds) \<in> dom m"
  proof (cases rule: resolves.cases)
    case here
    then show ?thesis using assms(1) by simp
  next
    case (there c ds')
    then obtain j where "j < unat (i_count (inode_of xal d))" "c = children xal d ! j"
      by (auto simp: in_set_conv_nth) (auto simp: children_def)
    then show ?thesis using assms(2) [of j] there unfolding map_covers_def by fastforce
  qed
qed

text \<open>The loop over the entries of a directory: what holds before the entry \<open>k\<close>.\<close>

definition entries_mapped :: "xal \<Rightarrow> cstring list \<Rightarrow> nat \<Rightarrow> cstring set \<Rightarrow> nat \<Rightarrow> xal \<times> 'k \<Rightarrow> bool" where
  "entries_mapped xal cs d D k u \<longleftrightarrow> (\<exists>m. fst u = with_map xal (Some m) \<and> map_sound xal m \<and> D \<subseteq> dom m
     \<and> (\<forall>j<k. map_covers xal (cs @ [i_cname (inode_of xal (children xal d ! j))]) (children xal d ! j) m))"

definition maps_subtree :: "xal \<Rightarrow> (nat \<Rightarrow> xal \<times> 'k \<Rightarrow> unit res \<times> xal \<times> 'k) \<Rightarrow> bool" where
  "maps_subtree xal f \<longleftrightarrow> (\<forall>d s s' m cs. f d s = (Ok (), s') \<longrightarrow> fst s = with_map xal (Some m) \<longrightarrow> resolves xal 0 cs d \<longrightarrow> map_sound xal m \<longrightarrow>
     (\<exists>m'. fst s' = with_map xal (Some m') \<and> map_sound xal m' \<and> dom m \<subseteq> dom m' \<and> map_covers xal cs d m'))"

lemma entries_mapped_step:
  assumes tree: "tree_ok xal" and d: "d < n_inodes xal" "xal_inode_is_dir (inode_of xal d)" "resolves xal 0 cs d"
    and sub: "maps_subtree xal f" and k: "k < unat (i_count (inode_of xal d))" "entries_mapped xal cs d D k u"
    and step: "(case xal_inode_at (fst u) (i_idx (inode_of (fst u) d) + of_nat k) of
      None \<Rightarrow> (Fail ESTALE, u) | Some child \<Rightarrow> f child u) = (Ok (), v)"
  shows "entries_mapped xal cs d D (Suc k) v"
proof -
  let ?c = "children xal d ! k"
  from k(2) obtain m where m: "fst u = with_map xal (Some m)" "map_sound xal m" "D \<subseteq> dom m"
    "\<And>j. j < k \<Longrightarrow> map_covers xal (cs @ [i_cname (inode_of xal (children xal d ! j))]) (children xal d ! j) m"
    unfolding entries_mapped_def by blast
  have c: "?c \<in> set (children xal d)" "?c = unat (i_idx (inode_of xal d)) + k" using k(1) by (simp_all add: children_def)
  have "unat (i_idx (inode_of xal d) + of_nat k) = ?c" using child_index [OF tree d(1,2) k(1)] by (simp add: c(2))
  then have go: "f ?c u = (Ok (), v)" using step m(1) by (auto split: option.splits)
  have r: "resolves xal 0 (cs @ [i_cname (inode_of xal ?c)]) ?c" by (rule resolves_snoc [OF d(3,2) c(1)])
  obtain m' where m': "fst v = with_map xal (Some m')" "map_sound xal m'" "dom m \<subseteq> dom m'"
    "map_covers xal (cs @ [i_cname (inode_of xal ?c)]) ?c m'"
    using sub go m(1) r m(2) unfolding maps_subtree_def by blast
  have keep: "map_covers xal a b m'" if "map_covers xal a b m" for a b
    using that m'(3) unfolding map_covers_def by blast
  have "map_covers xal (cs @ [i_cname (inode_of xal (children xal d ! j))]) (children xal d ! j) m'" if "j < Suc k" for j
    using that m'(4) keep [OF m(4)] by (cases "j = k") auto
  then show ?thesis using m(3) m' unfolding entries_mapped_def by blast
qed

lemma build_hashmap_walk_maps:
  assumes wf: "index_wf xal" "names_ok xal" "0 \<notin> set (basepath_of xal)" and be: "h_be xal = Be_fiemap be"
    and quiet: "\<And>i. undisturbed xal (act i)"
  shows "maps_subtree xal (build_hashmap_walk fuel K act)"
proof (induction fuel)
  case (Suc fuel)
  have tree: "tree_ok xal" using wf(1) by (simp add: index_wf_def)
  let ?step = "\<lambda>d i s. case xal_inode_at (fst s) (i_idx (inode_of (fst s) d) + of_nat i) of
     None \<Rightarrow> (Fail ESTALE, s) | Some child \<Rightarrow> build_hashmap_walk fuel K act child s"
  show ?case unfolding maps_subtree_def
  proof (intro allI impI)
    fix d s s' m cs
    assume run: "build_hashmap_walk (Suc fuel) K act d s = (Ok (), s')" and s: "fst s = with_map xal (Some m)"
      and res: "resolves xal 0 cs d" and snd: "map_sound xal m"
    let ?m = "m(path_of xal cs \<mapsto> d)"
    have d: "d < n_inodes xal" using resolves_bound [OF tree res] root_in_pool(3) [OF wf(1)] by simp
    have path: "xal_inode_path (Some (fst s)) (Some d) (XAL_INODE_PATH_MAXLEN + 1) (act d) =
        (if length (path_of xal cs) \<le> 4096 then Ok (path_of xal cs) else Fail ENAMETOOLONG)"
      using inode_path_written [of "fst s" "act d" cs d "XAL_INODE_PATH_MAXLEN + 1"] wf be quiet s res by simp
    have nul: "cstr (path_of xal cs) = path_of xal cs" using path_of_no_nul [OF wf res] by simp
    obtain t where ins: "path_map_insert K (path_of xal cs) d s = (Ok (), t)"
      and loop: "(if xal_inode_is_dir (inode_of (fst t) d) then for_st [0..<unat (i_count (inode_of (fst t) d))] (?step d) t
          else (Ok (), t)) = (Ok (), s')"
      using run unfolding build_hashmap_walk.simps path by (auto simp: nul split: if_splits elim!: bind_st_OkE)
    have t: "fst t = with_map xal (Some ?m)"
      using path_map_insert_Ok [of K "path_of xal cs" d xal m "snd s" t] ins s by (metis prod.collapse)
    have sound: "map_sound xal ?m" using res snd by (auto simp: map_sound_def)
    show "\<exists>m'. fst s' = with_map xal (Some m') \<and> map_sound xal m' \<and> dom m \<subseteq> dom m' \<and> map_covers xal cs d m'"
    proof (cases "xal_inode_is_dir (inode_of xal d)")
      case False
      then have "map_covers xal cs d ?m" by (auto simp: map_covers_def elim: resolves.cases)
      then show ?thesis using loop t sound False by auto
    next
      case True
      have go: "for_st [0..<unat (i_count (inode_of xal d))] (?step d) t = (Ok (), s')" using loop t True by simp
      have start: "entries_mapped xal cs d (dom ?m) 0 t" using t sound by (auto simp: entries_mapped_def)
      have "entries_mapped xal cs d (dom ?m) (unat (i_count (inode_of xal d))) s'"
        by (rule for_st_upt_inv [where I = "entries_mapped xal cs d (dom ?m)", OF go start])
           (rule entries_mapped_step [OF tree d True res Suc])
      then obtain m' where m': "fst s' = with_map xal (Some m')" "map_sound xal m'" "dom ?m \<subseteq> dom m'"
        "\<And>j. j < unat (i_count (inode_of xal d)) \<Longrightarrow>
          map_covers xal (cs @ [i_cname (inode_of xal (children xal d ! j))]) (children xal d ! j) m'"
        unfolding entries_mapped_def by blast
      have "map_covers xal cs d m'" by (rule map_covers_dir [OF _ m'(4)]) (use m'(3) in auto)
      then show ?thesis using m'(1-3) by auto
    qed
  qed
qed (simp add: maps_subtree_def)

lemma build_hashmap_walk_sound:
  assumes "index_wf xal" "names_ok xal" "0 \<notin> set (basepath_of xal)" "h_be xal = Be_fiemap be" "\<And>i. undisturbed xal (act i)"
    and "build_hashmap_walk fuel K act d s = (Ok (), s')" "fst s = with_map xal (Some m)" "resolves xal 0 cs d" "map_sound xal m"
  shows "\<exists>m'. fst s' = with_map xal (Some m') \<and> map_sound xal m' \<and> dom m \<subseteq> dom m' \<and> map_covers xal cs d m'"
  using build_hashmap_walk_maps [where act = act and fuel = fuel and K = K, OF assms(1-5)] assms(6-9)
  unfolding maps_subtree_def by blast

text \<open>A path names one inode, and an inode's path is that of one sequence of names.\<close>

lemma join_path_inj: "plain cs \<Longrightarrow> plain ds \<Longrightarrow> join_path cs = join_path ds \<Longrightarrow> cs = ds"
proof (induction cs arbitrary: ds)
  case Nil
  then show ?case by (cases ds) auto
next
  case (Cons c cs)
  then obtain e es where ds: "ds = e # es" by (cases ds) auto
  have eq: "c @ join_path cs = e @ join_path es" using Cons.prems(3) ds by simp
  have "c = e" using arg_cong [OF eq, of "takeWhile (\<lambda>b. b \<noteq> slash)"] takeWhile_component Cons.prems(1,2) ds
    by (metis plain_simps(2))
  then show ?case using eq Cons ds by auto
qed

lemma path_of_inj: "plain cs \<Longrightarrow> plain ds \<Longrightarrow> path_of xal cs = path_of xal ds \<Longrightarrow> cs = ds"
  using join_path_inj [of cs ds] join_path_not_slash [of cs] join_path_not_slash [of ds]
  by (cases cs; cases ds) (auto simp: path_of_def split: if_splits)

lemma resolves_unique:
  assumes "tree_ok xal" "names_ok xal"
  shows "resolves xal d cs i \<Longrightarrow> d < n_inodes xal \<Longrightarrow> resolves xal d cs j \<Longrightarrow> i = j"
proof (induction rule: resolves.induct)
  case (there d c cs i)
  then obtain c' where c': "c' \<in> set (children xal d)" "i_cname (inode_of xal c') = i_cname (inode_of xal c)"
    "resolves xal c' cs j" by (auto simp: resolves_Cons)
  have "inj_on (\<lambda>c. i_cname (inode_of xal c)) (set (children xal d))"
    using assms(2) there.prems(1) there.hyps(1) by (simp add: names_ok_def distinct_map)
  then have "c' = c" using c' there.hyps(2) by (auto dest: inj_onD)
  then show ?case using c' there.IH dir_okD(2) [OF tree_okD [OF assms(1) there.prems(1) there.hyps(1)] there.hyps(2)] by simp
qed simp

definition path_map_exact :: "xal \<Rightarrow> (cstring \<Rightarrow> nat option) \<Rightarrow> bool" where
  "path_map_exact xal m \<longleftrightarrow> (\<forall>p i. m p = Some i \<longleftrightarrow> (\<exists>cs. resolves xal 0 cs i \<and> p = path_of xal cs))"

lemma map_exactI:
  assumes "index_wf xal" "names_ok xal" "map_sound xal m" "map_covers xal [] 0 m"
  shows "path_map_exact xal m"
  unfolding path_map_exact_def
proof (intro allI iffI)
  fix p i assume "\<exists>cs. resolves xal 0 cs i \<and> p = path_of xal cs"
  then obtain cs where cs: "resolves xal 0 cs i" "p = path_of xal cs" by blast
  then obtain j where j: "m p = Some j" using assms(4) by (fastforce simp: map_covers_def)
  then obtain ds where ds: "resolves xal 0 ds j" "p = path_of xal ds" using assms(3) by (auto simp: map_sound_def)
  have tree: "tree_ok xal" and root: "0 < n_inodes xal" using assms(1) root_in_pool(3) by (auto simp: index_wf_def)
  have "cs = ds"
    by (rule path_of_inj [of _ _ xal]) (use resolves_plain [OF tree assms(2)] cs ds root in auto)
  then show "m p = Some i" using resolves_unique [OF tree assms(2) cs(1) root] ds(1) j by simp
qed (use assms(3) in \<open>auto simp: map_sound_def\<close>)

lemma build_hashmap_exact:
  assumes "xal_build_lookup_hashmap fuel K act (Some xal) k = (Ok (), xal', k')"
    and wf: "index_wf xal" "names_ok xal" "0 \<notin> set (basepath_of xal)" and quiet: "\<And>i. undisturbed xal (act i)"
  shows "\<exists>m be. xal' = Some (with_map xal (Some m)) \<and> path_map_exact xal m \<and> h_be xal = Be_fiemap be"
proof -
  obtain be where be: "h_be xal = Be_fiemap be"
    using assms(1) by (auto simp: xal_build_lookup_hashmap_def split: xal_be.splits)
  have clean: "\<not> xal_is_dirty xal" using quiet by (auto simp: undisturbed_def xal_is_dirty_def)
  obtain k1 s where mem: "need_mem K 0 ENOMEM (with_map xal None, k) = (Ok (), with_map xal None, k1)"
    and run: "build_hashmap_walk fuel K act 0 (with_map xal (Some (\<lambda>_. None)), k1) = (Ok (), s)" "xal' = Some (fst s)"
    using assms(1) be clean root_in_pool(1) [OF wf(1)]
    by (auto simp: xal_build_lookup_hashmap_def map_ops_with_map on_xal_def need_mem_def split: prod.splits sum.splits if_splits)
  obtain m where "fst s = with_map xal (Some m)" "map_sound xal m" "map_covers xal [] 0 m"
    using build_hashmap_walk_sound [OF wf be quiet run(1), of "\<lambda>_. None" "[]"] by (auto simp: map_sound_def)
  then show ?thesis using map_exactI [OF wf(1,2)] run(2) be by blast
qed

section \<open>Looking up in the map\<close>

lemma xal_get_inode_map:
  assumes "index_wf xal" "undisturbed xal act" "h_be xal = Be_fiemap be" "0 \<notin> set (basepath_of xal)"
    and "plain cs" "cs \<noteq> []"
  shows "xal_get_inode (Some (with_map xal (Some m))) (Some (basepath_of xal @ join_path cs)) act =
    (case m (basepath_of xal @ join_path cs) of None \<Rightarrow> Fail ENOENT | Some i \<Rightarrow> Ok i)"
proof -
  let ?x = "with_map xal (Some m)"
  have root: "xal_inode_at ?x (h_root_idx ?x) = Some 0" "h_root_idx ?x \<noteq> XAL_POOL_IDX_NONE"
    by (rule root_in_pool, use assms(1) in simp)+
  have pass: "\<not> xal_is_dirty ?x" "\<not> is_odd (xal_get_seq_lock ?x)" "act = xal_get_seq_lock ?x"
    using assms(2) by (simp_all add: undisturbed_def xal_is_dirty_def xal_get_seq_lock_def)
  have be: "h_be ?x = Be_fiemap (be\<lparr>f_path_inode_map := Some m\<rparr>)"
    using assms(3) by (simp add: with_map_def set_fbe_def fbe_of_def)
  have base: "(case f_subtree be of Some s \<Rightarrow> s | None \<Rightarrow> f_mountpoint be) = basepath_of xal"
    using assms(3) by (simp add: basepath_of_def)
  have ne: "join_path cs \<noteq> [slash]" "join_path cs \<noteq> []" using join_path_not_slash [OF assms(5,6)] assms(6) by (cases cs; simp)+
  show ?thesis unfolding xal_get_inode_def xal_be_fiemap_get_inode_def be xal_be.case option.case prod.case root(1)
    using pass base ne root(2) path_under_basepath_append [OF assms(4,5)]
    by (cases "m (basepath_of xal @ join_path cs)") (simp_all add: Let_def cong: option.case_cong)
qed


section \<open>The map is built\<close>

lemma build_hashmap_walk_total:
  assumes wf: "index_wf xal" "names_ok xal" "0 \<notin> set (basepath_of xal)" and be: "h_be xal = Be_fiemap be"
    and quiet: "\<And>i. undisturbed xal (act i)" and mem: "\<And>n k. fst (k_alloc K n k)"
    and fits: "\<And>cs i. resolves xal 0 cs i \<Longrightarrow> length (path_of xal cs) \<le> 4096"
  shows "resolves xal 0 cs d \<Longrightarrow> n_inodes xal < fuel + d \<Longrightarrow>
    \<exists>m' k'. build_hashmap_walk fuel K act d (with_map xal (Some m), k) = (Ok (), with_map xal (Some m'), k')"
proof (induction fuel arbitrary: d m k cs)
  case 0
  then show ?case using resolves_bound [OF _ 0(1)] wf(1) root_in_pool(3) [OF wf(1)] by (simp add: index_wf_def)
next
  case (Suc fuel)
  note outer_IH = Suc.IH and resolved = Suc.prems(1) and enough = Suc.prems(2)
  have tree: "tree_ok xal" using wf(1) by (simp add: index_wf_def)
  have d: "d < n_inodes xal" using resolves_bound [OF tree Suc.prems(1)] root_in_pool(3) [OF wf(1)] by simp
  have path: "xal_inode_path (Some (with_map xal (Some m))) (Some d) (XAL_INODE_PATH_MAXLEN + 1) (act d) = Ok (path_of xal cs)"
    using inode_path_written [of "with_map xal (Some m)" "act d" cs d "XAL_INODE_PATH_MAXLEN + 1"]
      wf be quiet Suc.prems(1) fits [OF Suc.prems(1)] by simp
  have nul: "cstr (path_of xal cs) = path_of xal cs" using path_of_no_nul [OF wf Suc.prems(1)] by simp
  have grant: "\<exists>k'. need_mem K n ENOMEM (x, k) = (Ok (), x, k')" if "n \<le> 4097" for n x k
    using mem [of n k] that by (cases "k_alloc K n k") (simp add: need_mem_def)
  obtain m1 k1 where ins: "path_map_insert K (path_of xal cs) d (with_map xal (Some m), k) = (Ok (), with_map xal (Some m1), k1)"
  proof -
    obtain k1 where 1: "need_mem K (length (path_of xal cs) + 1) ENOMEM (with_map xal (Some m), k) = (Ok (), with_map xal (Some m), k1)"
      using grant [of "length (path_of xal cs) + 1"] fits [OF Suc.prems(1)] by auto
    obtain k2 where 2: "need_mem K 0 ENOMEM (with_map xal (Some m), k1) = (Ok (), with_map xal (Some m), k2)"
      using grant [of 0] by auto
    have "\<exists>s. path_map_insert K (path_of xal cs) d (with_map xal (Some m), k) = (Ok (), s)"
      unfolding path_map_insert_def 1 bind_st_simps 2 by simp
    then show thesis using path_map_insert_Ok that by (metis prod.collapse)
  qed
  let ?f = "\<lambda>i s. case xal_inode_at (fst s) (i_idx (inode_of (fst s) d) + of_nat i) of
             None \<Rightarrow> (Fail ESTALE, s) | Some child \<Rightarrow> build_hashmap_walk fuel K act child s"
  have "\<exists>m2 k2. for_st [0..<n] ?f (with_map xal (Some m1), k1) = (Ok (), with_map xal (Some m2), k2)"
    if dir: "xal_inode_is_dir (inode_of xal d)" and "n \<le> unat (i_count (inode_of xal d))" for n
    using that(2)
  proof (induction n)
    case (Suc n)
    then obtain m2 k2 where 2: "for_st [0..<n] ?f (with_map xal (Some m1), k1) = (Ok (), with_map xal (Some m2), k2)" by auto
    let ?c = "unat (i_idx (inode_of xal d)) + n"
    have c: "?c \<in> set (children xal d)" using Suc.prems by (simp add: children_nth)
    note bound = dir_okD(1,2) [OF tree_okD [OF tree d dir] c]
    have "xal_inode_at (with_map xal (Some m2)) (i_idx (inode_of xal d) + of_nat n) = Some ?c"
      using child_index [OF tree d dir, of n] Suc.prems bound(2) n_inodes_le_allocated [OF tree] by simp
    moreover obtain m3 k3 where "build_hashmap_walk fuel K act ?c (with_map xal (Some m2), k2) = (Ok (), with_map xal (Some m3), k3)"
      using outer_IH [OF resolves_snoc [OF resolved dir c]] bound(1) enough by fastforce
    ultimately show ?case using 2 by (auto simp: for_st_append simp del: xal_inode_at_Some xal_inode_at_None)
  qed auto
  then show ?case using path nul ins by (auto simp del: xal_inode_at_Some xal_inode_at_None)
qed

text \<open>
  C32: the map of a well-formed index is always built when memory suffices, no rebuild interferes and every
  path fits the buffer; the recursion is no deeper than the pool has inodes, which bounds the fuel.
\<close>

theorem hashmap_built:
  assumes wf: "index_wf xal" "names_ok xal" "0 \<notin> set (basepath_of xal)" and be: "h_be xal = Be_fiemap be"
    and quiet: "\<And>i. undisturbed xal (act i)" and mem: "\<And>n k. fst (k_alloc K n k)"
    and fits: "\<And>cs i. resolves xal 0 cs i \<Longrightarrow> length (path_of xal cs) \<le> XAL_INODE_PATH_MAXLEN"
    and fuel: "n_inodes xal < fuel"
  shows "\<exists>xal' k'. xal_build_lookup_hashmap fuel K act (Some xal) k = (Ok (), Some xal', k')"
proof -
  have clean: "\<not> xal_is_dirty xal" using quiet by (auto simp: undisturbed_def xal_is_dirty_def)
  obtain k1 where 1: "need_mem K 0 ENOMEM (path_map_destroy xal, k) = (Ok (), path_map_destroy xal, k1)"
    using mem [of 0 k] by (cases "k_alloc K 0 k") (simp add: need_mem_def)
  have "\<exists>m k2. build_hashmap_walk fuel K act 0 (with_map xal (Some (\<lambda>_. None)), k1) = (Ok (), with_map xal (Some m), k2)"
    by (rule build_hashmap_walk_total [where act = act and K = K and cs = "[]", OF wf be quiet mem])
       (use fits fuel in auto)
  then obtain m k2 where 2: "build_hashmap_walk fuel K act 0 (with_map xal (Some (\<lambda>_. None)), k1) = (Ok (), with_map xal (Some m), k2)"
    by blast
  show ?thesis using clean be 1 2 root_in_pool(1) [OF wf(1)]
    by (simp add: xal_build_lookup_hashmap_def map_ops_with_map on_xal_def
        del: xal_inode_at_Some xal_inode_at_None)
qed

text \<open>A kernel that grants memory, and the sample index with its lock at rest.\<close>

definition calm_kernel :: "unit kernel" where
  "calm_kernel = still_kernel"

lemma calm_alloc: "fst (k_alloc calm_kernel n k)"
  by (simp add: calm_kernel_def still_kernel_def)

lemma sample_paths:
  "resolves sample_xal 2 cs i \<Longrightarrow> cs = []" "resolves sample_xal 3 cs i \<Longrightarrow> cs = []"
  "resolves sample_xal (Suc 0) cs i \<Longrightarrow> cs \<in> {[], [[0x62]]}"
  "resolves sample_xal 0 cs i \<Longrightarrow> cs \<in> {[], [[0x61]], [[0x61], [0x62]], [[0x63]]}"
proof -
  show 2: "cs = []" if "resolves sample_xal 2 cs i" for cs i
    using that by (cases cs) (auto simp: resolves_Cons simp del: sample_inode_simps)
  show 3: "cs = []" if "resolves sample_xal 3 cs i" for cs i
    using that by (cases cs) (auto simp: resolves_Cons simp del: sample_inode_simps)
  show 1: "cs \<in> {[], [[0x62]]}" if "resolves sample_xal (Suc 0) cs i" for cs i
    using that by (cases cs) (auto simp: resolves_Cons simp del: sample_inode_simps dest: 3)
  show "resolves sample_xal 0 cs i \<Longrightarrow> cs \<in> {[], [[0x61]], [[0x61], [0x62]], [[0x63]]}"
    by (cases cs) (auto simp: resolves_Cons simp del: sample_inode_simps dest: 1 2)
qed

lemma sample_paths_fit: "resolves sample_xal 0 cs i \<Longrightarrow> length (path_of sample_xal cs) \<le> XAL_INODE_PATH_MAXLEN"
  by (drule sample_paths(4)) (auto simp: path_of_def sample_by_traversal(2))

theorem hashmap_built_witness:
  "\<exists>xal' k'. xal_build_lookup_hashmap 5 calm_kernel (\<lambda>_. 2) (Some sample_xal) () = (Ok (), Some xal', k')"
proof (rule hashmap_built [OF sample_wf sample_names _ _ sample_undisturbed calm_alloc sample_paths_fit])
  show "0 \<notin> set (basepath_of sample_xal)" by (simp add: sample_by_traversal(2))
  show "h_be sample_xal = Be_fiemap sample_be" by (simp add: sample_xal_def)
  show "n_inodes sample_xal < 5" by (simp add: sample_xal_def sample_pool_def)
qed

definition sample_mapped :: xal where
  "sample_mapped = the (fst (snd (xal_build_lookup_hashmap 5 calm_kernel (\<lambda>_. 2) (Some sample_xal) ())))"


end
