(* ===== verification/Xal_Shm.thy ===== *)
theory Xal_Shm
  imports Xal_Open Xal_Hashmap
begin

text \<open>
  Attaching to the pools of another process (\<open>xal_from_shm()\<close> of \<open>src/src/xal.c\<close>). A primary process builds the
  index in shared memory and publishes a state region; a secondary maps the three objects and reads. The theory
  shows that what a secondary reads is what the primary has, and when attaching is refused.
\<close>

section \<open>Attaching\<close>

text \<open>
  The shared memory objects by name, with their size in bytes and what they hold at the time they are read, and
  the calls that may fail.
\<close>

record shm_objects =
  so_state :: "cstring \<Rightarrow> (u64 \<times> xal_shared_state) option"
  so_inodes :: "cstring \<Rightarrow> (u64 \<times> (nat \<Rightarrow> xal_inode)) option"
  so_extents :: "cstring \<Rightarrow> (u64 \<times> (nat \<Rightarrow> xal_extent)) option"

record attach_os =
  at_calloc :: bool
  at_open :: "cstring \<Rightarrow> errno option"
  at_fstat :: "cstring \<Rightarrow> errno option"
  at_mmap :: "cstring \<Rightarrow> errno option"
  at_strdup :: "cstring \<Rightarrow> bool"

text \<open>\<open>shm_open()\<close> and \<open>fstat()\<close> of an object that must exist; then \<open>mmap()\<close>.\<close>

definition shm_stat :: "attach_os \<Rightarrow> (cstring \<Rightarrow> (u64 \<times> 'a) option) \<Rightarrow> cstring \<Rightarrow> (u64 \<times> 'a) res" where
  "shm_stat os objs nm =
     (case at_open os nm of
        Some e \<Rightarrow> Fail e
      | None \<Rightarrow>
          (case objs nm of
             None \<Rightarrow> Fail ENOENT
           | Some obj \<Rightarrow> (case at_fstat os nm of Some e \<Rightarrow> Fail e | None \<Rightarrow> Ok obj)))"

definition shm_mmap :: "attach_os \<Rightarrow> cstring \<Rightarrow> unit res" where
  "shm_mmap os nm = (case at_mmap os nm of Some e \<Rightarrow> Fail e | None \<Rightarrow> Ok ())"

text \<open>The names are formatted into arrays of 128 bytes.\<close>

definition shm_object_name :: "cstring \<Rightarrow> cstring \<Rightarrow> cstring" where
  "shm_object_name nm suffix = take 127 (nm @ suffix)"

definition attach_state :: "attach_os \<Rightarrow> shm_objects \<Rightarrow> cstring \<Rightarrow> xal_shared_state res" where
  "attach_state os objs nm =
     bind_res (shm_stat os (so_state objs) nm)
       (\<lambda>(nbytes, state).
          if nbytes = 0 then Fail EAGAIN
          else if nbytes \<noteq> SHARED_STATE_NBYTES then Fail EPROTO
          else
            bind_res (shm_mmap os nm)
              (\<lambda>_. if ss_magic state = 0 then Fail EAGAIN
                   else if ss_magic state \<noteq> XAL_SHM_MAGIC \<or> ss_version state \<noteq> XAL_SHM_VERSION then Fail EPROTO
                   else if ss_index_state state \<noteq> XAL_STATE_CLEAN then Fail ESTALE
                   else Ok state))"

definition attach_pool ::
  "attach_os \<Rightarrow> (cstring \<Rightarrow> (u64 \<times> (nat \<Rightarrow> 'a)) option) \<Rightarrow> u64 \<Rightarrow> 'a \<Rightarrow> cstring \<Rightarrow> 'a xal_pool res" where
  "attach_pool os objs esize zero nm =
     bind_res (shm_stat os objs nm)
       (\<lambda>(nbytes, mem). bind_res (shm_mmap os nm)
          (\<lambda>_. Ok ((empty_pool zero)\<lparr>mapped := True, memory := mem, element_size := esize,
             reserved := nbytes div esize, allocated := nbytes div esize\<rparr>)))"

definition attach_be :: "attach_os \<Rightarrow> xal_shared_state \<Rightarrow> xal_be res" where
  "attach_be os state =
     (if ss_type state = XAL_BACKEND_FIEMAP then
        if \<not> at_strdup os (ss_mountpoint state) then Fail ENOMEM
        else if ss_subtree state \<noteq> [] \<and> \<not> at_strdup os (ss_subtree state) then Fail ENOMEM
        else
          Ok (Be_fiemap (no_be_fiemap\<lparr>f_mountpoint := ss_mountpoint state,
            f_subtree := (if ss_subtree state \<noteq> [] then Some (ss_subtree state) else None)\<rparr>))
      else Ok (Be_xfs no_be_xfs))"

definition xal_from_shm :: "attach_os \<Rightarrow> shm_objects \<Rightarrow> cstring \<Rightarrow> xal res" where
  "xal_from_shm os objs nm =
     (if \<not> at_calloc os then Fail ENOMEM
      else
        bind_res (attach_state os objs (shm_object_name nm (str ''_state'')))
          (\<lambda>state. bind_res (attach_pool os (so_inodes objs) XAL_INODE_NBYTES zero_inode (shm_object_name nm (str ''_inodes'')))
             (\<lambda>inodes. bind_res (attach_pool os (so_extents objs) XAL_EXTENT_NBYTES zero_extent (shm_object_name nm (str ''_extents'')))
                (\<lambda>extents. bind_res (attach_be os state)
                   (\<lambda>be. Ok ((new_cand be)\<lparr>h_root_idx := 0, h_procrole := XAL_PROCROLE_SECONDARY, h_state := True,
                      h_index_state := ss_index_state state, h_seq_lock := ss_seq_lock state, h_sb := ss_sb state,
                      h_inodes := inodes, h_extents := extents\<rparr>))))))"

section \<open>What a primary offers\<close>

text \<open>
  The objects of a primary handle \<open>p\<close> that has published the state \<open>st\<close>: the words of the region are those of the
  handle, and the pools are mapped whole.
\<close>

definition region_of :: "xal_shared_state \<Rightarrow> xal \<Rightarrow> xal_shared_state" where
  "region_of st p = st\<lparr>ss_index_state := h_index_state p, ss_seq_lock := h_seq_lock p\<rparr>"

definition offers :: "shm_objects \<Rightarrow> cstring \<Rightarrow> xal_shared_state \<Rightarrow> xal \<Rightarrow> bool" where
  "offers objs nm st p \<longleftrightarrow>
     so_state objs (nm @ str ''_state'') = Some (SHARED_STATE_NBYTES, region_of st p)
     \<and> so_inodes objs (nm @ str ''_inodes'') = Some (reserved (h_inodes p) * XAL_INODE_NBYTES, memory (h_inodes p))
     \<and> so_extents objs (nm @ str ''_extents'') = Some (reserved (h_extents p) * XAL_EXTENT_NBYTES, memory (h_extents p))"

text \<open>Two handles that a reader cannot tell apart.\<close>

definition same_view :: "xal \<Rightarrow> xal \<Rightarrow> bool" where
  "same_view p s \<longleftrightarrow> inode_of s = inode_of p \<and> extent_of s = extent_of p
     \<and> allocated (h_inodes s) = allocated (h_inodes p) \<and> allocated (h_extents s) = allocated (h_extents p)
     \<and> h_root_idx s = h_root_idx p \<and> h_index_state s = h_index_state p \<and> h_seq_lock s = h_seq_lock p
     \<and> h_sb s = h_sb p \<and> by_traversal s \<and> by_traversal p
     \<and> (case h_be p of Be_fiemap b \<Rightarrow> \<exists>c. h_be s = Be_fiemap c \<and> f_mountpoint c = f_mountpoint b \<and> f_subtree c = f_subtree b
        | Be_xfs _ \<Rightarrow> \<exists>c. h_be s = Be_xfs c | Be_other _ \<Rightarrow> False)"


subsection \<open>Readers do not tell them apart\<close>

lemma same_viewD:
  assumes "same_view p s"
  shows "inode_of s = inode_of p" "xal_inode_at s = xal_inode_at p" "xal_extent_at s = xal_extent_at p"
    "h_root_idx s = h_root_idx p" "xal_is_dirty s = xal_is_dirty p" "xal_get_seq_lock s = xal_get_seq_lock p"
    "span_stale s = span_stale p" "extent_of s = extent_of p" "h_sb s = h_sb p"
  using assms by (auto simp: same_view_def xal_inode_at_def xal_extent_at_def xal_is_dirty_def xal_get_seq_lock_def
      span_stale_def fun_eq_iff)

lemma same_view_be:
  assumes "same_view p s"
  obtains (fiemap) b c where "h_be p = Be_fiemap b" "h_be s = Be_fiemap c" "f_mountpoint c = f_mountpoint b"
      "f_subtree c = f_subtree b" "f_path_inode_map b = None" "f_path_inode_map c = None"
    | (xfs) b c where "h_be p = Be_xfs b" "h_be s = Be_xfs c"
  using assms by (auto simp: same_view_def by_traversal_def split: xal_be.splits)

lemma search_loop_view:
  assumes "same_view p s"
  shows "search_loop s d path = search_loop p d path"
proof (induction "length path" arbitrary: d path rule: less_induct)
  case less
  note v = same_viewD [OF assms]
  have shorter: "search_loop s c begin' = search_loop p c begin'"
    if "dropWhile (\<lambda>b. b \<noteq> slash) path = x # begin'" for c x begin'
  proof (rule less)
    show "length begin' < length path"
      using that length_dropWhile_le [of "\<lambda>b. b \<noteq> slash" path] by simp
  qed
  show ?case
    by (subst (1 2) search_loop.simps)
       (simp add: Let_def span_search_def v shorter cong: if_cong option.case_cong list.case_cong)
qed

lemma search_by_traversal_view:
  "same_view p s \<Longrightarrow> search_by_traversal s root path basepath = search_by_traversal p root path basepath"
  by (auto simp: search_by_traversal_def search_loop_view split: option.split)

lemma get_inode_view:
  assumes "same_view p s"
  shows "xal_get_inode (Some s) path seq = xal_get_inode (Some p) path seq"
  using assms
  by (cases rule: same_view_be)
     (cases path; auto simp: xal_get_inode_def xal_be_fiemap_get_inode_def Let_def same_viewD [OF assms]
        search_by_traversal_view [OF assms] split: option.split)+

lemma inode_path_assemble_view:
  assumes "same_view p s"
  shows "inode_path_assemble s i buf n = inode_path_assemble p i buf n"
proof (induction i arbitrary: buf rule: less_induct)
  case (less i)
  note v = same_viewD [OF assms]
  have idx: "xal_inode_idx s i = xal_inode_idx p i" by (simp add: xal_inode_idx_def)
  have up: "inode_path_assemble s (unat (i_parent (inode_of p i))) buf n
      = inode_path_assemble p (unat (i_parent (inode_of p i))) buf n"
    if "\<not> xal_inode_idx p i \<le> i_parent (inode_of p i)"
  proof (rule less)
    have "unat (i_parent (inode_of p i)) < unat (xal_inode_idx p i)" using that by (simp add: word_less_nat_alt not_le)
    also have "\<dots> \<le> i" by (simp add: xal_inode_idx_def unat_of_nat)
    finally show "unat (i_parent (inode_of p i)) < i" .
  qed
  show ?case
    by (subst (1 2) inode_path_assemble.simps) (simp add: Let_def v idx up cong: if_cong)
qed

lemma inode_path_view:
  assumes "same_view p s"
  shows "xal_inode_path (Some s) i n seq = xal_inode_path (Some p) i n seq"
proof -
  have "basepath_of s = basepath_of p"
    using assms by (cases rule: same_view_be) (simp_all add: basepath_of_def cong: option.case_cong)
  then show ?thesis
    unfolding xal_inode_path_def basepath_of_def [symmetric] prod.case option.case same_viewD [OF assms]
      inode_path_assemble_view [OF assms]
    by (cases i) simp_all
qed

section \<open>A secondary reads what the primary has\<close>

text \<open>
  What is left of the handle that published the state when a secondary attaches: an indexing changes neither the
  superblock nor the paths of the handle.
\<close>

definition same_identity :: "xal \<Rightarrow> xal \<Rightarrow> bool" where
  "same_identity p0 p \<longleftrightarrow> h_sb p = h_sb p0
     \<and> (case h_be p0 of
          Be_fiemap b \<Rightarrow> \<exists>c. h_be p = Be_fiemap c \<and> f_mountpoint c = f_mountpoint b \<and> f_subtree c = f_subtree b
        | Be_xfs _ \<Rightarrow> \<exists>c. h_be p = Be_xfs c
        | Be_other _ \<Rightarrow> False)"

text \<open>The number the options have for the backend, and paths that \<open>publish_shared_state()\<close> stores whole.\<close>

definition be_number :: "xal \<Rightarrow> int" where
  "be_number p = (case h_be p of Be_fiemap _ \<Rightarrow> XAL_BACKEND_FIEMAP | Be_xfs _ \<Rightarrow> XAL_BACKEND_XFS | Be_other n \<Rightarrow> n)"

definition paths_fit :: "xal \<Rightarrow> bool" where
  "paths_fit p \<longleftrightarrow>
     (case h_be p of
        Be_fiemap b \<Rightarrow> length (f_mountpoint b) < XAL_PATH_MAXLEN
          \<and> (case f_subtree b of None \<Rightarrow> True | Some t \<Rightarrow> t \<noteq> [] \<and> length t < XAL_PATH_MAXLEN)
      | _ \<Rightarrow> True)"

text \<open>The pools of a primary are in shared memory, where all that is reserved is accessible.\<close>

definition shared_pools :: "xal \<Rightarrow> bool" where
  "shared_pools p \<longleftrightarrow> allocated (h_inodes p) = reserved (h_inodes p) \<and> allocated (h_extents p) = reserved (h_extents p)
     \<and> unat (reserved (h_inodes p)) * 312 < 2 ^ 64 \<and> unat (reserved (h_extents p)) * 25 < 2 ^ 64"

definition attachable :: "attach_os \<Rightarrow> bool" where
  "attachable os \<longleftrightarrow> at_calloc os \<and> (\<forall>nm. at_open os nm = None \<and> at_fstat os nm = None \<and> at_mmap os nm = None \<and> at_strdup os nm)"

lemma u64_mult_div:
  assumes "unat (n :: u64) * unat (m :: u64) < 2 ^ 64" "m \<noteq> 0"
  shows "n * m div m = n"
proof -
  have "unat (n * m) = unat n * unat m" using assms(1) by (simp add: unat_word_ariths)
  then show ?thesis using assms(2) by (metis nonzero_mult_div_cancel_right unat_eq_zero unat_div word_unat_eq_iff)
qed

lemma object_name: "length nm + 8 \<le> 127 \<Longrightarrow>
    shm_object_name nm (str ''_state'') = nm @ str ''_state''
  \<and> shm_object_name nm (str ''_inodes'') = nm @ str ''_inodes''
  \<and> shm_object_name nm (str ''_extents'') = nm @ str ''_extents''"
  by (simp add: shm_object_name_def str_def)

lemma attach_state_ok:
  assumes "attachable os" "so_state objs nm = Some (SHARED_STATE_NBYTES, st)" "ss_magic st = XAL_SHM_MAGIC"
    and "ss_version st = XAL_SHM_VERSION" "ss_index_state st = XAL_STATE_CLEAN"
  shows "attach_state os objs nm = Ok st"
  using assms by (simp add: attach_state_def shm_stat_def shm_mmap_def attachable_def)

lemma attach_pool_ok:
  assumes "attachable os" "objs nm = Some (n * esize, mem)" "unat n * unat esize < 2 ^ 64" "esize \<noteq> 0"
  shows "\<exists>pool. attach_pool os objs esize zero nm = Ok pool \<and> memory pool = mem \<and> allocated pool = n"
  using assms u64_mult_div [of n esize] by (simp add: attach_pool_def shm_stat_def shm_mmap_def attachable_def)

lemma attach_be_published:
  assumes "attachable os" "paths_fit p0" "same_identity p0 p"
    and "attach_be os (region_of (published_state p0 mountpoint (be_number p0)) p) = r"
  shows "\<exists>be. r = Ok be
    \<and> (case h_be p of Be_fiemap b \<Rightarrow> \<exists>c. be = Be_fiemap c \<and> f_mountpoint c = f_mountpoint b \<and> f_subtree c = f_subtree b
         \<and> f_path_inode_map c = None
       | Be_xfs _ \<Rightarrow> \<exists>c. be = Be_xfs c | Be_other _ \<Rightarrow> False)"
proof (cases "h_be p0")
  case (Be_fiemap b)
  then show ?thesis using assms
    by (cases "f_subtree b") (auto simp: attach_be_def attachable_def region_of_def published_state_def be_number_def
        same_identity_def paths_fit_def no_be_fiemap_def fbe_of_def Let_def)
qed (use assms in \<open>auto simp: attach_be_def region_of_def published_state_def be_number_def same_identity_def Let_def\<close>)

lemma published_ok:
  assumes "publish_shared_state pos nm mountpoint be (p0, ns) = (Ok st, p1, ns')"
  shows "st = published_state p0 mountpoint be"
  using assms by (auto simp: publish_shared_state_def Let_def split: prod.splits option.splits)

lemma region_of_simps [simp]:
  "ss_index_state (region_of (published_state p0 mountpoint be) p) = h_index_state p"
  "ss_seq_lock (region_of (published_state p0 mountpoint be) p) = h_seq_lock p"
  "ss_magic (region_of (published_state p0 mountpoint be) p) = XAL_SHM_MAGIC"
  "ss_version (region_of (published_state p0 mountpoint be) p) = XAL_SHM_VERSION"
  "ss_sb (region_of (published_state p0 mountpoint be) p) = h_sb p0"
  by (simp_all add: region_of_def published_state_def Let_def)

lemma attach_view:
  assumes st: "st = published_state p0 mountpoint (be_number p0)"
    and later: "same_identity p0 p" "shared_pools p" "by_traversal p" "h_root_idx p = 0"
      "h_index_state p = XAL_STATE_CLEAN"
    and fit: "paths_fit p0" "length nm + 8 \<le> 127"
    and offer: "offers objs nm st p" and os: "attachable os"
  shows "\<exists>s. xal_from_shm os objs nm = Ok s \<and> h_procrole s = XAL_PROCROLE_SECONDARY \<and> same_view p s"
proof -
  let ?st = "region_of (published_state p0 mountpoint (be_number p0)) p"
  note obj = offer [unfolded offers_def st]
  have state: "attach_state os objs (nm @ str ''_state'') = Ok ?st"
    using obj later(5) by (intro attach_state_ok os) simp_all
  obtain ino where ino: "attach_pool os (so_inodes objs) XAL_INODE_NBYTES zero_inode (nm @ str ''_inodes'') = Ok ino"
    "memory ino = inode_of p" "allocated ino = allocated (h_inodes p)"
    using obj later(2) attach_pool_ok [OF os, of "so_inodes objs" "nm @ str ''_inodes''" _ XAL_INODE_NBYTES "inode_of p" zero_inode]
    by (auto simp: shared_pools_def)
  obtain ext where ext: "attach_pool os (so_extents objs) XAL_EXTENT_NBYTES zero_extent (nm @ str ''_extents'') = Ok ext"
    "memory ext = extent_of p" "allocated ext = allocated (h_extents p)"
    using obj later(2) attach_pool_ok [OF os, of "so_extents objs" "nm @ str ''_extents''" _ XAL_EXTENT_NBYTES "extent_of p" zero_extent]
    by (auto simp: shared_pools_def)
  obtain be where be: "attach_be os ?st = Ok be"
    "case h_be p of Be_fiemap b \<Rightarrow> \<exists>c. be = Be_fiemap c \<and> f_mountpoint c = f_mountpoint b \<and> f_subtree c = f_subtree b
         \<and> f_path_inode_map c = None
       | Be_xfs _ \<Rightarrow> \<exists>c. be = Be_xfs c | Be_other _ \<Rightarrow> False"
    using attach_be_published [OF os fit(1) later(1) refl] by blast
  define s where "s = (new_cand be)\<lparr>h_root_idx := 0, h_procrole := XAL_PROCROLE_SECONDARY, h_state := True,
    h_index_state := ss_index_state ?st, h_seq_lock := ss_seq_lock ?st, h_sb := ss_sb ?st, h_inodes := ino, h_extents := ext\<rparr>"
  have "xal_from_shm os objs nm = Ok s" using os state ino(1) ext(1) be(1) object_name [OF fit(2)]
    by (simp add: xal_from_shm_def attachable_def s_def)
  moreover have "same_view p s"
    using ino(2,3) ext(2,3) be(2) later by (auto simp: same_view_def s_def new_cand_def by_traversal_def same_identity_def
        split: xal_be.splits)
  moreover have "h_procrole s = XAL_PROCROLE_SECONDARY" by (simp add: s_def)
  ultimately show ?thesis by blast
qed



text \<open>The sample index as a primary's, and the three objects it shares under the name \<open>/x\<close>.\<close>

definition sample_primary :: xal where
  "sample_primary = sample_xal\<lparr>h_inodes := (h_inodes sample_xal)\<lparr>reserved := allocated (h_inodes sample_xal)\<rparr>,
     h_extents := (h_extents sample_xal)\<lparr>reserved := allocated (h_extents sample_xal)\<rparr>\<rparr>"

definition sample_shared :: shm_objects where
  "sample_shared =
     \<lparr>so_state = [str ''/x_state'' \<mapsto> (SHARED_STATE_NBYTES, region_of (published_state sample_primary [] XAL_BACKEND_FIEMAP) sample_primary)],
      so_inodes = [str ''/x_inodes'' \<mapsto> (reserved (h_inodes sample_primary) * XAL_INODE_NBYTES, inode_of sample_primary)],
      so_extents = [str ''/x_extents'' \<mapsto> (reserved (h_extents sample_primary) * XAL_EXTENT_NBYTES, extent_of sample_primary)]\<rparr>"

definition sound_attach :: attach_os where
  "sound_attach = \<lparr>at_calloc = True, at_open = (\<lambda>_. None), at_fstat = (\<lambda>_. None), at_mmap = (\<lambda>_. None), at_strdup = (\<lambda>_. True)\<rparr>"


end
