(* ===== verification/Xal_Fiemap_Frame.thy ===== *)
theory Xal_Fiemap_Frame
  imports Xal_Fiemap
begin

text \<open>
  What a rebuild of the FIEMAP index leaves of a handle. A relation between handles that every single change of the
  walk respects is respected by the whole rebuild; the locale has the induction over the walk, and its instance
  says that the paths, the superblock, the names of the pools and the size of shared pools stay.
\<close>

section \<open>Steps that respect a relation\<close>

definition moves :: "(xal \<Rightarrow> xal \<Rightarrow> bool) \<Rightarrow> (xal \<times> 'k \<Rightarrow> 'a res \<times> xal \<times> 'k) \<Rightarrow> bool" where
  "moves R f \<longleftrightarrow> (\<forall>xal k. R xal (fst (snd (f (xal, k)))))"

lemma movesI: "(\<And>s. R (fst s) (fst (snd (f s)))) \<Longrightarrow> moves R f"
  by (force simp: moves_def)

lemma movesD: "moves R f \<Longrightarrow> R (fst s) (fst (snd (f s)))"
  by (cases s) (simp add: moves_def)

lemma moves_ret: "moves R f \<Longrightarrow> f s = (r, s') \<Longrightarrow> R (fst s) (fst s')"
  using movesD [of R f s] by simp

named_theorems moves_intros

locale walk_frame =
  fixes R :: "xal \<Rightarrow> xal \<Rightarrow> bool"
  assumes refl: "R x x" and trans: "R x y \<Longrightarrow> R y z \<Longrightarrow> R x z"
    and write_inode: "R x (put_inode x i v)" and write_extent: "R x (put_extent x e w)"
    and claim_inodes: "xal_pool_claim_inodes os (h_inodes x) n = (r, p) \<Longrightarrow> R x (x\<lparr>h_inodes := p\<rparr>)"
    and claim_extents: "xal_pool_claim_extents os (h_extents x) n = (r, q) \<Longrightarrow> R x (x\<lparr>h_extents := q\<rparr>)"
    and set_root: "R x (x\<lparr>h_root_idx := idx\<rparr>)" and clear: "R x (clear_pools x)"
    and set_map: "(f_path_inode_map (fbe_of x) = None \<longrightarrow> m = None) \<Longrightarrow> R x (set_fbe x ((fbe_of x)\<lparr>f_path_inode_map := m\<rparr>))"
    and set_reflink: "R x (set_fbe x ((fbe_of x)\<lparr>f_reflink := rl\<rparr>))"
    and set_watches: "R x (set_inotify x ino)"
begin

lemma moves_bind [moves_intros]:
  assumes "moves R f" "\<And>v. moves R (h v)"
  shows "moves R (\<lambda>s. bind_st (f s) (\<lambda>v. h v))"
proof (rule movesI)
  fix s
  obtain r t where f: "f s = (r, t)" by (rule prod.exhaust)
  then show "R (fst s) (fst (snd (bind_st (f s) (\<lambda>v. h v))))"
    using moves_ret [OF assms(1) f] movesD [OF assms(2)] trans by (cases r) auto
qed

lemma moves_for [moves_intros]: "(\<And>i. moves R (f i)) \<Longrightarrow> moves R (for_st is f)"
proof (induction "is")
  case Nil
  then show ?case by (simp add: moves_def refl)
next
  case (Cons i "is")
  have "moves R (\<lambda>s. bind_st (f i s) (\<lambda>_. for_st is f))" by (intro moves_bind Cons)
  then show ?case by (simp add: moves_def)
qed

lemma moves_if [moves_intros]: "moves R f \<Longrightarrow> moves R h \<Longrightarrow> moves R (\<lambda>s. if b s then f s else h s)"
  by (simp add: moves_def)

lemma moves_option [moves_intros]:
  "moves R f \<Longrightarrow> (\<And>v. moves R (h v)) \<Longrightarrow> moves R (\<lambda>s. case x s of None \<Rightarrow> f s | Some v \<Rightarrow> h v s)"
  by (simp add: moves_def split: option.split)

lemma moves_quiet [moves_intros]: "moves R (call f')" "moves R (need_mem K n e)" "moves R (\<lambda>s. (r, s))"
  by (simp_all add: moves_def refl)

lemma moves_on_xal [moves_intros]: "(\<And>xal. R xal (u xal)) \<Longrightarrow> moves R (\<lambda>s. (r, on_xal u s))"
  by (simp add: moves_def)

lemma moves_after [moves_intros]:
  assumes "\<And>xal. R xal (u xal)" "moves R f"
  shows "moves R (\<lambda>s. f (on_xal u s))"
  using assms by (auto simp: moves_def on_xal_def intro: trans)

lemma moves_close_after [moves_intros]: "moves R f \<Longrightarrow> moves R (\<lambda>s. close_after K fd (f s))"
  by (simp add: moves_def close_after_def)

lemma moves_attempts [moves_intros]: "moves R (fiemap_attempts n K fd sync)"
proof (induction n arbitrary: sync)
  case (Suc n)
  show ?case unfolding fiemap_attempts.simps Let_def case_prod_unfold by (intro moves_intros Suc)
qed (simp add: moves_def refl)

lemma collect_fst: "fst (snd (collect_entries K rl path es entries cap s)) = fst s"
proof (induction es arbitrary: rl entries cap s)
  case (Cons e es)
  show ?case by (simp add: Let_def Cons snd_bind_st [of fst] split: prod.split bool.split)
qed simp

lemma moves_collect [moves_intros]: "moves R (\<lambda>s. collect_entries K (rl s) path es entries cap s)"
  by (simp add: moves_def collect_fst refl)

lemma moves_map_path [moves_intros]: "moves R (map_path K path inode)"
  unfolding map_path_def path_map_insert_def by (intro moves_intros set_map) simp

lemma moves_add_watch [moves_intros]: "moves R (add_watch K path inode)"
  unfolding add_watch_def xal_be_fiemap_inotify_add_watcher_def by (intro moves_intros set_watches)

lemma moves_clone [moves_intros]: "moves R (reflink_clone_file K rl fd)"
  unfolding reflink_clone_file_def by (intro moves_intros set_reflink)

lemma moves_put_fe [moves_intros]: "moves R (put_fe idx fes i)"
  unfolding put_fe_def by (intro moves_intros write_extent)

lemma moves_store [moves_intros]: "moves R (store_extents K inode fes)"
proof (rule movesI)
  fix s :: "xal \<times> 'a"
  obtain r p where c: "xal_pool_claim_extents (k_os K) (h_extents (fst s)) (of_nat (length fes)) = (r, p)"
    by (rule prod.exhaust)
  note R1 = claim_extents [OF c]
  show "R (fst s) (fst (snd (store_extents K inode fes s)))"
  proof (cases "fes = [] \<or> isl r")
    case True
    then show ?thesis using R1 refl by (auto simp: store_extents_def c split: sum.split)
  next
    case False
    then obtain idx where r: "r = Inr idx" by (cases r) auto
    let ?t = "on_xal (\<lambda>xal. put_inode (xal\<lparr>h_extents := p\<rparr>) inode
       ((inode_of xal inode)\<lparr>i_idx := idx, i_count := of_nat (length fes)\<rparr>)) s"
    have "R (fst s) (fst ?t)" using trans [OF R1 write_inode] by simp
    moreover have "R (fst ?t) (fst (snd (for_st [0..<length fes] (put_fe idx fes) ?t)))"
      by (rule movesD) (intro moves_intros)
    ultimately show ?thesis using False trans by (simp add: store_extents_def c r)
  qed
qed

lemma moves_file [moves_intros]: "moves R (xal_be_fiemap_process_inode_file K path inode)"
proof (rule movesI)
  fix s :: "xal \<times> 'a"
  obtain r t where c: "call (k_open K path O_rdonly_nofollow_nonblock) s = (r, t)" by (rule prod.exhaust)
  have "moves R (\<lambda>s. bind_st (close_after K fd (file_extents K fd inode s)) (\<lambda>_ s. map_path K path inode s))" for fd
    unfolding file_extents_def map_fd_extents_def read_fiemap_def by (intro moves_intros)
  from movesD [OF this, of t] show "R (fst s) (fst (snd (xal_be_fiemap_process_inode_file K path inode s)))"
    using c call_xal [OF c] refl by (cases r) (simp_all add: xal_be_fiemap_process_inode_file_def)
qed

lemma moves_claim_entries [moves_intros]: "moves R (claim_entries K inode n)"
proof (rule movesI)
  fix s :: "xal \<times> 'a"
  obtain r p where c: "xal_pool_claim_inodes (k_os K) (h_inodes (fst s)) (of_nat n) = (r, p)" by (rule prod.exhaust)
  show "R (fst s) (fst (snd (claim_entries K inode n s)))"
    using claim_inodes [OF c] trans [OF claim_inodes [OF c] write_inode]
    by (cases r) (simp_all add: claim_entries_def c)
qed

lemma moves_process_entry [moves_intros]:
  assumes "\<And>p i. moves R (pi p i)"
  shows "moves R (process_entry pi path inode nm)"
proof -
  have "moves R (\<lambda>s. bind_st (pi (path_join path nm) dentry (on_xal (\<lambda>xal. put_inode xal dentry (v xal)) s))
     (\<lambda>_ s. (Ok (), on_xal (\<lambda>xal. if i_ftype (inode_of xal dentry) = XAL_ODF_DIR3_FT_UNKNOWN then put_inode xal dentry zero_inode
        else put_inode xal inode (w xal)) s)))" for dentry v w
    by (intro moves_intros assms write_inode) (simp add: write_inode)
  from movesD [OF this] show ?thesis
    by (intro movesI) (simp add: process_entry_def Let_def refl split: option.split)
qed

lemma moves_dir [moves_intros]:
  assumes "\<And>p i. moves R (pi p i)"
  shows "moves R (xal_be_fiemap_process_inode_dir pi K path inode)"
  unfolding xal_be_fiemap_process_inode_dir_def Let_def by (intro moves_intros assms)

lemma moves_process_ino [moves_intros]: "moves R (process_ino_fiemap fuel K path self)"
proof (induction fuel arbitrary: path self)
  case (Suc fuel)
  have d: "moves R (\<lambda>s. xal_be_fiemap_process_inode_dir (process_ino_fiemap fuel K) K path self (on_xal (\<lambda>xal. put_inode xal self i) s))"
    and f: "moves R (\<lambda>s. xal_be_fiemap_process_inode_file K path self (on_xal (\<lambda>xal. put_inode xal self i) s))" for i
    by (intro moves_intros write_inode Suc)+
  show ?case
  proof (rule movesI)
    fix s :: "xal \<times> 'a"
    obtain r t where c: "call (k_statx K path) s = (r, t)" by (rule prod.exhaust)
    have "fst t = fst s" by (rule call_xal [OF c])
    then show "R (fst s) (fst (snd (process_ino_fiemap (Suc fuel) K path self s)))"
      using movesD [OF d, of t] movesD [OF f, of t] refl write_inode c
      by (cases r) (simp_all add: Let_def split: option.split)
  qed
qed (simp add: moves_def refl)

lemma moves_claim_root: "moves R (\<lambda>s. let r = claim_root os (fst s) in (fst r, snd r, snd s))"
proof (rule movesI)
  fix s :: "xal \<times> 'a"
  obtain r p where c: "xal_pool_claim_inodes os (h_inodes (fst s)) 1 = (r, p)" by (rule prod.exhaust)
  note R1 = claim_inodes [OF c]
  have "R (fst s) ((fst s)\<lparr>h_inodes := p, h_root_idx := idx\<rparr>)" for idx using trans [OF R1 set_root] by simp
  then show "R (fst s) (fst (snd (let r = claim_root os (fst s) in (fst r, snd r, snd s))))"
    using R1 trans [OF _ write_inode]
    by (cases r) (auto simp: claim_root_def c Let_def init_root_def split: option.split)
qed

lemma moves_clear_watches: "moves R (clear_watches dfuel K)"
proof -
  have "fst (snd (xal_be_fiemap_inotify_drain dfuel K ino s)) = fst s" for ino s
  proof (induction dfuel arbitrary: s)
    case (Suc dfuel)
    obtain r t where c: "call (k_read_events K (n_fd ino)) s = (r, t)" by (rule prod.exhaust)
    then show ?case using call_xal [OF c] Suc by (auto split: sum.split fault.split errno.split list.split)
  qed simp
  then have "moves R (xal_be_fiemap_inotify_drain dfuel K ino)" for ino by (intro movesI) (simp add: refl)
  moreover have "moves R (xal_be_fiemap_inotify_clear_inode_map K ino)" for ino
    by (rule movesI) (simp add: xal_be_fiemap_inotify_clear_inode_map_def set_watches)
  ultimately show ?thesis unfolding clear_watches_def by (intro moves_intros)
qed

lemma moves_rebuild: "moves R (fiemap_rebuild fuel dfuel K)"
proof -
  have sweep: "R (fst s) (fst (sweep_clones K s))" for s
    by (simp add: sweep_clones_def refl set_reflink split: option.split)
  have walk: "moves R (\<lambda>s. let s = sweep_clones K s
      in process_ino_fiemap fuel K (walk_root (fbe_of (fst s))) (unat (h_root_idx (fst s))) s)"
    by (rule movesI) (simp add: Let_def trans [OF sweep movesD [OF moves_process_ino]])
  have "R xal (clear_index xal)" for xal
    unfolding clear_index_def Let_def by (rule trans [OF clear set_map]) (simp add: path_map_clear_def)
  moreover have "moves R (check_roots K be)" for be unfolding check_roots_def by (intro moves_intros)
  then have "moves R (\<lambda>s. check_roots K (fbe_of (fst s)) s)" by (simp add: moves_def)
  ultimately show ?thesis unfolding fiemap_rebuild_def
    by (intro moves_intros moves_clear_watches moves_claim_root walk)
qed

end

section \<open>The identity of a handle\<close>

text \<open>A pool that is accessible as a whole stays so: claiming then never grows it.\<close>

definition pool_kept :: "'a xal_pool \<Rightarrow> 'a xal_pool \<Rightarrow> bool" where
  "pool_kept p q \<longleftrightarrow> reserved q = reserved p \<and> shm_name q = shm_name p \<and> element_size q = element_size p
     \<and> mapped q = mapped p \<and> (allocated p = reserved p \<longrightarrow> allocated q = reserved q)"

definition be_kept :: "xal_be \<Rightarrow> xal_be \<Rightarrow> bool" where
  "be_kept x y \<longleftrightarrow>
     (case x of
        Be_fiemap b \<Rightarrow>
          (case y of
             Be_fiemap c \<Rightarrow> f_mountpoint c = f_mountpoint b \<and> f_subtree c = f_subtree b
               \<and> (f_path_inode_map b = None \<longrightarrow> f_path_inode_map c = None)
           | _ \<Rightarrow> False)
      | _ \<Rightarrow> True)"

definition handle_kept :: "xal \<Rightarrow> xal \<Rightarrow> bool" where
  "handle_kept x y \<longleftrightarrow> pool_kept (h_inodes x) (h_inodes y) \<and> pool_kept (h_extents x) (h_extents y)
     \<and> h_sb y = h_sb x \<and> h_procrole y = h_procrole x \<and> h_state y = h_state x \<and> h_state_shm_name y = h_state_shm_name x
     \<and> be_kept (h_be x) (h_be y)"

lemma pool_kept_refl [simp]: "pool_kept p p"
  by (simp add: pool_kept_def)

lemma pool_kept_trans: "pool_kept p q \<Longrightarrow> pool_kept q r \<Longrightarrow> pool_kept p r"
  by (simp add: pool_kept_def)

lemma be_kept_refl [simp]: "be_kept x x"
  by (simp add: be_kept_def split: xal_be.split)

lemma be_kept_trans: "be_kept x y \<Longrightarrow> be_kept y z \<Longrightarrow> be_kept x z"
  by (auto simp: be_kept_def split: xal_be.splits)

lemma be_kept_set:
  assumes "f_mountpoint c = f_mountpoint (fbe_of x)" "f_subtree c = f_subtree (fbe_of x)"
    and "f_path_inode_map (fbe_of x) = None \<Longrightarrow> f_path_inode_map c = None"
  shows "be_kept (h_be x) (Be_fiemap c)"
  using assms by (auto simp: be_kept_def fbe_of_def split: xal_be.split)

lemma pool_kept_memory [simp]: "pool_kept p (p\<lparr>memory := m\<rparr>)" "pool_kept p (xal_pool_clear z p)"
  by (simp_all add: pool_kept_def xal_pool_clear_def)

lemma pool_kept_claim:
  assumes "xal_pool_claim_inodes os p n = (r, q)"
  shows "pool_kept p q"
proof -
  have "q = p\<lparr>free := free p + n\<rparr> \<or> q = p" if "allocated p = reserved p"
    using assms that unfolding xal_pool_claim_inodes_def by (simp split: if_splits)
  then show ?thesis using ino_pool.claim_frame [OF assms] by (auto simp: pool_kept_def)
qed

interpretation handle: walk_frame handle_kept
proof unfold_locales
  show "handle_kept x z" if "handle_kept x y" "handle_kept y z" for x y z
    using that unfolding handle_kept_def by (intro conjI) (auto intro: pool_kept_trans be_kept_trans)
qed (auto simp: handle_kept_def xal_pool_claim_extents_eq put_inode_def put_extent_def clear_pools_def set_inotify_def set_fbe_def
    intro: be_kept_set dest: pool_kept_claim)

lemma handle_kept_words [simp]:
  "handle_kept x (y\<lparr>h_indexing := b\<rparr>) = handle_kept x y" "handle_kept (x\<lparr>h_indexing := b\<rparr>) y = handle_kept x y"
  "handle_kept x (y\<lparr>h_last_err := e\<rparr>) = handle_kept x y" "handle_kept (index_enter x) y = handle_kept x y"
  "handle_kept x (index_exit y e) = handle_kept x y"
  by (auto simp: handle_kept_def index_enter_def index_exit_def xal_mark_index_done_def seq_advance_def)

lemma fiemap_index_kept: "handle_kept xal (snd (fiemap_be_index fuel dfuel K k xal))"
proof -
  obtain r mid k' where run: "fiemap_rebuild fuel dfuel K (index_enter xal, k) = (r, mid, k')" by (metis prod.exhaust)
  have "handle_kept xal mid" using moves_ret [OF handle.moves_rebuild run] by simp
  then show ?thesis using run handle.refl
    by (auto simp: fiemap_be_index_def xal_be_fiemap_index_def on_xal_def finish_index_def split: sum.split fault.split)
qed

text \<open>\<open>xal_index()\<close> on the FIEMAP backend, whatever it returns.\<close>

lemma xal_index_kept:
  assumes "xal_index (fiemap_be_index fuel dfuel K k) xal = (r, xal')"
  shows "handle_kept xal xal'"
proof -
  obtain q y where b: "fiemap_be_index fuel dfuel K k (xal\<lparr>h_indexing := True\<rparr>) = (q, y)" by (rule prod.exhaust)
  have "handle_kept xal y" using fiemap_index_kept [of "xal\<lparr>h_indexing := True\<rparr>" fuel dfuel K k] b by simp
  then show ?thesis using assms b handle.refl
    by (auto simp: xal_index_def split: if_splits sum.splits fault.splits)
qed

end
