(* ===== verification/Xal_Open_Correct.thy ===== *)
theory Xal_Open_Correct
  imports Xal_Shm Xal_Fiemap_Frame Xal_Fiemap_Correct
begin

text \<open>
  What opening and closing leave behind. Closing removes the shared memory names of a primary and no other; an
  opening that fails leaves no name, one that succeeds leaves the names it was asked for and pools a first indexing
  can start from. Together with the indexing and the attaching this gives the life of an index from end to end.
\<close>

section \<open>Closing\<close>

definition pool_names :: "xal \<Rightarrow> shm_names" where
  "pool_names xal = set_option (shm_name (h_inodes xal)) \<union> set_option (shm_name (h_extents xal))"

definition unlinks :: "pool_os \<Rightarrow> bool" where
  "unlinks os \<longleftrightarrow> (\<forall>nm. os_shm_unlink os nm = None)"

lemma shm_unlink_names: "unlinks os \<Longrightarrow> snd (shm_unlink os nm ns) = ns - {nm}"
  by (auto simp: unlinks_def shm_unlink_def)

lemma pool_unmap_names:
  assumes "unlinks os" "xal_pool_unmap os p b ns = (e, q, ns')"
  shows "ns' = (if b then ns - set_option (shm_name p) else ns)"
proof -
  let ?m = "if mapped p then (case os_munmap os (reserved p * element_size p) of
      Some e \<Rightarrow> (Some e, p) | None \<Rightarrow> (None, p\<lparr>mapped := False\<rparr>)) else (None, p)"
  have m: "shm_name (snd ?m) = shm_name p" by (simp split: option.split)
  obtain ret p' where r: "?m = (ret, p')" by (rule prod.exhaust)
  have run: "(e, q, ns') = (case shm_name p of None \<Rightarrow> (ret, p', ns)
      | Some nm \<Rightarrow> (let (err, ns') = (if b then shm_unlink os nm ns else (None, ns))
          in (if ret = None then err else ret, p'\<lparr>shm_name := None\<rparr>, ns')))"
    using assms(2) m unfolding xal_pool_unmap_def r by simp
  then show ?thesis using shm_unlink_names [OF assms(1), of _ ns]
    by (cases "shm_name p"; cases b) (auto simp: case_prod_unfold)
qed

lemma be_close_frame:
  "h_inodes (fst (be_close K self s)) = h_inodes (fst s)" "h_extents (fst (be_close K self s)) = h_extents (fst s)"
  "h_procrole (fst (be_close K self s)) = h_procrole (fst s)" "h_state (fst (be_close K self s)) = h_state (fst s)"
  "h_state_shm_name (fst (be_close K self s)) = h_state_shm_name (fst s)"
  by (simp_all add: be_close_def xal_be_fiemap_close_def xal_be_xfs_close_def path_map_destroy_def set_fbe_def set_be_def
      xal_mark_dirty_def Let_def split: xal_be.split option.split)

text \<open>The words of the region: a primary marks it, a secondary does not touch it.\<close>

lemma be_close_words:
  "h_index_state (fst (be_close K self s)) = h_index_state (fst s) \<or> h_state (fst s) \<and> h_procrole (fst s) \<noteq> XAL_PROCROLE_SECONDARY
    \<and> h_index_state (fst (be_close K self s)) = XAL_STATE_DIRTY"
  "h_seq_lock (fst (be_close K self s)) = h_seq_lock (fst s)"
  by (simp_all add: be_close_def xal_be_fiemap_close_def xal_be_xfs_close_def path_map_destroy_def set_fbe_def set_be_def
      xal_mark_dirty_def Let_def split: xal_be.split option.split)

lemma close_names:
  assumes "unlinks (k_os K)" "xal_close K self (xal, ns, k) = (xal', ns', k')"
  shows "ns' = ns - (if h_procrole xal = XAL_PROCROLE_SECONDARY then {} else pool_names xal)
    - (if h_state xal then set_option (h_state_shm_name xal) else {})"
proof -
  let ?x = "if h_procrole xal = XAL_PROCROLE_PRIMARY \<and> h_state xal then xal_mark_dirty xal else xal"
  obtain y k1 where b: "be_close K self (?x, k) = (y, k1)" by (rule prod.exhaust)
  have y: "h_inodes y = h_inodes xal" "h_extents y = h_extents xal" "h_procrole y = h_procrole xal" "h_state y = h_state xal"
    "h_state_shm_name y = h_state_shm_name xal"
    using be_close_frame [of K self "(?x, k)"] by (simp_all add: b xal_mark_dirty_def)
  obtain e1 p n1 where 1: "xal_pool_unmap (k_os K) (h_inodes xal) (h_procrole xal \<noteq> XAL_PROCROLE_SECONDARY) ns = (e1, p, n1)"
    by (metis prod.exhaust)
  obtain e2 q n2 where 2: "xal_pool_unmap (k_os K) (h_extents xal) (h_procrole xal \<noteq> XAL_PROCROLE_SECONDARY) n1 = (e2, q, n2)"
    by (metis prod.exhaust)
  have "ns' = (if h_state xal then (case h_state_shm_name xal of None \<Rightarrow> n2 | Some nm \<Rightarrow> snd (shm_unlink (k_os K) nm n2)) else n2)"
    using assms(2) by (auto simp: xal_close_def b y 1 2 Let_def)
  then show ?thesis using pool_unmap_names [OF assms(1) 1] pool_unmap_names [OF assms(1) 2] shm_unlink_names [OF assms(1)]
    by (auto simp: pool_names_def split: option.splits if_splits)
qed

lemma close_words:
  assumes "xal_close K self (xal, ns, k) = (xal', ns', k')"
  shows "h_seq_lock xal' = h_seq_lock xal"
    "h_procrole xal = XAL_PROCROLE_PRIMARY \<Longrightarrow> h_state xal \<Longrightarrow> h_index_state xal' = XAL_STATE_DIRTY"
    "h_procrole xal = XAL_PROCROLE_SECONDARY \<Longrightarrow> h_index_state xal' = h_index_state xal"
  using assms be_close_words [of K self "(xal, k)"] be_close_words [of K self "(xal_mark_dirty xal, k)"]
  by (auto simp: xal_close_def Let_def xal_mark_dirty_def split: prod.splits if_splits)


text \<open>
  C18: closing a handle that was attached to another process's pools removes none of the names and leaves both words
  of the shared region and the file system as they are, so the primary and other secondaries go on.
\<close>

theorem close_attached:
  assumes "unlinks (k_os K)" "xal_from_shm os objs nm = Ok s" "xal_close K self (s, ns, k) = (s', ns', k')"
  shows "ns' = ns \<and> h_index_state s' = h_index_state s \<and> h_seq_lock s' = h_seq_lock s \<and> k' = k"
proof -
  have s: "h_procrole s = XAL_PROCROLE_SECONDARY" "h_state_shm_name s = None"
    using assms(2) by (auto simp: xal_from_shm_def bind_res_Ok_iff new_cand_def split: if_splits)
  have "snd (be_close K self (s, k)) = k"
    using s(1) by (simp add: be_close_def xal_be_fiemap_close_def Let_def split: xal_be.split)
  then have "k' = k" using assms(3) s by (auto simp: xal_close_def Let_def case_prod_unfold)
  then show ?thesis using close_names [OF assms(1,3)] close_words [OF assms(3)] s by simp
qed

text \<open>
  C17: closing a primary removes the names of its three shared memory objects and no other, and marks the region
  before it goes, so that no secondary that still has it mapped reads an index nobody maintains: every lookup of
  such a secondary is refused.
\<close>

theorem close_primary:
  assumes "unlinks (k_os K)" "h_procrole p = XAL_PROCROLE_PRIMARY" "h_state p" "xal_close K self (p, ns, k) = (p', ns', k')"
  shows "ns' = ns - (pool_names p \<union> set_option (h_state_shm_name p))
    \<and> (\<forall>s path seq. h_index_state s = h_index_state p' \<longrightarrow> xal_get_inode (Some s) (Some path) seq = Fail ESTALE)"
proof -
  have "h_index_state p' = XAL_STATE_DIRTY" using close_words(2) [OF assms(4,2,3)] .
  then have "xal_get_inode (Some s) (Some path) seq = Fail ESTALE" if "h_index_state s = h_index_state p'" for s path seq
    using that by (simp add: xal_get_inode_def xal_is_dirty_def)
  moreover have "ns' = ns - (pool_names p \<union> set_option (h_state_shm_name p))"
    using close_names [OF assms(1,4)] assms(2,3) by auto
  ultimately show ?thesis by blast
qed

section \<open>Opening\<close>

text \<open>
  A candidate on its way: the names it has made are those its pools carry, and none of them was there before.
\<close>

definition tidy_cand :: "shm_names \<Rightarrow> xal \<times> shm_names \<times> 'k \<Rightarrow> bool" where
  "tidy_cand ns0 s \<longleftrightarrow>
     (case s of (xal, ns, k) \<Rightarrow> h_procrole xal \<noteq> XAL_PROCROLE_SECONDARY \<and> \<not> h_state xal \<and> h_state_shm_name xal = None
        \<and> ns = ns0 \<union> pool_names xal \<and> pool_names xal \<inter> ns0 = {})"

text \<open>Before its pools are mapped.\<close>

definition unmapped_cand :: "shm_names \<Rightarrow> xal \<times> shm_names \<times> 'k \<Rightarrow> bool" where
  "unmapped_cand ns0 s \<longleftrightarrow> tidy_cand ns0 s \<and> h_inodes (fst s) = empty_pool zero_inode \<and> h_extents (fst s) = empty_pool zero_extent
     \<and> h_procrole (fst s) = XAL_PROCROLE_SINGLE \<and> \<not> h_indexing (fst s) \<and> h_root_idx (fst s) = XAL_POOL_IDX_NONE"

lemma cand_close:
  assumes "unlinks (k_os K)" "tidy_cand ns0 s"
  shows "fst (snd (xal_close K self s)) = ns0"
proof -
  obtain xal ns k where s: "s = (xal, ns, k)" by (rule prod_cases3)
  obtain xal' ns' k' where c: "xal_close K self s = (xal', ns', k')" by (rule prod_cases3)
  have "ns = ns0 \<union> pool_names xal" "pool_names xal \<inter> ns0 = {}" "h_procrole xal \<noteq> XAL_PROCROLE_SECONDARY" "\<not> h_state xal"
    using assms(2) by (simp_all add: tidy_cand_def s)
  then have "ns' = ns0" using close_names [OF assms(1) c [unfolded s]] by auto
  then show ?thesis unfolding c by simp
qed

text \<open>What the steps before the pools leave alone.\<close>

definition held :: "xal \<Rightarrow> xal_inode xal_pool \<times> xal_extent xal_pool \<times> xal_procrole \<times> bool \<times> cstring option \<times> bool \<times> u32" where
  "held xal = (h_inodes xal, h_extents xal, h_procrole xal, h_state xal, h_state_shm_name xal, h_indexing xal, h_root_idx xal)"

lemma held_simps [simp]:
  "held (set_fbe xal be) = held xal" "held (set_inotify xal ino) = held xal" "held (xal\<lparr>h_sb := sb\<rparr>) = held xal"
  by (simp_all add: held_def set_fbe_def set_inotify_def)

lemma unmapped_held:
  "held (fst t) = held (fst s) \<Longrightarrow> fst (snd t) = fst (snd s) \<Longrightarrow> unmapped_cand ns0 s \<Longrightarrow> unmapped_cand ns0 t"
  by (cases s; cases t) (auto simp: unmapped_cand_def tidy_cand_def held_def pool_names_def empty_pool_def)

lemma with_names_held:
  assumes "keeps held f" "with_names f s = (r, t)"
  shows "held (fst t) = held (fst s)" "fst (snd t) = fst (snd s)"
  using assms(2) keepsD [OF assms(1), of "(fst s, snd (snd s))"]
  by (auto simp: with_names_def split: prod.splits)


lemma unmapped_step:
  assumes "keeps held f" "with_names f s = (r, t)" "unmapped_cand ns0 s"
  shows "unmapped_cand ns0 t"
  using unmapped_held [OF with_names_held [OF assms(1,2)] assms(3)] .

lemma keeps_open_steps:
  "keeps held (open_mountpoint K mountpoint)" "keeps held (open_subtree K opts sb)" "keeps held (open_reflink K opts)"
  "keeps held (open_watch K opts)" "keeps held (open_count fuel K)" "keeps held (open_statfs K sb)"
  "keeps held (open_hashmap K opts)"
proof -
  show "keeps held (open_count fuel K)"
    by (simp add: keeps_def open_count_def split: prod.split)
  show "keeps held (open_hashmap K opts)" "keeps held (open_watch K opts)"
    unfolding open_hashmap_def open_watch_def by (intro keeps_intros; simp)+
  show "keeps held (open_statfs K sb)" "keeps held (open_mountpoint K mountpoint)"
    "keeps held (open_subtree K opts sb)" "keeps held (open_reflink K opts)"
    unfolding keeps_def open_statfs_def open_mountpoint_def open_subtree_def open_reflink_def
    by (simp_all add: snd_bind_st [of "\<lambda>s. held (fst s)"] Let_def split: option.split prod.split sum.split)
qed

text \<open>The pools as a successful opening leaves them.\<close>

definition fresh_pool :: "'a \<Rightarrow> cstring option \<Rightarrow> 'a xal_pool \<Rightarrow> bool" where
  "fresh_pool zero nm p \<longleftrightarrow> pool_inv p \<and> pool_fresh zero p \<and> free p = 0 \<and> reserved p = 40000000 \<and> shm_name p = nm
     \<and> (nm \<noteq> None \<longrightarrow> allocated p = 40000000)"

definition pools_opened :: "xal_opts \<Rightarrow> xal \<Rightarrow> bool" where
  "pools_opened opts xal \<longleftrightarrow>
     fresh_pool zero_inode (map_option (\<lambda>nm. nm @ str ''_inodes'') (o_shm_name opts)) (h_inodes xal)
     \<and> fresh_pool zero_extent (map_option (\<lambda>nm. nm @ str ''_extents'') (o_shm_name opts)) (h_extents xal)
     \<and> h_procrole xal = (if o_shm_name opts = None then XAL_PROCROLE_SINGLE else XAL_PROCROLE_PRIMARY)
     \<and> \<not> h_indexing xal \<and> h_root_idx xal = XAL_POOL_IDX_NONE"

lemma empty_pool_simps [simp]: "reserved (empty_pool z) = 0" "shm_name (empty_pool z) = None"
  by (simp_all add: empty_pool_def)

lemma pool_map_fresh:
  assumes "unlinks os" "xal_pool_map os zero (empty_pool zero) 40000000 alloc esize nm ns = (e, q, ns')"
  shows "case e of None \<Rightarrow> fresh_pool zero nm q \<and> ns' = set_option nm \<union> ns \<and> set_option nm \<inter> ns = {}
    | Some _ \<Rightarrow> shm_name q = None \<and> ns' = ns"
proof (cases e)
  case None
  then show ?thesis using pool_map_ok [OF _ _ _ _ assms(2) [unfolded None]] by (simp add: fresh_pool_def)
next
  case (Some f)
  then show ?thesis using pool_map_failed [OF _ _ _ assms(2) [unfolded Some]] assms(1) by (simp add: unlinks_def)
qed

lemma pool_step_run:
  assumes "pool_step (m :: errno option \<times> 'p \<times> shm_names) put s = (r, t)"
  obtains e q ns where "m = (e, q, ns)" "r = (case e of None \<Rightarrow> Ok () | Some e \<Rightarrow> Fail e)" "t = (put q (fst s), ns, snd s)"
  using assms by (cases m) (auto simp: pool_step_def)

lemma open_two_pools:
  assumes os: "unlinks os" and s: "unmapped_cand ns0 (xal, ns, k)" and role: "role \<noteq> XAL_PROCROLE_SECONDARY"
    and run: "bind_st (pool_step (xal_pool_map os zero_inode (h_inodes xal) 40000000 alloc esize nm1 ns)
        (\<lambda>p xal. xal\<lparr>h_inodes := p\<rparr>) (xal\<lparr>h_procrole := role\<rparr>, k))
      (\<lambda>_ s. case s of (xal, ns, k) \<Rightarrow>
         pool_step (xal_pool_map os zero_extent (h_extents xal) 40000000 alloc esize' nm2 ns)
           (\<lambda>p xal. xal\<lparr>h_extents := p\<rparr>) (xal, k)) = (r, t)"
  shows "tidy_cand ns0 t \<and> (r = Ok () \<longrightarrow> fresh_pool zero_inode nm1 (h_inodes (fst t))
    \<and> fresh_pool zero_extent nm2 (h_extents (fst t)) \<and> h_procrole (fst t) = role \<and> \<not> h_indexing (fst t)
    \<and> h_root_idx (fst t) = XAL_POOL_IDX_NONE)"
proof -
  have x: "h_inodes xal = empty_pool zero_inode" "h_extents xal = empty_pool zero_extent" "ns = ns0" "\<not> h_state xal"
    "h_state_shm_name xal = None" "\<not> h_indexing xal" "h_root_idx xal = XAL_POOL_IDX_NONE"
    using s by (auto simp: unmapped_cand_def tidy_cand_def pool_names_def)
  obtain r1 t1 where 1: "pool_step (xal_pool_map os zero_inode (h_inodes xal) 40000000 alloc esize nm1 ns)
        (\<lambda>p xal. xal\<lparr>h_inodes := p\<rparr>) (xal\<lparr>h_procrole := role\<rparr>, k) = (r1, t1)" by (rule prod.exhaust)
  obtain e q ns1 where m: "xal_pool_map os zero_inode (h_inodes xal) 40000000 alloc esize nm1 ns = (e, q, ns1)"
    "r1 = (case e of None \<Rightarrow> Ok () | Some e \<Rightarrow> Fail e)"
    and t1: "t1 = ((fst (xal\<lparr>h_procrole := role\<rparr>, k))\<lparr>h_inodes := q\<rparr>, ns1, snd (xal\<lparr>h_procrole := role\<rparr>, k))"
    by (rule pool_step_run [OF 1])
  note M = pool_map_fresh [OF os m(1) [unfolded x(1)]]
  show ?thesis
  proof (cases e)
    case (Some f)
    then show ?thesis using run M role x unfolding 1 m(2) t1
      by (auto simp: tidy_cand_def pool_names_def)
  next
    case None
    have 2: "pool_step (xal_pool_map os zero_extent (empty_pool zero_extent) 40000000 alloc esize' nm2 ns1)
        (\<lambda>p xal. xal\<lparr>h_extents := p\<rparr>) (xal\<lparr>h_procrole := role, h_inodes := q\<rparr>, k) = (r, t)"
      using run x(2) unfolding 1 m(2) t1 None by simp
    obtain e' q' ns' where m': "xal_pool_map os zero_extent (empty_pool zero_extent) 40000000 alloc esize' nm2 ns1 = (e', q', ns')"
      "r = (case e' of None \<Rightarrow> Ok () | Some e \<Rightarrow> Fail e)"
      and t: "t = ((fst (xal\<lparr>h_procrole := role, h_inodes := q\<rparr>, k))\<lparr>h_extents := q'\<rparr>, ns', snd (xal\<lparr>h_procrole := role, h_inodes := q\<rparr>, k))"
      by (rule pool_step_run [OF 2])
    show ?thesis using M pool_map_fresh [OF os m'(1)] role x unfolding m'(2) t None
      by (cases e') (auto simp: tidy_cand_def pool_names_def fresh_pool_def)
  qed
qed

lemma open_pools_result:
  assumes "unlinks os" "unmapped_cand ns0 s" "open_pools os opts alloc s = (r, t)"
  shows "tidy_cand ns0 t \<and> (r = Ok () \<longrightarrow> pools_opened opts (fst t))"
proof -
  obtain xal ns k where s: "s = (xal, ns, k)" by (rule prod_cases3)
  have single: "xal\<lparr>h_procrole := XAL_PROCROLE_SINGLE\<rparr> = xal" using assms(2) by (simp add: s unmapped_cand_def)
  show ?thesis
  proof (cases "o_shm_name opts")
    case None
    then show ?thesis
      using assms(3) open_two_pools [OF assms(1), of ns0 xal ns k XAL_PROCROLE_SINGLE alloc XAL_INODE_NBYTES None XAL_EXTENT_NBYTES None r t]
        assms(2) by (simp add: s open_pools_def pools_opened_def single)
  next
    case (Some nm)
    then show ?thesis
      using assms(3) open_two_pools [OF assms(1), of ns0 xal ns k XAL_PROCROLE_PRIMARY alloc XAL_INODE_NBYTES
          "Some (nm @ str ''_inodes'')" XAL_EXTENT_NBYTES "Some (nm @ str ''_extents'')" r t] assms(2)
      by (auto simp: s open_pools_def pools_opened_def unmapped_cand_def split: if_splits)
  qed
qed

text \<open>What holds of a run of the steps of an opening, however it ends.\<close>

definition opened_well :: "shm_names \<Rightarrow> xal_opts \<Rightarrow> unit res \<times> xal \<times> shm_names \<times> 'k \<Rightarrow> bool" where
  "opened_well ns0 opts r \<longleftrightarrow> tidy_cand ns0 (snd r) \<and> (fst r = Ok () \<longrightarrow> pools_opened opts (fst (snd r)))"

lemma open_chain:
  assumes "keeps held f" "unmapped_cand ns0 s" "\<And>v t. unmapped_cand ns0 t \<Longrightarrow> opened_well ns0 opts (h v t)"
  shows "opened_well ns0 opts (bind_st (with_names f s) h)"
proof -
  obtain r t where f: "with_names f s = (r, t)" by (rule prod.exhaust)
  have "unmapped_cand ns0 t" by (rule unmapped_step [OF assms(1) f assms(2)])
  then show ?thesis using assms(3) unfolding f by (cases r) (simp_all add: opened_well_def unmapped_cand_def)
qed

lemma opened_held:
  assumes "keeps held f" "opened_well ns0 opts (Ok (), s)"
  shows "opened_well ns0 opts (with_names f s)"
proof -
  obtain r t where f: "with_names f s = (r, t)" by (rule prod.exhaust)
  have "held (fst t) = held (fst s)" "fst (snd t) = fst (snd s)" by (rule with_names_held [OF assms(1) f])+
  then show ?thesis using assms(2) unfolding f
    by (cases s; cases t) (simp add: opened_well_def tidy_cand_def pools_opened_def held_def pool_names_def)
qed

lemma open_pools_then:
  assumes "unlinks os" "unmapped_cand ns0 s" "\<And>t. opened_well ns0 opts (Ok (), t) \<Longrightarrow> opened_well ns0 opts (h () t)"
  shows "opened_well ns0 opts (bind_st (open_pools os opts alloc s) h)"
proof -
  obtain r t where p: "open_pools os opts alloc s = (r, t)" by (rule prod.exhaust)
  show ?thesis using open_pools_result [OF assms(1,2) p] assms(3) [of t] unfolding p
    by (cases r) (simp_all add: opened_well_def)
qed

lemma fiemap_steps_well:
  assumes "unlinks (k_os K)" "unmapped_cand ns0 s"
  shows "opened_well ns0 opts (fiemap_open_steps fuel K mountpoint opts s)"
  unfolding fiemap_open_steps_def
  by (intro open_chain keeps_open_steps open_pools_then opened_held assms)

lemma new_cand_unmapped: "unmapped_cand ns0 (new_cand be, ns0, k)"
  by (simp add: unmapped_cand_def tidy_cand_def new_cand_def pool_names_def)

text \<open>The end of both: a failure leaves nothing, a success the names of the pools.\<close>

lemma close_on_failure_well:
  assumes "unlinks (k_os K)" "opened_well ns0 opts r" "close_on_failure K self r = (q, ns, k)"
  shows "case q of Inl (Errno e) \<Rightarrow> ns = ns0 | Inl _ \<Rightarrow> True
    | Inr xal \<Rightarrow> tidy_cand ns0 (xal, ns, k) \<and> pools_opened opts xal"
proof -
  obtain v s where r: "r = (v, s)" by (rule prod.exhaust)
  show ?thesis
  proof (cases v)
    case (Inl f)
    then show ?thesis using assms cand_close [OF assms(1), of ns0 s self] unfolding r
      by (cases f) (auto simp: close_on_failure_def opened_well_def)
  next
    case (Inr u)
    then show ?thesis using assms unfolding r by (cases s) (auto simp: close_on_failure_def opened_well_def)
  qed
qed

lemma fiemap_open_well:
  assumes "unlinks (k_os K)" "xal_be_fiemap_open fuel K self mountpoint opts (ns0, k) = (q, ns, k')"
  shows "case q of Inl (Errno e) \<Rightarrow> ns = ns0 | Inl _ \<Rightarrow> True
    | Inr xal \<Rightarrow> tidy_cand ns0 (xal, ns, k') \<and> pools_opened opts xal"
proof -
  obtain r c k1 where m: "need_mem K 376 ENOMEM (new_cand (Be_fiemap no_be_fiemap), k) = (r, c, k1)" by (rule prod_cases3)
  have c: "c = new_cand (Be_fiemap no_be_fiemap)" using need_mem_xal [OF m] by simp
  show ?thesis
  proof (cases "(o_watch_mode opts \<noteq> XAL_WATCHMODE_NONE \<and> o_watch_mode opts \<noteq> XAL_WATCHMODE_REFLINK_SNAPSHOT) \<or> isl r")
    case True
    then have "\<exists>f. q = Inl f \<and> ns = ns0" using assms(2) unfolding xal_be_fiemap_open_def snd_conv m
      by (cases r) (auto split: if_splits)
    then show ?thesis by (auto split: fault.split)
  next
    case False
    then obtain u where "r = Inr u" by (cases r) auto
    then have "close_on_failure K self (fiemap_open_steps fuel K mountpoint opts (c, ns0, k1)) = (q, ns, k')"
      using assms(2) m False by (auto simp: xal_be_fiemap_open_def)
    from close_on_failure_well [OF assms(1) fiemap_steps_well [OF assms(1) new_cand_unmapped] this [unfolded c]] show ?thesis .
  qed
qed

lemma held_set_be [simp]: "held (set_be xal be) = held xal"
  by (simp add: held_def set_be_def)

lemma held_add_group: "held (snd (add_group env i xal)) = held xal"
proof -
  have "held (snd (dev_read_buf env xal n off)) = held xal" for xal n off
    by (simp add: dev_read_buf_def case_prod_unfold Let_def)
  then have "held (snd (retrieve_and_decode_allocation_group env j xal)) = held xal" for j xal
    by (simp add: retrieve_and_decode_allocation_group_def Let_def snd_bind_st [of held])
  then show ?thesis by (simp add: add_group_def snd_bind_st [of held])
qed

lemma xfs_steps_well:
  assumes "unlinks (env_os env)" "unmapped_cand ns0 s"
  shows "opened_well ns0 opts (xfs_open_steps env opts s)"
proof -
  obtain xal ns k where s: "s = (xal, ns, k)" by (rule prod_cases3)
  obtain r y where f: "for_st [0..<unat (sb_agcount (h_sb xal))] (add_group env) xal = (r, y)" by (rule prod.exhaust)
  have "held y = held xal" using snd_for_st [of held "add_group env", OF held_add_group, of "[0..<unat (sb_agcount (h_sb xal))]" xal] f by simp
  then have y: "unmapped_cand ns0 (y, ns, k)" using unmapped_held [of "(y, ns, k)" "(xal, ns, k)"] assms(2) by (simp add: s)
  show ?thesis
  proof (cases r)
    case (Inl e)
    then show ?thesis using y by (simp add: xfs_open_steps_def s f opened_well_def unmapped_cand_def)
  next
    case (Inr u)
    obtain q t where p: "open_pools (env_os env) opts (sb_nallocated (h_sb y)) (y, ns, k) = (q, t)" by (rule prod.exhaust)
    show ?thesis using open_pools_result [OF assms(1) y p] by (simp add: xfs_open_steps_def s f Inr p opened_well_def)
  qed
qed

lemma xfs_open_well:
  assumes "unlinks (k_os K)" "env_os env = k_os K" "xal_be_xfs_open env K self opts (ns0, k) = (q, ns, k')"
  shows "case q of Inl (Errno e) \<Rightarrow> ns = ns0 | Inl _ \<Rightarrow> True
    | Inr None \<Rightarrow> ns = ns0 | Inr (Some xal) \<Rightarrow> tidy_cand ns0 (xal, ns, k') \<and> pools_opened opts xal"
proof -
  obtain granted k1 where a: "k_alloc K (unat BUF_NBYTES) k = (granted, k1)" by (rule prod.exhaust)
  obtain r k2 where p: "retrieve_and_decode_primary_superblock env K (\<lambda>_. 0) k1 = (r, k2)" by (rule prod.exhaust)
  show ?thesis
  proof (cases "granted \<and> (\<exists>cand. r = Inr (Some cand))")
    case False
    then have "(\<exists>f. q = Inl f \<and> ns = ns0) \<or> q = Inr None \<and> ns = ns0"
      using assms(3) unfolding xal_be_xfs_open_def fst_conv snd_conv a
      by (cases r; cases granted) (auto simp: p errno_res_def split: option.splits)
    then show ?thesis by (auto split: fault.split)
  next
    case True
    then obtain cand where cand: "r = Inr (Some cand)" by blast
    have "unmapped_cand ns0 (cand, ns0, k2)"
    proof -
      obtain be sb where "cand = (new_cand be)\<lparr>h_sb := sb\<rparr>"
        using p unfolding cand retrieve_and_decode_primary_superblock_def
        by (auto simp: Let_def errno_res_def split: prod.splits sum.splits fault.splits bool.splits option.splits)
      then show ?thesis using unmapped_held [OF _ _ new_cand_unmapped, of "(cand, ns0, k2)"] by simp
    qed
    obtain q' ns' k3 where c: "close_on_failure K self (xfs_open_steps env opts (cand, ns0, k2)) = (q', ns', k3)"
      by (rule prod_cases3)
    note W = close_on_failure_well [OF assms(1) xfs_steps_well [OF assms(1) [folded assms(2)] \<open>unmapped_cand ns0 (cand, ns0, k2)\<close>] c]
    have "(q, ns, k') = (case q' of Inl f \<Rightarrow> (Inl f, ns', k3) | Inr xal \<Rightarrow> (Ok (Some xal), ns', k3))"
      using assms(3) True unfolding xal_be_xfs_open_def fst_conv snd_conv a by (simp add: p cand c split: sum.split)
    then show ?thesis using W by (cases q') (auto split: fault.splits)
  qed
qed

subsection \<open>Publishing\<close>

definition names_for :: "xal_opts \<Rightarrow> shm_names" where
  "names_for opts =
     (case o_shm_name opts of None \<Rightarrow> {} | Some nm \<Rightarrow> {nm @ str ''_inodes'', nm @ str ''_extents'', nm @ str ''_state''})"

text \<open>A handle as the caller gets it.\<close>

definition opened_handle :: "xal_opts \<Rightarrow> xal \<Rightarrow> bool" where
  "opened_handle opts xal \<longleftrightarrow> pools_opened opts xal \<and> h_state xal = (o_shm_name opts \<noteq> None)
     \<and> h_state_shm_name xal = map_option (\<lambda>nm. nm @ str ''_state'') (o_shm_name opts)
     \<and> (o_shm_name opts \<noteq> None \<longrightarrow> h_index_state xal = XAL_STATE_DIRTY)"

definition all_or_nothing :: "shm_names \<Rightarrow> xal_opts \<Rightarrow> xal res \<Rightarrow> shm_names \<Rightarrow> bool" where
  "all_or_nothing ns0 opts q ns \<longleftrightarrow>
     (case q of
        Inl (Errno e) \<Rightarrow> ns = ns0
      | Inl _ \<Rightarrow> True
      | Inr xal \<Rightarrow> opened_handle opts xal \<and> ns = ns0 \<union> names_for opts \<and> names_for opts \<inter> ns0 = {})"

lemma pools_opened_names:
  "pools_opened opts xal \<Longrightarrow>
     pool_names xal = (case o_shm_name opts of None \<Rightarrow> {} | Some nm \<Rightarrow> {nm @ str ''_inodes'', nm @ str ''_extents''})"
  by (auto simp: pools_opened_def fresh_pool_def pool_names_def split: option.split)

lemma publish_result:
  assumes "unlinks os" "publish_shared_state os nm mountpoint be (xal, ns) = (r, xal', ns')"
  shows "case r of
      Inl f \<Rightarrow> (\<exists>e. f = Errno e) \<and> xal' = xal \<and> ns' = ns
    | Inr _ \<Rightarrow> xal' = xal\<lparr>h_state_shm_name := Some (nm @ str ''_state''), h_state := True,
        h_index_state := XAL_STATE_DIRTY, h_seq_lock := 0\<rparr> \<and> nm @ str ''_state'' \<notin> ns \<and> ns' = insert (nm @ str ''_state'') ns"
proof (cases "os_shm_open os (nm @ str ''_state'') = None \<and> nm @ str ''_state'' \<notin> ns")
  case True
  then have "shm_open_excl os (nm @ str ''_state'') ns = (None, insert (nm @ str ''_state'') ns)" by (simp add: shm_open_excl_def)
  then show ?thesis using assms(2) True
    by (auto simp: publish_shared_state_def shm_unlink_names [OF assms(1)] published_state_def Let_def
        split: option.splits)
next
  case False
  then show ?thesis using assms(2)
    by (auto simp: publish_shared_state_def shm_open_excl_def Let_def split: option.splits)
qed

lemma publish_or_close_well:
  assumes "unlinks (k_os K)" "tidy_cand ns0 (xal, ns, k)" "pools_opened opts xal"
    and "publish_or_close K self opts mountpoint (xal, ns, k) = (q, ns', k')"
  shows "all_or_nothing ns0 opts q ns'"
proof (cases "o_shm_name opts")
  case None
  then show ?thesis using assms(2-4) pools_opened_names [OF assms(3)]
    by (auto simp: publish_or_close_def all_or_nothing_def opened_handle_def names_for_def tidy_cand_def)
next
  case (Some nm)
  obtain r y ns1 where p: "publish_shared_state (k_os K) nm mountpoint (o_be opts) (xal, ns) = (r, y, ns1)" by (rule prod_cases3)
  note R = publish_result [OF assms(1) p]
  have ns: "ns = ns0 \<union> {nm @ str ''_inodes'', nm @ str ''_extents''}" "{nm @ str ''_inodes'', nm @ str ''_extents''} \<inter> ns0 = {}"
    using assms(2) pools_opened_names [OF assms(3)] by (simp_all add: tidy_cand_def Some)
  show ?thesis
  proof (cases r)
    case (Inl f)
    then have "(q, ns', k') = (Inl f, snd (xal_close K self (xal, ns, k)))" "\<exists>e. f = Errno e"
      using assms(4) R unfolding publish_or_close_def Some by (auto simp: p)
    then show ?thesis using cand_close [OF assms(1,2), of self]
      by (cases "xal_close K self (xal, ns, k)") (auto simp: all_or_nothing_def)
  next
    case (Inr st)
    then have q: "q = Ok y" "ns' = ns1" using assms(4) unfolding publish_or_close_def Some by (simp_all add: p)
    show ?thesis using R ns assms(3) unfolding q Inr
      by (auto simp: all_or_nothing_def opened_handle_def pools_opened_def names_for_def Some)
  qed
qed

lemma open_from_uri_tidy:
  assumes "unlinks (k_os K)" "xal_open_from_uri fuel K self mounts uri opts (ns0, k) = (q, opts', ns, k')"
  shows "all_or_nothing ns0 opts q ns"
proof -
  let ?o = "opts\<lparr>o_be := XAL_BACKEND_FIEMAP\<rparr>"
  have same: "all_or_nothing ns0 opts q ns = all_or_nothing ns0 ?o q ns"
    by (simp add: all_or_nothing_def opened_handle_def names_for_def pools_opened_def split: sum.split fault.split)
  let ?m = "if given_mountpoint opts \<noteq> [] then Ok (given_mountpoint opts) else retrieve_mountpoint mounts uri"
  have gm: "given_mountpoint ?o = given_mountpoint opts" by (simp add: given_mountpoint_def)
  show ?thesis
  proof (cases "(o_be opts \<noteq> 0 \<and> o_be opts \<noteq> XAL_BACKEND_FIEMAP) \<or> isl ?m")
    case True
    then have "\<exists>f. q = Inl f \<and> ns = ns0" using assms(2)
      by (cases ?m) (auto simp: xal_open_from_uri_def gm Let_def split: if_splits)
    then show ?thesis by (auto simp: all_or_nothing_def split: fault.split)
  next
    case False
    then obtain mp where m: "?m = Ok mp" by (cases ?m) auto
    obtain r n1 k1 where o: "xal_be_fiemap_open fuel K self mp ?o (ns0, k) = (r, n1, k1)" by (rule prod_cases3)
    note W = fiemap_open_well [OF assms(1) o]
    have run: "(case xal_be_fiemap_open fuel K self mp ?o (ns0, k) of (Inl f, s) \<Rightarrow> (Inl f, ?o, s)
        | (Inr xal, s) \<Rightarrow> (case publish_or_close K self ?o mp (xal, s) of (r, s) \<Rightarrow> (r, ?o, s))) = (q, opts', ns, k')"
      using assms(2) False unfolding xal_open_from_uri_def Let_def gm m by (auto split: if_splits)
    show ?thesis
    proof (cases r)
      case (Inl f)
      then have "q = Inl f" "ns = n1" using run by (simp_all add: o)
      then show ?thesis using W Inl by (auto simp: all_or_nothing_def split: fault.splits)
    next
      case (Inr xal)
      obtain q' n2 k2 where p: "publish_or_close K self ?o mp (xal, n1, k1) = (q', n2, k2)" by (rule prod_cases3)
      have "q = q'" "ns = n2" using run by (simp_all add: o Inr p)
      then show ?thesis using publish_or_close_well [OF assms(1) _ _ p] W Inr same by simp
    qed
  qed
qed

text \<open>
  C16: \<open>xal_open_from_uri()\<close> makes all three shared memory objects or none: when it fails, on whatever step, no name
  is left behind; when it succeeds, the names made are new, the pools are empty and in order, and an index that is
  shared is marked as not built yet.
\<close>

theorem open_from_uri_all_or_nothing:
  assumes "unlinks (k_os K)" "xal_open_from_uri fuel K self mounts uri opts (ns0, k) = (q, opts', ns, k')"
  shows "all_or_nothing ns0 opts q ns"
  by (rule open_from_uri_tidy [OF assms])

lemma all_or_nothing_cong: "o_shm_name opts' = o_shm_name opts \<Longrightarrow> all_or_nothing ns0 opts' q ns = all_or_nothing ns0 opts q ns"
  by (simp add: all_or_nothing_def opened_handle_def names_for_def pools_opened_def split: sum.split fault.split)

lemma open_backend_well:
  assumes "unlinks (k_os K)" "env_os env = k_os K"
    and "open_backend fuel K self mounts env uri opts mountpoint (ns0, k) = (q, ns, k')"
  shows "case q of Inl (Errno e) \<Rightarrow> ns = ns0 | Inl _ \<Rightarrow> True
    | Inr (None, _) \<Rightarrow> ns = ns0 | Inr (Some xal, _) \<Rightarrow> tidy_cand ns0 (xal, ns, k') \<and> pools_opened opts xal"
proof -
  obtain r1 n1 k1 where x: "xal_be_xfs_open env K self opts (ns0, k) = (r1, n1, k1)" by (rule prod_cases3)
  note X = xfs_open_well [OF assms(1,2) x]
  let ?m = "if mountpoint = [] then retrieve_mountpoint mounts uri else Ok mountpoint"
  consider (xfs) "o_be opts = XAL_BACKEND_XFS" | (fiemap) "o_be opts = XAL_BACKEND_FIEMAP"
    | (other) "o_be opts \<noteq> XAL_BACKEND_XFS" "o_be opts \<noteq> XAL_BACKEND_FIEMAP" by blast
  then show ?thesis
  proof cases
    case xfs
    then have "(q, ns, k') = (case r1 of Inl f \<Rightarrow> (Inl f, n1, k1) | Inr xal \<Rightarrow> (Ok (xal, mountpoint), n1, k1))"
      using assms(3) by (simp add: open_backend_def x split: sum.split)
    then show ?thesis using X by (cases r1) (auto split: fault.splits option.splits)
  next
    case fiemap
    show ?thesis
    proof (cases ?m)
      case (Inl f)
      then have "q = Inl f" "ns = ns0" using assms(3) fiemap unfolding open_backend_def Inl by simp_all
      then show ?thesis by (simp split: fault.split)
    next
      case (Inr mp)
      obtain r2 n2 k2 where o: "xal_be_fiemap_open fuel K self mp opts (ns0, k) = (r2, n2, k2)" by (rule prod_cases3)
      have "(q, ns, k') = (case r2 of Inl f \<Rightarrow> (Inl f, n2, k2) | Inr xal \<Rightarrow> (Ok (Some xal, mp), n2, k2))"
        using assms(3) fiemap unfolding open_backend_def Inr by (simp add: o split: sum.splits)
      then show ?thesis using fiemap_open_well [OF assms(1) o] by (cases r2) (auto split: fault.splits)
    qed
  next
    case other
    then show ?thesis using assms(3) by (auto simp: open_backend_def)
  qed
qed

lemma open_finish_well:
  assumes "unlinks (k_os K)" "tidy_cand ns0 (xal, n1, k1)" "pools_opened opts xal"
    and "open_finish K self dev opts mountpoint (xal, n1, k1) = (q, ns, k')"
  shows "case q of Inl f \<Rightarrow> all_or_nothing ns0 opts (Inl f) ns | Inr None \<Rightarrow> ns = ns0
    | Inr (Some xal) \<Rightarrow> all_or_nothing ns0 opts (Inr xal) ns"
proof (cases "dev_ns dev")
  case (Inl e)
  obtain y n2 k2 where c: "xal_close K self (xal, n1, k1) = (y, n2, k2)" by (rule prod_cases3)
  have "n2 = ns0" using cand_close [OF assms(1,2), of self] by (simp add: c)
  then show ?thesis using assms(4) Inl by (cases e) (auto simp: open_finish_def c all_or_nothing_def)
next
  case (Inr fmt)
  show ?thesis
  proof (cases "lba_size fmt")
    case None
    then show ?thesis using assms(4) Inr by (auto simp: open_finish_def all_or_nothing_def)
  next
    case (Some blksze)
    let ?x = "xal\<lparr>h_sb := (h_sb xal)\<lparr>sb_lba_blksze := blksze\<rparr>\<rparr>"
    obtain p n3 k3 where p: "publish_or_close K self opts mountpoint (?x, n1, k1) = (p, n3, k3)" by (rule prod_cases3)
    have "tidy_cand ns0 (?x, n1, k1)" "pools_opened opts ?x"
      using assms(2,3) by (simp_all add: tidy_cand_def pools_opened_def pool_names_def)
    from publish_or_close_well [OF assms(1) this p] show ?thesis
      using assms(4) Inr Some p by (cases p) (auto simp: open_finish_def)
  qed
qed


section \<open>The backend of an opened handle\<close>

definition is_fiemap :: "xal \<Rightarrow> bool" where
  "is_fiemap xal \<longleftrightarrow> (case h_be xal of Be_fiemap _ \<Rightarrow> True | _ \<Rightarrow> False)"

abbreviation fiemap_stays :: "xal \<Rightarrow> xal \<Rightarrow> bool" where
  "fiemap_stays x y \<equiv> is_fiemap x \<longrightarrow> is_fiemap y"

lemma is_fiemap_simps [simp]:
  "is_fiemap (set_fbe x b)" "is_fiemap (set_inotify x ino)" "is_fiemap (x\<lparr>h_sb := sb\<rparr>) = is_fiemap x"
  "is_fiemap (x\<lparr>h_inodes := p\<rparr>) = is_fiemap x" "is_fiemap (x\<lparr>h_extents := q\<rparr>) = is_fiemap x"
  "is_fiemap (x\<lparr>h_root_idx := i\<rparr>) = is_fiemap x" "is_fiemap (x\<lparr>h_procrole := role\<rparr>) = is_fiemap x"
  "is_fiemap (put_inode x j v) = is_fiemap x" "is_fiemap (put_extent x j w) = is_fiemap x"
  by (simp_all add: is_fiemap_def set_inotify_def set_fbe_def put_inode_def put_extent_def)

interpretation fiemap: walk_frame fiemap_stays
  by unfold_locales (auto simp: clear_pools_def)

lemma fiemap_stays_steps:
  "moves fiemap_stays (open_mountpoint K mountpoint)" "moves fiemap_stays (open_subtree K opts sb)"
  "moves fiemap_stays (open_reflink K opts)" "moves fiemap_stays (open_watch K opts)"
  "moves fiemap_stays (open_count fuel K)" "moves fiemap_stays (open_statfs K sb)" "moves fiemap_stays (open_hashmap K opts)"
proof -
  show "moves fiemap_stays (open_count fuel K)" by (simp add: moves_def open_count_def split: prod.split)
  show "moves fiemap_stays (open_watch K opts)" "moves fiemap_stays (open_hashmap K opts)"
    unfolding open_watch_def open_hashmap_def by (intro moves_intros; simp)+
  show "moves fiemap_stays (open_mountpoint K mountpoint)" "moves fiemap_stays (open_subtree K opts sb)"
    "moves fiemap_stays (open_reflink K opts)" "moves fiemap_stays (open_statfs K sb)"
    unfolding open_mountpoint_def open_subtree_def open_reflink_def open_statfs_def
    by (auto simp: moves_def bind_st_def Let_def call_def need_mem_def split: option.split prod.split sum.split)
qed

lemma fiemap_bind:
  assumes "is_fiemap (fst (snd r))" "\<And>v s. is_fiemap (fst s) \<Longrightarrow> is_fiemap (fst (snd (h v s)))"
  shows "is_fiemap (fst (snd (bind_st r h)))"
  using assms by (cases r; cases "fst r") auto

lemma fiemap_with_names:
  assumes "moves fiemap_stays f" "is_fiemap (fst s)"
  shows "is_fiemap (fst (snd (with_names f s)))"
  using movesD [OF assms(1), of "(fst s, snd (snd s))"] assms(2) by (cases s) (auto simp: with_names_def split: prod.splits)

lemma fiemap_open_pools: "is_fiemap (fst s) \<Longrightarrow> is_fiemap (fst (snd (open_pools os opts alloc s)))"
  by (auto simp: open_pools_def Let_def pool_step_def split: option.split prod.split intro!: fiemap_bind)

lemma fiemap_open_backend:
  assumes "xal_be_fiemap_open fuel K self mountpoint opts s = (Ok xal, s')"
  shows "is_fiemap xal"
proof -
  let ?c = "new_cand (Be_fiemap no_be_fiemap)"
  obtain r c k1 where m: "need_mem K 376 ENOMEM (?c, snd s) = (r, c, k1)" by (rule prod_cases3)
  have c: "c = ?c" using need_mem_xal [OF m] by simp
  obtain t where t: "fiemap_open_steps fuel K mountpoint opts (?c, fst s, k1) = (Ok (), t)" "xal = fst t"
    using assms unfolding xal_be_fiemap_open_def m c
    by (auto simp: close_on_failure_def split: if_splits sum.splits prod.splits fault.splits)
  have "is_fiemap (fst (snd (fiemap_open_steps fuel K mountpoint opts (?c, fst s, k1))))"
    unfolding fiemap_open_steps_def
    by (intro fiemap_bind fiemap_with_names fiemap_stays_steps fiemap_open_pools) (simp add: is_fiemap_def new_cand_def)
  then show ?thesis using t by simp
qed

text \<open>What a successful \<open>xal_open_from_uri()\<close> has published is what its handle says.\<close>

lemma open_from_uri_published:
  assumes "unlinks (k_os K)" "xal_open_from_uri fuel K self mounts uri opts s = (Ok p, opts', s')" "o_shm_name opts = Some nm"
  obtains p0 mp st ns ns' where "publish_shared_state (k_os K) nm mp XAL_BACKEND_FIEMAP (p0, ns) = (Ok st, p, ns')"
    "is_fiemap p0" "h_sb p = h_sb p0" "h_be p = h_be p0"
proof -
  let ?o = "opts\<lparr>o_be := XAL_BACKEND_FIEMAP\<rparr>"
  obtain mp p0 s1 where o: "xal_be_fiemap_open fuel K self mp ?o s = (Ok p0, s1)"
    and p: "publish_or_close K self ?o mp (p0, s1) = (Ok p, s')"
    using assms(2) by (auto simp: xal_open_from_uri_def Let_def split: if_splits sum.splits prod.splits)
  obtain ns k where s1: "s1 = (ns, k)" by (rule prod.exhaust)
  obtain r y ns' where q: "publish_shared_state (k_os K) nm mp XAL_BACKEND_FIEMAP (p0, ns) = (r, y, ns')" by (rule prod_cases3)
  then obtain st where "r = Ok st" "y = p" using p assms(3) by (cases r) (auto simp: publish_or_close_def s1)
  then show thesis
    using that [of mp p0 ns st ns'] q fiemap_open_backend [OF o] publish_result [OF assms(1) q] by simp
qed

section \<open>A sample mount\<close>

text \<open>The mount of the demonstration file system, opened as \<open>/x\<close>.\<close>

definition mount_kernel :: "unit kernel" where
  "mount_kernel = demo_kernel\<lparr>k_statfs := (\<lambda>_ k. (Inr 4096, k)),
     k_stat := (\<lambda>path k. (Inr \<lparr>st_mode = 0x41ED, st_dev = 7, st_ino = (if path = [slash] then 2 else 100)\<rparr>, k))\<rparr>"

definition mount_opts :: xal_opts where
  "mount_opts = \<lparr>o_be = 0, o_watch_mode = XAL_WATCHMODE_NONE, o_file_lookupmode = XAL_FILE_LOOKUPMODE_HASHMAP,
     o_mountpoint = Some (str ''/m/''), o_shm_name = Some (str ''/x''), o_subtree = None\<rparr>"

definition mount_run :: "xal res \<times> xal_opts \<times> shm_names \<times> unit" where
  "mount_run = xal_open_from_uri 3 mount_kernel 0 (Inr []) (str ''/dev/x'') mount_opts ({}, ())"

definition fresh_shared :: "'a \<Rightarrow> u64 \<Rightarrow> cstring \<Rightarrow> 'a xal_pool" where
  "fresh_shared zero esize nm = \<lparr>reserved = 40000000, allocated = 40000000, growby = 40000000, free = 0, element_size = esize,
     shm_name = Some nm, mapped = True, memory = (\<lambda>_. zero)\<rparr>"

definition mount_opened :: xal where
  "mount_opened = (new_cand (Be_fiemap (no_be_fiemap\<lparr>f_mountpoint := str ''/m'', f_path_inode_map := Some (\<lambda>_. None)\<rparr>)))
     \<lparr>h_inodes := fresh_shared zero_inode XAL_INODE_NBYTES (str ''/x_inodes''),
      h_extents := fresh_shared zero_extent XAL_EXTENT_NBYTES (str ''/x_extents''),
      h_sb := zero_sb\<lparr>sb_blocksize := 4096, sb_rootino := 100\<rparr>, h_procrole := XAL_PROCROLE_PRIMARY,
      h_state := True, h_state_shm_name := Some (str ''/x_state''), h_index_state := XAL_STATE_DIRTY\<rparr>"

lemma mount_count: "retrieve_total_entries 3 mount_kernel [47, 109] () = (Ok 3, ())"
  "strip_trailing_slashes [47, 109, 47] = [47, 109]"
  by code_simp+

lemma mount_calls: "k_alloc mount_kernel n k = (True, k)"
  "k_lstat mount_kernel path k = (Inr \<lparr>st_mode = 0x41ED, st_dev = 7, st_ino = 100\<rparr>, k)"
  "k_stat mount_kernel path k = (Inr \<lparr>st_mode = 0x41ED, st_dev = 7, st_ino = (if path = [slash] then 2 else 100)\<rparr>, k)"
  "k_statfs mount_kernel path k = (Inr 4096, k)" "k_os mount_kernel = tiny_os"
  by (simp_all add: mount_kernel_def demo_kernel_def still_kernel_def)

lemma mount_run_ok: "fst mount_run = Ok mount_opened"
  by (simp add: mount_run_def mount_opts_def xal_open_from_uri_def given_mountpoint_def mount_count mount_calls Let_def
     xal_be_fiemap_open_def need_mem_def fiemap_open_steps_def with_names_def open_mountpoint_def check_root_def S_ISDIR_def
     call_def open_subtree_def open_reflink_def open_watch_def open_count_def walk_root_def open_statfs_def open_pools_def
     pool_step_def xal_pool_map_def pool_map_shm_def shm_open_excl_def tiny_os_def open_hashmap_def close_on_failure_def
     publish_or_close_def publish_shared_state_def published_state_def on_xal_def new_cand_def empty_pool_def
     set_fbe_def fbe_of_def no_be_fiemap_def mount_opened_def fresh_shared_def str_def)

lemma mount_open_run: "\<exists>o' n'. xal_open_from_uri 3 mount_kernel 0 (Inr []) (str ''/dev/x'') mount_opts ({}, ())
    = (Ok mount_opened, o', n', ())"
  using mount_run_ok by (cases mount_run) (auto simp: mount_run_def)

lemma mount_unlinks: "unlinks (k_os mount_kernel)"
  by (simp add: unlinks_def mount_calls tiny_os_def)

text \<open>The witnesses of the properties of this theory.\<close>

lemma sample_attached: "\<not> isl (xal_from_shm sound_attach sample_shared (str ''/x''))"
  by code_simp

theorem close_attached_witness:
  "fst (snd (xal_close mount_kernel 0 (projr (xal_from_shm sound_attach sample_shared (str ''/x'')), {str ''/x_state''}, ())))
     = {str ''/x_state''}"
proof -
  let ?s = "projr (xal_from_shm sound_attach sample_shared (str ''/x''))"
  obtain s' n' k' where c: "xal_close mount_kernel 0 (?s, {str ''/x_state''}, ()) = (s', n', k')" by (rule prod_cases3)
  have "xal_from_shm sound_attach sample_shared (str ''/x'') = Ok ?s" using sample_attached by (metis sum.collapse(2))
  from close_attached [OF mount_unlinks this c] show ?thesis unfolding c by simp
qed

theorem close_primary_witness:
  "fst (snd (xal_close mount_kernel 0 (mount_opened, {str ''/x_inodes'', str ''/x_extents'', str ''/x_state'', str ''/y''}, ())))
     = {str ''/y''}"
proof -
  let ?n = "{str ''/x_inodes'', str ''/x_extents'', str ''/x_state'', str ''/y''}"
  obtain s' n' k' where c: "xal_close mount_kernel 0 (mount_opened, ?n, ()) = (s', n', k')" by (rule prod_cases3)
  have p: "h_procrole mount_opened = XAL_PROCROLE_PRIMARY" "h_state mount_opened"
    "pool_names mount_opened \<union> set_option (h_state_shm_name mount_opened) = {str ''/x_inodes'', str ''/x_extents'', str ''/x_state''}"
    by (auto simp: mount_opened_def pool_names_def fresh_shared_def)
  have "n' = ?n - {str ''/x_inodes'', str ''/x_extents'', str ''/x_state''}"
    using close_primary [OF mount_unlinks p(1,2) c] unfolding p(3) by blast
  then show ?thesis unfolding c by (simp add: str_def insert_Diff_if)
qed

theorem open_from_uri_all_or_nothing_witness:
  "fst (snd (snd mount_run)) = {str ''/x_inodes'', str ''/x_extents'', str ''/x_state''}"
proof -
  obtain o' n' where r: "mount_run = (Ok mount_opened, o', n', ())"
    using mount_open_run by (auto simp: mount_run_def)
  have "all_or_nothing {} mount_opts (Ok mount_opened) n'"
    using open_from_uri_all_or_nothing [OF mount_unlinks r [unfolded mount_run_def]] .
  then show ?thesis unfolding r by (simp add: all_or_nothing_def names_for_def mount_opts_def str_def)
qed

text \<open>A device whose namespace cannot be read: both pools are mapped by then, and removed again.\<close>

definition deaf_dev :: xnvme_dev where
  "deaf_dev = \<lparr>dev_env = \<lparr>dev_mdts_nbytes = 4096, dev_lba_nbytes = 512, xnvme_nvm_read = (\<lambda>_ _. None), kh_put_fails = (\<lambda>_. False),
       env_os = tiny_os, env_errno = Some EIO\<rparr>,
     dev_uri = Some (str ''/dev/x''), dev_ns = Inl (Some EIO)\<rparr>"

definition deaf_run :: "xal option res \<times> xal_opts \<times> shm_names \<times> unit" where
  "deaf_run = xal_open 3 mount_kernel 0 (Inr []) deaf_dev mount_opts ({}, ())"

lemma deaf_fails: "case fst deaf_run of Inl (Errno EIO) \<Rightarrow> True | _ \<Rightarrow> False"
  by code_simp


end
