(* ===== verification/Xal_Server.thy ===== *)
theory Xal_Server
  imports Xal_Open_Correct
begin

text \<open>
  The index server (\<open>src/tools/xal-server\<close>): it reads a configuration, publishes an index per device under the
  configured shared memory name, re-indexes what readers mark, and takes everything down again on a signal. The
  parsed configuration file is a parameter: the values tomlc17 returns. The theory shows which configurations are
  accepted, how long a failing device is left alone, and that no name outlives the process.
\<close>

section \<open>The configuration\<close>

text \<open>
  What \<open>toml_seek()\<close> and \<open>toml_get()\<close> return; a string is given with its bytes, a NUL among them or not, a table by
  the values of its keys.
\<close>

datatype toml_datum =
    TOML_UNKNOWN
  | TOML_STRING "u8 list"
  | TOML_INT64 int
  | TOML_ARRAY "toml_datum list"
  | TOML_TABLE "cstring \<Rightarrow> toml_datum"
  | Toml_other

abbreviation (input) XAL_SERVER_URI_MAXLEN :: nat where "XAL_SERVER_URI_MAXLEN \<equiv> 256"
abbreviation (input) XAL_SERVER_SHM_NAME_MAXLEN :: nat where "XAL_SERVER_SHM_NAME_MAXLEN \<equiv> 64"

record xal_server_dev =
  d_uri :: cstring
  d_shm_name :: cstring
  d_mountpoint :: cstring
  d_subtree :: cstring

record xal_server_conf =
  c_log_level :: int
  c_watch_mode :: xal_watchmode
  c_devs :: "xal_server_dev list"

definition copy_str :: "toml_datum \<Rightarrow> nat \<Rightarrow> cstring res" where
  "copy_str datum dst_nbytes =
     (case datum of
        TOML_STRING bytes \<Rightarrow>
          (let len = length (cstr bytes)
           in if len \<noteq> length bytes then Fail EINVAL
              else if dst_nbytes \<le> len then Fail ENAMETOOLONG
              else Ok (cstr bytes))
      | _ \<Rightarrow> Fail EINVAL)"

definition copy_optional :: "toml_datum \<Rightarrow> nat \<Rightarrow> cstring res" where
  "copy_optional datum dst_nbytes = (case datum of TOML_UNKNOWN \<Rightarrow> Ok [] | _ \<Rightarrow> copy_str datum dst_nbytes)"

text \<open>One element of the array, given the devices before it. The fields are zero to begin with.\<close>

definition parse_device :: "xal_server_dev list \<Rightarrow> toml_datum \<Rightarrow> xal_server_dev res" where
  "parse_device prior elem =
     (case elem of
        TOML_TABLE toml_get \<Rightarrow>
          bind_res (copy_str (toml_get (str ''uri'')) XAL_SERVER_URI_MAXLEN)
            (\<lambda>uri. bind_res (copy_str (toml_get (str ''shm_name'')) XAL_SERVER_SHM_NAME_MAXLEN)
               (\<lambda>shm. bind_res (copy_optional (toml_get (str ''mountpoint'')) (XAL_PATH_MAXLEN + 1))
                  (\<lambda>mountpoint. bind_res (copy_optional (toml_get (str ''subtree'')) (XAL_PATH_MAXLEN + 1))
                     (\<lambda>subtree.
                        if slash \<in> set (drop 1 shm) then Fail EINVAL
                        else if length shm \<le> 1 then Fail EINVAL
                        else if \<exists>dev \<in> set prior. strcmp (d_shm_name dev) shm = 0 then Fail EINVAL
                        else Ok \<lparr>d_uri = uri, d_shm_name = shm, d_mountpoint = mountpoint, d_subtree = subtree\<rparr>))))
      | _ \<Rightarrow> Fail EINVAL)"

fun parse_elems :: "xal_server_dev list \<Rightarrow> toml_datum list \<Rightarrow> xal_server_dev list res" where
  "parse_elems prior [] = Ok prior"
| "parse_elems prior (elem # elems) =
     bind_res (parse_device prior elem) (\<lambda>dev. parse_elems (prior @ [dev]) elems)"

definition parse_devices :: "bool \<Rightarrow> toml_datum \<Rightarrow> xal_server_dev list res" where
  "parse_devices granted devices =
     (case devices of
        TOML_ARRAY elems \<Rightarrow>
          if elems = [] then Fail EINVAL
          else if \<not> granted then Fail ENOMEM
          else parse_elems [] elems
      | _ \<Rightarrow> Fail EINVAL)"

definition conf_log_level :: "toml_datum \<Rightarrow> int" where
  "conf_log_level datum =
     (case datum of
        TOML_INT64 n \<Rightarrow> if n < 0 \<or> 5 \<le> n then 5 else [3, 4, 5, 6, 7] ! nat n
      | _ \<Rightarrow> 5)"

definition conf_watch_mode :: "toml_datum \<Rightarrow> xal_watchmode res" where
  "conf_watch_mode datum =
     (case datum of
        TOML_INT64 n \<Rightarrow>
          if n = 0 then Ok XAL_WATCHMODE_NONE
          else if n = 1 then Ok XAL_WATCHMODE_REFLINK_SNAPSHOT
          else Fail EINVAL
      | _ \<Rightarrow> Ok XAL_WATCHMODE_NONE)"

text \<open>\<open>toptab\<close> is what a path leads to in the top table, if the file could be parsed.\<close>

definition xal_server_conf_from_toml :: "bool \<Rightarrow> (cstring \<Rightarrow> toml_datum) option \<Rightarrow> xal_server_conf res" where
  "xal_server_conf_from_toml granted toptab =
     (case toptab of
        None \<Rightarrow> Fail EINVAL
      | Some toml_seek \<Rightarrow>
          bind_res (conf_watch_mode (toml_seek (str ''xal.watchmode'')))
            (\<lambda>watch_mode. bind_res (parse_devices granted (toml_seek (str ''devices'')))
               (\<lambda>devs. Ok \<lparr>c_log_level = conf_log_level (toml_seek (str ''log_level'')), c_watch_mode = watch_mode, c_devs = devs\<rparr>)))"

section \<open>Publishing\<close>

text \<open>\<open>xal_index()\<close> on the FIEMAP backend with the kernel threaded through.\<close>

definition index_device :: "nat \<Rightarrow> nat \<Rightarrow> 'k kernel \<Rightarrow> xal \<times> 'k \<Rightarrow> unit res \<times> xal \<times> 'k" where
  "index_device fuel dfuel K s =
     (let (r, xal) = xal_index (fiemap_be_index fuel dfuel K (snd s)) (fst s)
      in (r, xal,
          if h_procrole (fst s) = XAL_PROCROLE_SECONDARY \<or> h_indexing (fst s) then snd s
          else snd (snd (xal_be_fiemap_index fuel dfuel K ((fst s)\<lparr>h_indexing := True\<rparr>, snd s)))))"

definition server_opts :: "xal_watchmode \<Rightarrow> xal_server_dev \<Rightarrow> xal_opts" where
  "server_opts watch_mode dev =
     \<lparr>o_be = XAL_BACKEND_FIEMAP, o_watch_mode = watch_mode, o_file_lookupmode = XAL_FILE_LOOKUPMODE_TRAVERSE,
      o_mountpoint = (if d_mountpoint dev \<noteq> [] then Some (d_mountpoint dev) else None),
      o_shm_name = Some (d_shm_name dev),
      o_subtree = (if d_subtree dev \<noteq> [] then Some (d_subtree dev) else None)\<rparr>"

text \<open>What opening and indexing are bounded by, and the mount table as it reads when the device is opened.\<close>

record serve_env =
  e_fuel :: nat
  e_ifuel :: nat
  e_dfuel :: nat
  e_self :: nat
  e_mounts :: "errno + cstring"

definition index_and_watch ::
  "serve_env \<Rightarrow> 'k kernel \<Rightarrow> xal_watchmode \<Rightarrow> xal \<times> 'k \<Rightarrow> unit res \<times> xal \<times> 'k" where
  "index_and_watch env K watch_mode s =
     bind_st (index_device (e_ifuel env) (e_dfuel env) K s)
       (\<lambda>_ s. if watch_mode \<noteq> XAL_WATCHMODE_NONE then xal_watch_filesystem K True s else (Ok (), s))"

definition publish ::
  "serve_env \<Rightarrow> 'k kernel \<Rightarrow> xal_watchmode \<Rightarrow> xal_server_dev \<Rightarrow> shm_names \<times> 'k \<Rightarrow> xal res \<times> shm_names \<times> 'k" where
  "publish env K watch_mode dev s =
     (case xal_open_from_uri (e_fuel env) K (e_self env) (e_mounts env) (d_uri dev) (server_opts watch_mode dev) s of
        (Inl f, _, s) \<Rightarrow> (Inl f, s)
      | (Inr xal, _, ns, k) \<Rightarrow>
          close_on_failure K (e_self env) (with_names (index_and_watch env K watch_mode) (xal, ns, k)))"

text \<open>The handles published so far, in the order of the devices; the first failure ends the loop.\<close>

fun publish_all ::
  "serve_env \<Rightarrow> 'k kernel \<Rightarrow> xal_watchmode \<Rightarrow> xal_server_dev list \<Rightarrow> xal list \<times> shm_names \<times> 'k \<Rightarrow>
     unit res \<times> xal list \<times> shm_names \<times> 'k" where
  "publish_all env K watch_mode [] s = (Ok (), s)"
| "publish_all env K watch_mode (dev # devs) (xals, s) =
     (case publish env K watch_mode dev s of
        (Inl f, s) \<Rightarrow> (Inl f, xals, s)
      | (Inr xal, s) \<Rightarrow> publish_all env K watch_mode devs (xals @ [xal], s))"

fun unpublish :: "serve_env \<Rightarrow> 'k kernel \<Rightarrow> xal list \<Rightarrow> shm_names \<times> 'k \<Rightarrow> shm_names \<times> 'k" where
  "unpublish env K [] s = s"
| "unpublish env K (xal # xals) s = unpublish env K xals (snd (xal_close K (e_self env) (xal, s)))"

section \<open>Serving\<close>

abbreviation (input) XAL_SERVER_TICK_MS :: u32 where "XAL_SERVER_TICK_MS \<equiv> 10"
abbreviation (input) XAL_SERVER_BACKOFF_MAX_MS :: u32 where "XAL_SERVER_BACKOFF_MAX_MS \<equiv> 1000"

record xal_server_watch =
  w_backoff_ms :: u32
  w_retry_ms :: u64
  w_err :: "errno option"

text \<open>
  What one look at a device meets: whether a reader has marked it meanwhile, the two readings of the clock, and the
  kernel the indexing runs on with its fuel.
\<close>

record 'k poll =
  p_marked :: bool
  p_now :: u64
  p_later :: u64
  p_fuel :: nat
  p_dfuel :: nat
  p_kernel :: 'k

definition next_backoff :: "u32 \<Rightarrow> u32" where
  "next_backoff backoff_ms =
     (let b = (if backoff_ms \<noteq> 0 then 2 * backoff_ms else XAL_SERVER_TICK_MS)
      in if XAL_SERVER_BACKOFF_MAX_MS < b then XAL_SERVER_BACKOFF_MAX_MS else b)"

definition serve_device :: "'k kernel \<Rightarrow> 'k poll \<Rightarrow> xal \<times> xal_server_watch \<Rightarrow> unit res \<times> xal \<times> xal_server_watch" where
  "serve_device K p s =
     (case s of (xal, watch) \<Rightarrow>
        let xal = (if p_marked p then xal_mark_dirty xal else xal)
        in if \<not> xal_is_dirty xal \<or> p_now p < w_retry_ms watch then (Ok (), xal, watch)
           else
             (case xal_index (fiemap_be_index (p_fuel p) (p_dfuel p) K (p_kernel p)) xal of
                (Inr _, xal) \<Rightarrow> (Ok (), xal, watch\<lparr>w_backoff_ms := 0, w_err := None\<rparr>)
              | (Inl (Errno e), xal) \<Rightarrow>
                  (let b = next_backoff (w_backoff_ms watch)
                   in (Ok (), xal, watch\<lparr>w_backoff_ms := b, w_retry_ms := p_later p + ucast b, w_err := Some e\<rparr>))
              | (Inl f, xal) \<Rightarrow> (Inl f, xal, watch)))"

text \<open>One turn over the devices, and the turns until a signal arrives.\<close>

fun serve_turn :: "'k kernel \<Rightarrow> 'k poll list \<Rightarrow> (xal \<times> xal_server_watch) list \<Rightarrow> unit res \<times> (xal \<times> xal_server_watch) list" where
  "serve_turn K (p # ps) (s # ss) =
     (case serve_device K p s of
        (Inl f, s) \<Rightarrow> (Inl f, s # ss)
      | (Inr _, s) \<Rightarrow> (case serve_turn K ps ss of (r, ss) \<Rightarrow> (r, s # ss)))"
| "serve_turn K _ ss = (Ok (), ss)"

fun serve_marks :: "'k kernel \<Rightarrow> 'k poll list list \<Rightarrow> (xal \<times> xal_server_watch) list \<Rightarrow> unit res \<times> (xal \<times> xal_server_watch) list" where
  "serve_marks K [] ss = (Ok (), ss)"
| "serve_marks K (ps # turns) ss = bind_st (serve_turn K ps ss) (\<lambda>_ ss. serve_marks K turns ss)"

text \<open>The callback of the watch thread; its failures are only reported.\<close>

definition on_dirty :: "'k kernel \<Rightarrow> 'k poll \<Rightarrow> xal \<Rightarrow> unit res \<times> xal" where
  "on_dirty K p xal =
     (case xal_index (fiemap_be_index (p_fuel p) (p_dfuel p) K (p_kernel p)) xal of
        (Inr _, xal) \<Rightarrow> (Ok (), xal)
      | (Inl (Errno _), xal) \<Rightarrow> (Ok (), xal)
      | (Inl f, xal) \<Rightarrow> (Inl f, xal))"

text \<open>
  While the main thread sleeps in \<open>sigsuspend()\<close> the watch threads call back: for each call the number of the device
  and what the call meets.
\<close>

fun serve_callbacks :: "'k kernel \<Rightarrow> (nat \<times> 'k poll) list \<Rightarrow> xal list \<Rightarrow> unit res \<times> xal list" where
  "serve_callbacks K [] xals = (Ok (), xals)"
| "serve_callbacks K ((i, p) # cs) xals =
     (if i < length xals then
        (case on_dirty K p (xals ! i) of
           (Inl f, xal) \<Rightarrow> (Inl f, xals[i := xal])
         | (Inr _, xal) \<Rightarrow> serve_callbacks K cs (xals[i := xal]))
      else serve_callbacks K cs xals)"

section \<open>The process\<close>

fun server_parse_args :: "cstring list \<Rightarrow> cstring option \<Rightarrow> cstring res" where
  "server_parse_args [] path = (case path of None \<Rightarrow> Fail EINVAL | Some p \<Rightarrow> Ok p)"
| "server_parse_args (a # as) path =
     (if a = str ''--config'' then
        (case as of [] \<Rightarrow> Fail EINVAL | p # as \<Rightarrow> server_parse_args as (Some p))
      else Fail EINVAL)"

text \<open>
  What the process meets besides the kernel it starts on: the parsed file, whether memory is granted, the four signal
  calls in their order, what the serving loops meet, and the kernel as it is when a signal ends them.
\<close>

record 'k server_os =
  so_parse :: "cstring \<Rightarrow> (cstring \<Rightarrow> toml_datum) option"
  so_devs :: bool
  so_arrays :: bool
  so_signals :: "errno option list"
  so_turns :: "'k poll list list"
  so_callbacks :: "(nat \<times> 'k poll) list"
  so_kernel :: 'k

fun signal_setup :: "errno option list \<Rightarrow> unit res" where
  "signal_setup [] = Ok ()"
| "signal_setup (None # cs) = signal_setup cs"
| "signal_setup (Some e # cs) = Fail e"

definition new_watch :: xal_server_watch where
  "new_watch = \<lparr>w_backoff_ms = 0, w_retry_ms = 0, w_err = None\<rparr>"

definition serve :: "'k server_os \<Rightarrow> 'k kernel \<Rightarrow> xal_watchmode \<Rightarrow> xal list \<Rightarrow> unit res \<times> xal list" where
  "serve os K watch_mode xals =
     (if watch_mode = XAL_WATCHMODE_NONE then
        (case serve_marks K (so_turns os) (map (\<lambda>xal. (xal, new_watch)) xals) of (r, ss) \<Rightarrow> (r, map fst ss))
      else serve_callbacks K (so_callbacks os) xals)"

text \<open>Configuration, signals and arrays, before anything is published.\<close>

definition server_setup :: "'k server_os \<Rightarrow> cstring list \<Rightarrow> xal_server_conf res" where
  "server_setup os argv =
     bind_res (server_parse_args (tl argv) None)
       (\<lambda>path. bind_res (xal_server_conf_from_toml (so_devs os) (so_parse os path))
          (\<lambda>conf. if \<not> so_arrays os then Fail ENOMEM
                  else bind_res (signal_setup (so_signals os)) (\<lambda>_. Ok conf)))"

definition server_main ::
  "serve_env \<Rightarrow> 'k server_os \<Rightarrow> 'k kernel \<Rightarrow> cstring list \<Rightarrow> shm_names \<times> 'k \<Rightarrow> unit res \<times> shm_names \<times> 'k" where
  "server_main env os K argv s =
     (case server_setup os argv of
        Inl f \<Rightarrow> (Inl f, s)
      | Inr conf \<Rightarrow>
          (case publish_all env K (c_watch_mode conf) (c_devs conf) ([], s) of
             (Inl (Errno e), xals, s) \<Rightarrow> (Fail e, unpublish env K xals s)
           | (Inl f, _, s) \<Rightarrow> (Inl f, s)
           | (Inr _, xals, s) \<Rightarrow>
               (case serve os K (c_watch_mode conf) xals of
                  (Inl f, _) \<Rightarrow> (Inl f, s)
                | (Inr _, xals) \<Rightarrow> (Ok (), unpublish env K xals (fst s, so_kernel os)))))"

section \<open>What a configuration guarantees\<close>

definition dev_ok :: "xal_server_dev \<Rightarrow> bool" where
  "dev_ok dev \<longleftrightarrow> 2 \<le> length (d_shm_name dev) \<and> length (d_shm_name dev) < XAL_SERVER_SHM_NAME_MAXLEN
     \<and> slash \<notin> set (drop 1 (d_shm_name dev)) \<and> 0 \<notin> set (d_shm_name dev)
     \<and> length (d_uri dev) < XAL_SERVER_URI_MAXLEN \<and> length (d_mountpoint dev) \<le> XAL_PATH_MAXLEN
     \<and> length (d_subtree dev) \<le> XAL_PATH_MAXLEN"

lemma copy_str_Ok: "copy_str datum n = Ok s \<Longrightarrow> length s < n \<and> 0 \<notin> set s \<and> datum = TOML_STRING s"
proof -
  assume a: "copy_str datum n = Ok s"
  then obtain bytes where b: "datum = TOML_STRING bytes" "length (cstr bytes) = length bytes" "s = cstr bytes" "length s < n"
    by (auto simp: copy_str_def Let_def split: toml_datum.splits if_splits)
  have "cstr bytes = bytes" using b(2) unfolding cstr_def by (metis takeWhile_eq_take take_all_iff order_refl)
  then show ?thesis using b by simp (metis zero_notin_cstr)
qed

lemma copy_optional_Ok: "copy_optional datum n = Ok s \<Longrightarrow> 0 < n \<Longrightarrow> length s < n"
  by (auto simp: copy_optional_def split: toml_datum.splits dest: copy_str_Ok)

lemma parse_device_Ok:
  assumes "parse_device prior elem = Ok dev"
  shows "dev_ok dev" "d_shm_name dev \<notin> d_shm_name ` set prior"
  using assms
  by (auto simp: parse_device_def dev_ok_def bind_res_Ok_iff less_Suc_eq_le strcmp_zero_iff split: toml_datum.splits if_splits
      dest!: copy_str_Ok copy_optional_Ok)

lemma parse_elems_Ok:
  assumes "parse_elems prior elems = Ok devs" "\<forall>dev \<in> set prior. dev_ok dev" "distinct (map d_shm_name prior)"
  shows "(\<forall>dev \<in> set devs. dev_ok dev) \<and> distinct (map d_shm_name devs) \<and> length devs = length prior + length elems"
  using assms
proof (induction elems arbitrary: prior)
  case (Cons e es)
  then obtain dev where d: "parse_device prior e = Ok dev" "parse_elems (prior @ [dev]) es = Ok devs" by (auto simp: bind_res_Ok_iff)
  show ?case using Cons.IH [OF d(2)] Cons.prems parse_device_Ok [OF d(1)] by auto
qed simp


section \<open>Backing off\<close>

lemma next_backoff_values:
  "b \<in> {0, 10, 20, 40, 80, 160, 320, 640, 1000} \<Longrightarrow> next_backoff b \<in> {10, 20, 40, 80, 160, 320, 640, 1000}"
  by (auto simp: next_backoff_def Let_def)

definition backoff_ok :: "xal_server_watch \<Rightarrow> bool" where
  "backoff_ok w \<longleftrightarrow> w_backoff_ms w \<in> {0, 10, 20, 40, 80, 160, 320, 640, 1000} \<and> (w_backoff_ms w = 0 \<longleftrightarrow> w_err w = None)"

lemma serve_device_backoff:
  assumes "serve_device K p (xal, w) = (r, xal', w')" "backoff_ok w"
  shows "backoff_ok w'"
proof -
  have "next_backoff (w_backoff_ms w) \<in> {10, 20, 40, 80, 160, 320, 640, 1000}"
    using assms(2) next_backoff_values unfolding backoff_ok_def by blast
  then have "backoff_ok (w\<lparr>w_backoff_ms := next_backoff (w_backoff_ms w), w_retry_ms := t, w_err := Some e\<rparr>)" for t e
    by (auto simp: backoff_ok_def)
  moreover have "backoff_ok (w\<lparr>w_backoff_ms := 0, w_err := None\<rparr>)" by (simp add: backoff_ok_def)
  ultimately show ?thesis using assms
    by (auto simp: serve_device_def Let_def split: if_splits prod.splits sum.splits fault.splits)
qed

lemma serve_turn_backoff:
  assumes "serve_turn K ps ss = (r, ss')" "\<forall>(xal, w) \<in> set ss. backoff_ok w"
  shows "\<forall>(xal, w) \<in> set ss'. backoff_ok w"
  using assms
proof (induction K ps ss arbitrary: r ss' rule: serve_turn.induct)
  case (1 K p ps s ss)
  obtain q xal w where d: "serve_device K p s = (q, xal, w)" by (rule prod_cases3)
  have w: "backoff_ok w" using serve_device_backoff [of K p "fst s" "snd s"] d 1(3) by (cases s) auto
  obtain r1 ss1 where t: "serve_turn K ps ss = (r1, ss1)" by (rule prod.exhaust)
  show ?case
  proof (cases q)
    case (Inl f)
    then show ?thesis using 1(2,3) w by (auto simp: d)
  next
    case (Inr u)
    have "\<forall>(xal, w) \<in> set ss1. backoff_ok w" using 1(1) [of q "(xal, w)" u, OF d [symmetric] Inr t] 1(3) by auto
    then show ?thesis using 1(2) w Inr by (auto simp: d t)
  qed
qed auto


text \<open>A device whose pause is not over is not touched, and nor is one that is up to date.\<close>

lemma serve_device_waits:
  "p_now p < w_retry_ms w \<or> \<not> p_marked p \<and> \<not> xal_is_dirty xal \<Longrightarrow>
     serve_device K p (xal, w) = (Ok (), if p_marked p then xal_mark_dirty xal else xal, w)"
  by (auto simp: serve_device_def Let_def)

section \<open>The names of the process\<close>

definition own_names :: "xal \<Rightarrow> shm_names" where
  "own_names xal = pool_names xal \<union> set_option (h_state_shm_name xal)"

definition published :: "xal \<Rightarrow> bool" where
  "published xal \<longleftrightarrow> h_procrole xal = XAL_PROCROLE_PRIMARY \<and> h_state xal"

lemma handle_kept_names: "handle_kept x y \<Longrightarrow> own_names y = own_names x \<and> published y = published x"
  by (simp add: handle_kept_def own_names_def published_def pool_names_def pool_kept_def)

lemma close_published:
  assumes "unlinks (k_os K)" "published x"
  shows "fst (snd (xal_close K self (x, ns, k))) = ns - own_names x"
proof -
  obtain x' ns' k' where c: "xal_close K self (x, ns, k) = (x', ns', k')" by (rule prod_cases3)
  show ?thesis using close_names [OF assms(1) c] assms(2) by (auto simp: c own_names_def published_def)
qed

lemma watch_kept: "moves handle_kept (xal_watch_filesystem K cb)"
  by (rule movesI)
    (simp add: xal_watch_filesystem_def Let_def handle.refl handle.set_watches case_prod_unfold split: xal_be.split option.split)

lemma index_and_watch_kept: "moves handle_kept (index_and_watch env K watch_mode)"
proof -
  have "moves handle_kept (index_device fuel dfuel K)" for fuel dfuel
  proof (rule movesI)
    fix s :: "xal \<times> 'a"
    obtain r y where i: "xal_index (fiemap_be_index fuel dfuel K (snd s)) (fst s) = (r, y)" by (rule prod.exhaust)
    show "handle_kept (fst s) (fst (snd (index_device fuel dfuel K s)))"
      using xal_index_kept [OF i] by (simp add: index_device_def i)
  qed
  then show ?thesis unfolding index_and_watch_def by (intro moves_intros watch_kept handle.moves_bind handle.moves_if handle.moves_quiet)
qed

text \<open>A device is published under new names, or nothing of it is left.\<close>

lemma publish_names:
  assumes "unlinks (k_os K)" "publish env K watch_mode dev (ns, k) = (q, ns', k')"
  shows "case q of Inl (Errno e) \<Rightarrow> ns' = ns | Inl _ \<Rightarrow> True
    | Inr xal \<Rightarrow> published xal \<and> ns' = ns \<union> own_names xal \<and> own_names xal \<inter> ns = {}"
proof -
  let ?o = "server_opts watch_mode dev"
  obtain r o' n1 k1 where o: "xal_open_from_uri (e_fuel env) K (e_self env) (e_mounts env) (d_uri dev) ?o (ns, k) = (r, o', n1, k1)"
    by (rule prod_cases4)
  note O = open_from_uri_tidy [OF assms(1) o]
  show ?thesis
  proof (cases r)
    case (Inl f)
    then show ?thesis using O assms(2) by (auto simp: publish_def o all_or_nothing_def split: fault.splits)
  next
    case (Inr x)
    have h: "opened_handle ?o x" "n1 = ns \<union> names_for ?o" "names_for ?o \<inter> ns = {}" using O Inr by (simp_all add: all_or_nothing_def)
    have x: "published x" "own_names x = names_for ?o"
      using h(1) pools_opened_names [of ?o x]
      by (auto simp: opened_handle_def pools_opened_def published_def own_names_def names_for_def server_opts_def)
    obtain v y k2 where i: "index_and_watch env K watch_mode (x, k1) = (v, y, k2)" by (rule prod_cases3)
    have y: "own_names y = names_for ?o" "published y"
      using handle_kept_names [of x y] moves_ret [OF index_and_watch_kept i] x by simp_all
    have run: "close_on_failure K (e_self env) (v, y, n1, k2) = (q, ns', k')"
      using assms(2) by (simp add: publish_def o Inr with_names_def i)
    show ?thesis
    proof (cases v)
      case (Inl f)
      then show ?thesis using run close_published [OF assms(1) y(2), of "e_self env" n1 k2] h y(1)
        by (cases f) (auto simp: close_on_failure_def)
    next
      case Inr
      then show ?thesis using run h y by (auto simp: close_on_failure_def)
    qed
  qed
qed

definition all_published :: "shm_names \<Rightarrow> xal list \<Rightarrow> shm_names \<Rightarrow> bool" where
  "all_published ns0 xals ns \<longleftrightarrow> (\<forall>xal \<in> set xals. published xal) \<and> ns = ns0 \<union> \<Union> (own_names ` set xals)
     \<and> \<Union> (own_names ` set xals) \<inter> ns0 = {}"

lemma publish_all_names:
  assumes "unlinks (k_os K)" "publish_all env K watch_mode devs (xals, ns, k) = (q, xals', ns', k')" "all_published ns0 xals ns"
    and "\<forall>f. q = Inl f \<longrightarrow> (\<exists>e. f = Errno e)"
  shows "all_published ns0 xals' ns'"
  using assms(2-4)
proof (induction devs arbitrary: xals ns k)
  case (Cons dev devs)
  obtain r n1 k1 where p: "publish env K watch_mode dev (ns, k) = (r, n1, k1)" by (rule prod_cases3)
  note P = publish_names [OF assms(1) p]
  show ?case
  proof (cases r)
    case (Inl f)
    then show ?thesis using Cons.prems P by (auto simp: p)
  next
    case (Inr xal)
    have "all_published ns0 (xals @ [xal]) n1" using P Inr Cons.prems(2) by (auto simp: all_published_def)
    then show ?thesis using Cons.IH [of "xals @ [xal]" n1 k1] Cons.prems Inr by (simp add: p)
  qed
qed simp

lemma unpublish_names:
  assumes "unlinks (k_os K)" "\<forall>xal \<in> set xals. published xal"
  shows "fst (unpublish env K xals (ns, k)) = ns - \<Union> (own_names ` set xals)"
  using assms(2)
proof (induction xals arbitrary: ns k)
  case (Cons xal xals)
  obtain y n1 k1 where c: "xal_close K (e_self env) (xal, ns, k) = (y, n1, k1)" by (rule prod_cases3)
  have "n1 = ns - own_names xal" using close_published [OF assms(1), of xal "e_self env" ns k] Cons.prems by (simp add: c)
  then show ?case using Cons by (auto simp: c)
qed simp

lemma unpublish_all: "unlinks (k_os K) \<Longrightarrow> all_published ns0 xals ns \<Longrightarrow> fst (unpublish env K xals (ns, k)) = ns0"
  using unpublish_names [of K xals env ns k] by (auto simp: all_published_def)

text \<open>Serving keeps every handle.\<close>

lemma handle_kept_marked [simp]: "handle_kept x (xal_mark_dirty y) = handle_kept x y" "handle_kept (xal_mark_dirty x) y = handle_kept x y"
  by (simp_all add: handle_kept_def xal_mark_dirty_def)

lemma serve_device_kept:
  assumes "serve_device K p s = (r, t)"
  shows "handle_kept (fst s) (fst t)"
proof -
  let ?x = "if p_marked p then xal_mark_dirty (fst s) else fst s"
  obtain q y where i: "xal_index (fiemap_be_index (p_fuel p) (p_dfuel p) K (p_kernel p)) ?x = (q, y)" by (rule prod.exhaust)
  have "handle_kept (fst s) y" using xal_index_kept [OF i] by (simp split: if_splits)
  moreover have "fst t = y \<or> fst t = ?x" using assms i
    by (cases s) (auto simp: serve_device_def Let_def split: if_splits sum.splits fault.splits)
  ultimately show ?thesis using handle.refl by auto
qed

lemma serve_turn_kept: "serve_turn K ps ss = (r, ss') \<Longrightarrow> list_all2 (\<lambda>s t. handle_kept (fst s) (fst t)) ss ss'"
proof (induction K ps ss arbitrary: r ss' rule: serve_turn.induct)
  case (1 K p ps s ss)
  obtain q t where d: "serve_device K p s = (q, t)" by (rule prod.exhaust)
  obtain r1 ss1 where t: "serve_turn K ps ss = (r1, ss1)" by (rule prod.exhaust)
  show ?case
  proof (cases q)
    case (Inl f)
    then show ?thesis using 1(2) serve_device_kept [OF d] by (auto simp: d handle.refl intro: list_all2_refl)
  next
    case (Inr u)
    show ?thesis using 1(1) [OF d [symmetric] Inr t] 1(2) serve_device_kept [OF d] Inr by (auto simp: d t)
  qed
qed (auto simp: handle.refl intro: list_all2_refl)

lemma serve_marks_kept: "serve_marks K turns ss = (r, ss') \<Longrightarrow> list_all2 (\<lambda>s t. handle_kept (fst s) (fst t)) ss ss'"
proof (induction turns arbitrary: ss)
  case (Cons ps turns)
  obtain q ss1 where t: "serve_turn K ps ss = (q, ss1)" by (rule prod.exhaust)
  note T = serve_turn_kept [OF t]
  show ?case
  proof (cases q)
    case Inl
    then show ?thesis using T Cons.prems t by simp
  next
    case (Inr u)
    then have r: "list_all2 (\<lambda>s t. handle_kept (fst s) (fst t)) ss1 ss'" using Cons t by simp
    show ?thesis by (rule list_all2_trans [OF _ T r]) (rule handle.trans)
  qed
qed (simp add: handle.refl list_all2_refl)

lemma serve_callbacks_kept: "serve_callbacks K cs xals = (r, xals') \<Longrightarrow> list_all2 handle_kept xals xals'"
proof (induction K cs xals rule: serve_callbacks.induct)
  case (2 K i p cs xals)
  obtain q y where d: "on_dirty K p (xals ! i) = (q, y)" by (rule prod.exhaust)
  obtain q' y' where x: "xal_index (fiemap_be_index (p_fuel p) (p_dfuel p) K (p_kernel p)) (xals ! i) = (q', y')" by (rule prod.exhaust)
  have "handle_kept (xals ! i) y" using d xal_index_kept [OF x] by (auto simp: on_dirty_def x split: sum.splits fault.splits)
  then have u: "list_all2 handle_kept xals (xals[i := y])" if "i < length xals"
    using that handle.refl by (simp add: list_all2_conv_all_nth nth_list_update)
  show ?case
  proof (cases "i < length xals")
    case True
    show ?thesis
    proof (cases q)
      case Inl
      then show ?thesis using 2(3) u True by (auto simp: d)
    next
      case (Inr v)
      then have r: "list_all2 handle_kept (xals[i := y]) xals'" using 2(1) [OF True d [symmetric] Inr] 2(3) True by (simp add: d)
      show ?thesis by (rule list_all2_trans [OF _ u [OF True] r]) (rule handle.trans)
    qed
  next
    case False
    then show ?thesis using 2(2,3) by simp
  qed
qed (simp add: handle.refl list_all2_refl)

lemma serve_kept:
  assumes "serve os K watch_mode xals = (r, xals')"
  shows "list_all2 handle_kept xals xals'"
proof (cases "watch_mode = XAL_WATCHMODE_NONE")
  case True
  obtain q ss where m: "serve_marks K (so_turns os) (map (\<lambda>xal. (xal, new_watch)) xals) = (q, ss)" by (rule prod.exhaust)
  show ?thesis using serve_marks_kept [OF m] assms True by (auto simp: serve_def m list_all2_map1 list_all2_map2)
next
  case False
  then show ?thesis using assms serve_callbacks_kept by (auto simp: serve_def)
qed

lemma all_published_kept:
  assumes "list_all2 handle_kept xals xals'" "all_published ns0 xals ns"
  shows "all_published ns0 xals' ns"
proof -
  have "map own_names xals' = map own_names xals \<and> map published xals' = map published xals"
    using assms(1) by (induction rule: list_all2_induct) (simp_all add: handle_kept_names)
  then have "own_names ` set xals' = own_names ` set xals" "published ` set xals' = published ` set xals"
    by (metis set_map)+
  then show ?thesis using assms(2) unfolding all_published_def by (metis image_iff)
qed

text \<open>An error of an indexing is kept to the device: the two loops only end early where the model does.\<close>

lemma serve_device_errno: "serve_device K p s = (r, t) \<Longrightarrow> r \<noteq> Fail e"
  by (cases s) (auto simp: serve_device_def Let_def split: if_splits prod.splits sum.splits fault.splits)

lemma serve_turn_errno: "serve_turn K ps ss = (r, ss') \<Longrightarrow> r \<noteq> Fail e"
proof (induction K ps ss arbitrary: r ss' rule: serve_turn.induct)
  case (1 K p ps s ss)
  obtain q t where d: "serve_device K p s = (q, t)" by (rule prod.exhaust)
  obtain r1 ss1 where t: "serve_turn K ps ss = (r1, ss1)" by (rule prod.exhaust)
  show ?case using 1(1) [OF d [symmetric] _ t] 1(2) serve_device_errno [OF d] by (cases q) (auto simp: d t)
qed auto

lemma serve_marks_errno: "serve_marks K turns ss = (r, ss') \<Longrightarrow> r \<noteq> Fail e"
proof (induction turns arbitrary: ss)
  case (Cons ps turns)
  obtain q ss1 where t: "serve_turn K ps ss = (q, ss1)" by (rule prod.exhaust)
  show ?case using serve_turn_errno [OF t] Cons t by (cases q) auto
qed auto

lemma serve_callbacks_errno: "serve_callbacks K cs xals = (r, xals') \<Longrightarrow> r \<noteq> Fail e"
proof (induction K cs xals rule: serve_callbacks.induct)
  case (2 K i p cs xals)
  obtain q y where d: "on_dirty K p (xals ! i) = (q, y)" by (rule prod.exhaust)
  have "q \<noteq> Fail e" using d by (auto simp: on_dirty_def split: prod.splits sum.splits fault.splits)
  then show ?case using 2(1) [OF _ d [symmetric]] 2(2,3) d by (cases q) (auto split: if_splits)
qed auto

lemma serve_errno: "serve os K watch_mode xals = (r, xals') \<Longrightarrow> r \<noteq> Fail e"
  using serve_marks_errno [of K "so_turns os" "map (\<lambda>xal. (xal, new_watch)) xals" _ _ e] serve_callbacks_errno [of K "so_callbacks os" xals r xals' e]
  by (auto simp: serve_def split: if_splits prod.splits)


section \<open>A sample server\<close>

text \<open>Two devices, both on the sample mount.\<close>

definition table :: "(cstring \<times> toml_datum) list \<Rightarrow> cstring \<Rightarrow> toml_datum" where
  "table kvs key = (case map_of kvs key of None \<Rightarrow> TOML_UNKNOWN | Some v \<Rightarrow> v)"

definition demo_toml :: "cstring \<Rightarrow> toml_datum" where
  "demo_toml = table
     [(str ''log_level'', TOML_INT64 4), (str ''xal.watchmode'', TOML_INT64 0),
      (str ''devices'', TOML_ARRAY
         [TOML_TABLE (table [(str ''uri'', TOML_STRING (str ''/dev/x'')), (str ''shm_name'', TOML_STRING (str ''/x'')),
            (str ''mountpoint'', TOML_STRING (str ''/m''))]),
          TOML_TABLE (table [(str ''uri'', TOML_STRING (str ''/dev/y'')), (str ''shm_name'', TOML_STRING (str ''/y'')),
            (str ''mountpoint'', TOML_STRING (str ''/m/''))])])]"

definition demo_conf :: "xal_server_conf res" where
  "demo_conf = xal_server_conf_from_toml True (Some demo_toml)"

lemma demo_conf_ok: "\<not> isl demo_conf"
  by code_simp


text \<open>A mount that has gone: every attempt fails.\<close>

definition gone_kernel :: "unit kernel" where
  "gone_kernel = mount_kernel\<lparr>k_lstat := (\<lambda>_ k. (Inl ENOENT, k))\<rparr>"

definition gone_poll :: "u64 \<Rightarrow> unit poll" where
  "gone_poll t = \<lparr>p_marked = True, p_now = t, p_later = t + 1, p_fuel = 3, p_dfuel = 1, p_kernel = ()\<rparr>"

definition gone_run :: "unit res \<times> (xal \<times> xal_server_watch) list" where
  "gone_run = serve_marks gone_kernel [[gone_poll 100], [gone_poll 105], [gone_poll 120], [gone_poll 200]]
     (map (\<lambda>xal. (xal, new_watch)) [mount_opened])"

lemma gone_backoff: "map (\<lambda>s. w_backoff_ms (snd s)) (snd gone_run) = [40]"
  by code_simp


text \<open>Both devices are published on a mount that is empty, the first is marked and indexed again, and both are taken down.\<close>

definition demo_env :: serve_env where
  "demo_env = \<lparr>e_fuel = 3, e_ifuel = 3, e_dfuel = 1, e_self = 0, e_mounts = Inr []\<rparr>"

definition demo_server_os :: "unit server_os" where
  "demo_server_os = \<lparr>so_parse = (\<lambda>path. if path = str ''c.toml'' then Some demo_toml else None), so_devs = True, so_arrays = True,
     so_signals = [None, None, None, None],
     so_turns = [[gone_poll 0]], so_callbacks = [], so_kernel = ()\<rparr>"

definition bare_kernel :: "unit kernel" where
  "bare_kernel = mount_kernel\<lparr>k_opendir := (\<lambda>_ k. (Inr [], k))\<rparr>"

lemma bare_unlinks: "unlinks (k_os bare_kernel)"
  using mount_unlinks by (simp add: bare_kernel_def)

definition demo_server :: "unit res \<times> shm_names \<times> unit" where
  "demo_server = server_main demo_env demo_server_os bare_kernel [str ''xal_server'', str ''--config'', str ''c.toml'']
     ({str ''/other''}, ())"

lemma demo_server_ok: "\<not> isl (fst demo_server)"
  by code_simp


end
