(* ===== verification/Xal_Cli.thy ===== *)
theory Xal_Cli
  imports Xal_Print Xal_Server Xal_Hashmap
begin

text \<open>
  The command line tool (\<open>src/src/cli.c\<close>): it opens a device, indexes it and prints what the options ask for. The
  theory shows that \<open>--find\<close> lists the file system: a line for every inode, in the order of the paths. The device
  library, the mount table and the kernel are parameters, as for the library.
\<close>

section \<open>Arguments\<close>

record xal_cli_args =
  a_bmap :: bool
  a_find :: bool
  a_meta :: bool
  a_stats :: bool
  a_file_lookup_map :: bool
  a_backend :: "cstring option"
  a_dev_uri :: "cstring option"
  a_filename :: "cstring option"

definition no_args :: xal_cli_args where
  "no_args = \<lparr>a_bmap = False, a_find = False, a_meta = False, a_stats = False, a_file_lookup_map = False,
     a_backend = None, a_dev_uri = None, a_filename = None\<rparr>"

fun parse_opts :: "cstring list \<Rightarrow> xal_cli_args \<Rightarrow> xal_cli_args res" where
  "parse_opts [] args = Ok args"
| "parse_opts (a # as) args =
     (if a = str ''--bmap'' then parse_opts as (args\<lparr>a_bmap := True\<rparr>)
      else if a = str ''--find'' then parse_opts as (args\<lparr>a_find := True\<rparr>)
      else if a = str ''--meta'' then parse_opts as (args\<lparr>a_meta := True\<rparr>)
      else if a = str ''--stats'' then parse_opts as (args\<lparr>a_stats := True\<rparr>)
      else if a = str ''--file_lookup_map'' then parse_opts as (args\<lparr>a_file_lookup_map := True\<rparr>)
      else if a = str ''--backend'' then
        (case as of [] \<Rightarrow> Fail EINVAL | v # as \<Rightarrow> parse_opts as (args\<lparr>a_backend := Some v\<rparr>))
      else if a = str ''--filename'' then
        (case as of [] \<Rightarrow> Fail EINVAL | v # as \<Rightarrow> parse_opts as (args\<lparr>a_filename := Some v\<rparr>))
      else if a_dev_uri args = None then parse_opts as (args\<lparr>a_dev_uri := Some a\<rparr>)
      else Fail EINVAL)"

definition parse_args :: "cstring list \<Rightarrow> xal_cli_args res" where
  "parse_args argv =
     (if length argv < 2 then Fail EINVAL
      else
        bind_res (parse_opts (tl argv) no_args)
          (\<lambda>args. if a_dev_uri args = None then Fail EINVAL else Ok args))"

definition cli_opts :: "xal_cli_args \<Rightarrow> xal_opts res" where
  "cli_opts args =
     bind_res
       (case a_backend args of
          Some b \<Rightarrow>
            if b = str ''xfs'' then Ok XAL_BACKEND_XFS
            else if b = str ''fiemap'' then Ok XAL_BACKEND_FIEMAP
            else Fail EINVAL
        | None \<Rightarrow> Ok (if a_filename args \<noteq> None then XAL_BACKEND_FIEMAP else 0))
       (\<lambda>be. Ok \<lparr>o_be = be, o_watch_mode = XAL_WATCHMODE_NONE,
          o_file_lookupmode = (if a_file_lookup_map args then XAL_FILE_LOOKUPMODE_HASHMAP else XAL_FILE_LOOKUPMODE_TRAVERSE),
          o_mountpoint = None, o_shm_name = None, o_subtree = None\<rparr>)"

section \<open>Printing\<close>

record xal_nodeinspector_args =
  na_ndirs :: u64
  na_nfiles :: u64

text \<open>
  \<open>dev_uri[strlen(dev_uri) - 1]\<close>; for an empty argument the index wraps around to the byte before it, which is the NUL
  that ends the argument before.
\<close>

definition ends_in_slash :: "cstring \<Rightarrow> bool" where
  "ends_in_slash uri \<longleftrightarrow> last (0 # uri) = slash"

text \<open>
  The URI and the path of an inode. The handle is private to the process, so the sequence lock does not change
  while the path is assembled.
\<close>

definition uri_path :: "cstring \<Rightarrow> xal \<Rightarrow> nat \<Rightarrow> cstring" where
  "uri_path uri xal inode =
     uri
     @ (if i_parent (inode_of xal inode) \<noteq> XAL_POOL_IDX_NONE \<and> ends_in_slash uri then [slash] else [])
     @ xal_inode_path_pp (Some xal) (Some inode) (xal_get_seq_lock xal)"

definition unknown_text :: "xal_inode \<Rightarrow> cstring" where
  "unknown_text i = str ''# UNKNOWN('' @ take (unat (i_namelen i)) (i_cname i) @ str '')''"

definition find_visit :: "cstring \<Rightarrow> xal \<Rightarrow> nat \<Rightarrow> xal_nodeinspector_args \<times> cstring \<Rightarrow> nat \<Rightarrow> xal_nodeinspector_args \<times> cstring" where
  "find_visit uri xal inode s level =
     (case s of (args, out) \<Rightarrow>
        let i = inode_of xal inode
        in if xal_inode_is_dir i then (args\<lparr>na_ndirs := na_ndirs args + 1\<rparr>, out @ uri_path uri xal inode @ [newline])
           else if xal_inode_is_file i then (args\<lparr>na_nfiles := na_nfiles args + 1\<rparr>, out @ uri_path uri xal inode @ [newline])
           else (args, out @ unknown_text i))"

definition node_inspector_find :: "cstring \<Rightarrow> (xal_nodeinspector_args \<times> cstring) walk_cb" where
  "node_inspector_find uri = (\<lambda>xal inode s level. (None, xal, find_visit uri xal inode s level))"

text \<open>An extent in sectors; one whose \<open>start_block\<close> is no address has no device range.\<close>

definition extent_line :: "xal \<Rightarrow> xal_extent \<Rightarrow> cstring" where
  "extent_line xal extent =
     (let blocksize = ucast (xal_get_sb_blocksize xal) :: u64;
          fofz_begin = (x_start_offset extent * blocksize) div 512;
          fofz_end = fofz_begin + (x_nblocks extent * blocksize) div 512 - 1;
          bofz_begin = xal_fsbno_offset xal (x_start_block extent) div 512;
          bofz_end = bofz_begin + (x_nblocks extent * blocksize) div 512 - 1
      in str ''- ['' @ dec fofz_begin @ str '', '' @ dec fofz_end @ str '', ''
         @ (if x_flag extent AND XAL_EXTENT_NOADDR \<noteq> 0 then str ''-1, -1'' else dec bofz_begin @ str '', '' @ dec bofz_end)
         @ str '', '' @ dec (x_flag extent) @ str '']'' @ [newline])"

fun extent_lines :: "xal \<Rightarrow> u32 \<Rightarrow> nat list \<Rightarrow> cstring" where
  "extent_lines xal idx [] = []"
| "extent_lines xal idx (i # is) =
     (case xal_extent_at xal (idx + of_nat i) of
        None \<Rightarrow> []
      | Some x \<Rightarrow> extent_line xal (extent_of xal x) @ extent_lines xal idx is)"

definition pp_inode_extents :: "xal \<Rightarrow> xal_inode \<Rightarrow> cstring" where
  "pp_inode_extents xal inode = extent_lines xal (i_idx inode) [0..<unat (i_count inode)]"

definition bmap_visit :: "cstring \<Rightarrow> xal \<Rightarrow> nat \<Rightarrow> xal_nodeinspector_args \<times> cstring \<Rightarrow> nat \<Rightarrow> xal_nodeinspector_args \<times> cstring" where
  "bmap_visit uri xal inode s level =
     (case s of (args, out) \<Rightarrow>
        let i = inode_of xal inode
        in if xal_inode_is_dir i then (args\<lparr>na_ndirs := na_ndirs args + 1\<rparr>, out)
           else if xal_inode_is_file i then
             (args\<lparr>na_nfiles := na_nfiles args + 1\<rparr>,
              out @ str [CHR 0x27] @ uri_path uri xal inode @ str [CHR 0x27, CHR 0x3A]
              @ (if i_count i = 0 then str '' ~'' @ [newline] else newline # pp_inode_extents xal i))
           else (args, out @ unknown_text i))"

definition node_inspector_bmap :: "cstring \<Rightarrow> (xal_nodeinspector_args \<times> cstring) walk_cb" where
  "node_inspector_bmap uri = (\<lambda>xal inode s level. (None, xal, bmap_visit uri xal inode s level))"

section \<open>The process\<close>

text \<open>
  What the process meets: the device library, the mount table, whether memory for the on-disk inodes is there, what
  the stack holds where the counters will be, and the fuel of the loops.
\<close>

record cli_env =
  ce_dev_open :: "cstring \<Rightarrow> errno + xnvme_dev"
  ce_mounts :: "errno + cstring"
  ce_calloc_fails :: bool
  ce_stack :: xal_nodeinspector_args
  ce_self :: nat
  ce_open_fuel :: nat
  ce_index_fuel :: nat
  ce_drain_fuel :: nat
  ce_btree_fuel :: nat
  ce_walk_fuel :: nat

definition cli_index :: "cli_env \<Rightarrow> 'k kernel \<Rightarrow> xnvme_dev \<Rightarrow> xal \<times> 'k \<Rightarrow> unit res \<times> xal \<times> 'k" where
  "cli_index env K dev s =
     (case h_be (fst s) of
        Be_fiemap _ \<Rightarrow> index_device (ce_index_fuel env) (ce_drain_fuel env) K s
      | _ \<Rightarrow> (case xal_index (xal_be_xfs_index (ce_index_fuel env) (ce_btree_fuel env) (dev_env dev)) (fst s) of
               (r, xal) \<Rightarrow> (r, xal, snd s)))"

text \<open>A walk with one of the callbacks from counters that are zero, and a lookup, onto the output so far.\<close>

definition cli_walk ::
  "cli_env \<Rightarrow> xal \<Rightarrow> (xal_nodeinspector_args \<times> cstring) walk_cb \<Rightarrow> xal_nodeinspector_args \<times> cstring
     \<Rightarrow> unit res \<times> xal_nodeinspector_args \<times> cstring" where
  "cli_walk env xal cb s =
     (case xal_walk (ce_walk_fuel env) (Some xal) (xal_get_root xal) (Some cb) (\<lparr>na_ndirs = 0, na_nfiles = 0\<rparr>, snd s) of
        (r, _, s) \<Rightarrow> (r, s))"

definition cli_filename :: "xal \<Rightarrow> cstring \<Rightarrow> xal_nodeinspector_args \<times> cstring \<Rightarrow> unit res \<times> xal_nodeinspector_args \<times> cstring" where
  "cli_filename xal filename s =
     (case xal_get_inode (Some xal) (Some filename) (xal_get_seq_lock xal) of
        Inl f \<Rightarrow> (Inl f, s)
      | Inr inode \<Rightarrow>
          (Ok (), fst s, snd s @ str [CHR 0x27] @ filename @ str [CHR 0x27, CHR 0x3A] @ [newline]
             @ pp_inode_extents xal (inode_of xal inode)))"

definition stats_line :: "xal_nodeinspector_args \<Rightarrow> cstring" where
  "stats_line args = str ''ndirs('' @ dec (na_ndirs args) @ str ''); nfiles('' @ dec (na_nfiles args) @ str '')'' @ [newline]"

definition cli_report ::
  "cli_env \<Rightarrow> xal_cli_args \<Rightarrow> cstring \<Rightarrow> xal \<Rightarrow> cstring \<Rightarrow> unit res \<times> xal_nodeinspector_args \<times> cstring" where
  "cli_report env args uri xal out =
     bind_st (if a_bmap args then cli_walk env xal (node_inspector_bmap uri) (ce_stack env, out) else (Ok (), ce_stack env, out))
       (\<lambda>_ s. bind_st (if a_find args then cli_walk env xal (node_inspector_find uri) s else (Ok (), s))
          (\<lambda>_ s. bind_st (case a_filename args of None \<Rightarrow> (Ok (), s) | Some f \<Rightarrow> cli_filename xal f s)
             (\<lambda>_ s. (Ok (), fst s, if a_stats args then snd s @ stats_line (fst s) else snd s))))"

text \<open>From the open handle to the output; the handle comes back to be closed.\<close>

definition cli_work ::
  "cli_env \<Rightarrow> 'k kernel \<Rightarrow> xnvme_dev \<Rightarrow> xal_cli_args \<Rightarrow> cstring \<Rightarrow> xal \<times> 'k \<Rightarrow> (unit res \<times> cstring) \<times> xal \<times> 'k" where
  "cli_work env K dev args uri s =
     (case (if a_meta args then xal_pp (Some (fst s)) [] else (Ok 0, [])) of
        (Inl f, out) \<Rightarrow> ((Inl f, out), s)
      | (Inr _, out) \<Rightarrow>
          (case xal_dinodes_retrieve (ce_btree_fuel env) (dev_env dev) (ce_calloc_fails env) (fst s) of
             (Inl f, xal) \<Rightarrow> ((Inl f, out), xal, snd s)
           | (Inr _, xal) \<Rightarrow>
               (case cli_index env K dev (xal, snd s) of
                  (Inl f, xal, k) \<Rightarrow> ((Inl f, out), xal, k)
                | (Inr _, xal, k) \<Rightarrow>
                    (case cli_report env args uri xal out of (r, _, out) \<Rightarrow> ((r, out), xal, k)))))"

text \<open>
  What the process returns, what it prints, and the names and the kernel it leaves. A handle that \<open>xal_open()\<close> did not
  set is printed as such and then dereferenced.
\<close>

definition cli_main :: "cli_env \<Rightarrow> 'k kernel \<Rightarrow> cstring list \<Rightarrow> shm_names \<times> 'k \<Rightarrow> (unit res \<times> cstring) \<times> shm_names \<times> 'k" where
  "cli_main env K argv s =
     (case parse_args argv of
        Inl f \<Rightarrow> ((Inl f, []), s)
      | Inr args \<Rightarrow>
          (let uri = (case a_dev_uri args of None \<Rightarrow> [] | Some u \<Rightarrow> u)
           in case ce_dev_open env uri of
                Inl e \<Rightarrow> ((Fail e, []), s)
              | Inr dev \<Rightarrow>
                  (case cli_opts args of
                     Inl f \<Rightarrow> ((Inl f, []), s)
                   | Inr opts \<Rightarrow>
                       (case xal_open (ce_open_fuel env) K (ce_self env) (ce_mounts env) dev opts s of
                          (Inl f, _, s) \<Rightarrow> ((Inl f, []), s)
                        | (Inr None, _, s) \<Rightarrow> ((Inl Undef, if a_meta args then snd (xal_pp None []) else []), s)
                        | (Inr (Some xal), _, ns, k) \<Rightarrow>
                            (case cli_work env K dev args uri (xal, k) of
                               ((r, out), xal, k) \<Rightarrow>
                                 (case r of
                                    Inl Abort \<Rightarrow> ((r, out), ns, k)
                                  | Inl Undef \<Rightarrow> ((r, out), ns, k)
                                  | Inl Out_of_fuel \<Rightarrow> ((r, out), ns, k)
                                  | _ \<Rightarrow> ((r, out), snd (xal_close K (ce_self env) (xal, ns, k)))))))))"

section \<open>What \<open>--find\<close> prints\<close>

definition find_line :: "cstring \<Rightarrow> cstring list \<times> nat \<Rightarrow> cstring" where
  "find_line uri v = uri @ (if fst v \<noteq> [] \<and> ends_in_slash uri then [slash] else []) @ join_path (fst v) @ [newline]"

definition count_kind :: "(xal_inode \<Rightarrow> bool) \<Rightarrow> xal \<Rightarrow> (cstring list \<times> nat) list \<Rightarrow> u64" where
  "count_kind P xal vs = of_nat (length (filter (\<lambda>v. P (inode_of xal (snd v))) vs))"

lemma resolves_parent:
  assumes "index_wf xal" "names_ok xal" "resolves xal 0 cs i"
  shows "i_parent (inode_of xal i) \<noteq> XAL_POOL_IDX_NONE \<longleftrightarrow> cs \<noteq> []"
proof (cases cs rule: rev_cases)
  case Nil
  then show ?thesis using assms by (simp add: index_wf_def root_ok_def)
next
  case (snoc ds c)
  have tree: "tree_ok xal" using assms(1) by (simp add: index_wf_def)
  obtain d where d: "resolves xal 0 ds d" "xal_inode_is_dir (inode_of xal d)" "i \<in> set (children xal d)"
    using assms(3) snoc by (auto simp: resolves_append resolves_Cons)
  have "d < n_inodes xal" using resolves_bound [OF tree d(1)] root_in_pool(3) [OF assms(1)] by simp
  then show ?thesis using child_facts(4) [OF tree assms(2) _ d(2,3)] snoc by simp
qed

lemma uri_path_resolves:
  assumes "index_wf xal" "names_ok xal" "h_index_state xal = XAL_STATE_CLEAN" "\<not> is_odd (h_seq_lock xal)"
    and "resolves xal 0 cs i" "length (join_path cs) \<le> XAL_INODE_PATH_MAXLEN"
  shows "uri_path uri xal i @ [newline] = find_line uri (cs, i)"
proof -
  have tree: "tree_ok xal" using assms(1) by (simp add: index_wf_def)
  have "plain cs" using resolves_plain [OF tree assms(2,5) root_in_pool(3) [OF assms(1)]] .
  then have nul: "0 \<notin> set (join_path cs)" by (rule plain_join_path)
  have "inode_path_assemble xal i [] (XAL_INODE_PATH_MAXLEN + 1) = Ok (join_path cs)"
    using inode_path_assemble_resolves [OF assms(1,2) _ assms(5), of "[]" "XAL_INODE_PATH_MAXLEN + 1"] assms(6) by simp
  then have "xal_inode_path_pp (Some xal) (Some i) (xal_get_seq_lock xal) = join_path cs"
    using assms(3,4) nul by (simp add: xal_inode_path_pp_def xal_is_dirty_def xal_get_seq_lock_def)
  then show ?thesis using resolves_parent [OF assms(1,2,5)] by (simp add: uri_path_def find_line_def)
qed

lemma find_fold:
  assumes "\<forall>v \<in> set vs. (xal_inode_is_dir (inode_of xal (snd v)) \<or> xal_inode_is_file (inode_of xal (snd v)))
      \<and> uri_path uri xal (snd v) @ [newline] = find_line uri v"
  shows "fold (visit (find_visit uri) xal depth) vs (args, out) =
    (\<lparr>na_ndirs = na_ndirs args + count_kind xal_inode_is_dir xal vs, na_nfiles = na_nfiles args + count_kind xal_inode_is_file xal vs\<rparr>,
     out @ concat (map (find_line uri) vs))"
  using assms
proof (induction vs arbitrary: args out)
  case (Cons v vs)
  have excl: "\<not> (xal_inode_is_dir i \<and> xal_inode_is_file i)" for i by (simp add: xal_inode_is_dir_def xal_inode_is_file_def)
  show ?case using Cons excl [of "inode_of xal (snd v)"]
    by (auto simp: visit_def find_visit_def Let_def count_kind_def)
qed (simp add: count_kind_def)

text \<open>
  C40: \<open>--find\<close> on an index that is well-formed and clean prints one line for each inode reachable from the root and no
  other, in the order of the paths: the URI, the path of the inode below the root, a newline, with a further slash
  between them when the URI ends in one. The numbers that \<open>--stats\<close> prints after it are those of the directories and of
  the files among them.
\<close>

theorem find_lists_tree:
  assumes "index_wf xal" "names_ok xal" "h_index_state xal = XAL_STATE_CLEAN" "\<not> is_odd (h_seq_lock xal)"
    and fit: "\<And>cs i. resolves xal 0 cs i \<Longrightarrow> length (join_path cs) \<le> XAL_INODE_PATH_MAXLEN"
    and fuel: "3 * n_inodes xal + 1 \<le> ce_walk_fuel env"
  shows "\<exists>vs. lists_tree xal 0 vs \<and> cli_walk env xal (node_inspector_find uri) (args, out) =
    (Ok (), \<lparr>na_ndirs = count_kind xal_inode_is_dir xal vs, na_nfiles = count_kind xal_inode_is_file xal vs\<rparr>,
     out @ concat (map (find_line uri) vs))"
proof -
  have tree: "tree_ok xal" and root: "0 < n_inodes xal" "xal_inode_is_dir (inode_of xal 0)" "h_root_idx xal = 0"
    using assms(1) by (simp_all add: index_wf_def root_ok_def)
  obtain vs where vs: "lists_tree xal 0 vs" "\<And>d. xal_walk (ce_walk_fuel env) (Some xal) (Some 0) (Some (quiet (find_visit uri))) d
      = (Ok (), Some xal, fold (visit (find_visit uri) xal 0) vs d)"
    using walk_visits [OF tree assms(2-4) root(1), of "find_visit uri"] root(2) fuel by blast
  have "(xal_inode_is_dir (inode_of xal (snd v)) \<or> xal_inode_is_file (inode_of xal (snd v)))
      \<and> uri_path uri xal (snd v) @ [newline] = find_line uri v" if "v \<in> set vs" for v
  proof -
    have r: "resolves xal 0 (fst v) (snd v)" using vs(1) that by (cases v) (simp add: lists_tree_def)
    have "xal_inode_is_dir (inode_of xal (snd v)) \<or> xal_inode_is_file (inode_of xal (snd v))"
      using resolves_kind [OF tree r root(1)] r root(2) by (cases "fst v = []") auto
    then show ?thesis using uri_path_resolves [OF assms(1-4) r fit [OF r], of uri] by simp
  qed
  then have f: "fold (visit (find_visit uri) xal 0) vs (\<lparr>na_ndirs = 0, na_nfiles = 0\<rparr>, out) =
      (\<lparr>na_ndirs = count_kind xal_inode_is_dir xal vs, na_nfiles = count_kind xal_inode_is_file xal vs\<rparr>,
       out @ concat (map (find_line uri) vs))"
    using find_fold [of vs xal uri 0 "\<lparr>na_ndirs = 0, na_nfiles = 0\<rparr>" out] by simp
  have "node_inspector_find uri = quiet (find_visit uri)" by (simp add: node_inspector_find_def quiet_def)
  moreover have "xal_get_root xal = Some 0"
    using root n_inodes_le_allocated [OF tree] by (simp add: xal_get_root_def)
  ultimately show ?thesis using vs f by (auto simp: cli_walk_def)
qed

text \<open>The sample index, listed under the URI of its device.\<close>

definition find_env :: cli_env where
  "find_env = \<lparr>ce_dev_open = (\<lambda>_. Inl EIO), ce_mounts = Inl EIO, ce_calloc_fails = False,
     ce_stack = \<lparr>na_ndirs = 0, na_nfiles = 0\<rparr>, ce_self = 0, ce_open_fuel = 0, ce_index_fuel = 0, ce_drain_fuel = 0,
     ce_btree_fuel = 0, ce_walk_fuel = 13\<rparr>"

theorem find_lists_tree_witness:
  "\<exists>vs. lists_tree sample_xal 0 vs \<and> cli_walk find_env sample_xal (node_inspector_find (str ''/dev/x'')) (ce_stack find_env, []) =
    (Ok (), \<lparr>na_ndirs = count_kind xal_inode_is_dir sample_xal vs, na_nfiles = count_kind xal_inode_is_file sample_xal vs\<rparr>,
     concat (map (find_line (str ''/dev/x'')) vs))"
proof -
  have fit: "length (join_path cs) \<le> XAL_INODE_PATH_MAXLEN" if "resolves sample_xal 0 cs i" for cs i
    using sample_paths_fit [OF that] by (simp add: path_of_def split: if_splits)
  have fuel: "3 * n_inodes sample_xal + 1 \<le> ce_walk_fuel find_env" by (simp add: find_env_def)
  show ?thesis using find_lists_tree [OF sample_wf sample_names sample_clean fit fuel, where uri = "str ''/dev/x''" and out = "[]"]
    by simp
qed

end
