(* ===== verification/Spec2Isabelle.thy ===== *)
theory Spec2Isabelle
  imports Xal_Xfs_Correct Xal_Fiemap_Fds Xal_Cli
begin

text \<open>
  \<^bold>\<open>A verification development of xal\<close>

  xal keeps an index of a file system in memory: the tree of directories and files with the extents of every file, so
  that a program can find where the blocks of a path lie on the device. This development models the library, its
  command line tool and its index server, and proves what makes an index trustworthy.

  \<^bold>\<open>The program.\<close> A handle (\<open>struct xal\<close>) owns two pools of elements, inodes and extents (\<open>src/src/xal_pool.c\<close>). A
  backend fills them: the XFS backend decodes the device (\<open>src/src/xal_be_xfs.c\<close>), the FIEMAP backend walks the mounted
  file system (\<open>src/src/xal_be_fiemap.c\<close>) and may watch it (\<open>src/src/xal_be_fiemap_inotify.c\<close>). Readers look paths up,
  print paths and walk the tree (\<open>src/src/xal.c\<close>) without locks, guarded by a state word and a sequence lock. The pools
  and the two words may be in shared memory: a primary process builds, secondary processes attach. The command line
  tool (\<open>src/src/cli.c\<close>) prints an index, the server (\<open>src/tools/xal-server\<close>) publishes one for each device and rebuilds
  it when it is out of date.

  \<^bold>\<open>The theories\<close>, in the order of their imports:

  \<^item> \<open>Xal_Prelude\<close>: words, errors as values (\<open>fault + 'a\<close>: an error number, a failed assertion, undefined behaviour, fuel
    used up), byte strings, \<open>bsearch()\<close> and \<open>qsort()\<close> with the locale \<open>three_way\<close> of their comparison functions.
  \<^item> \<open>Xal_Pool\<close>: the pools (\<open>xal_pool.c\<close>), with the locale \<open>pool_claim\<close> interpreted for both claim functions.
  \<^item> \<open>Xal_Types\<close>, \<open>Xal_Extent\<close>: the structures of \<open>libxal.h\<close> and \<open>xal.h\<close> as records, the accessors, and the address
    arithmetic and extent formats at the width of the code.
  \<^item> \<open>Xal_Lookup\<close>, \<open>Xal_Path\<close>, \<open>Xal_Walk\<close>: what readers do (\<open>xal.c\<close>). \<open>Xal_Lookup\<close> states when an index is well formed
    (\<open>index_wf\<close>) and what a path resolves to (\<open>resolves\<close>); the lookups, the paths written and the walks are exactly
    that relation.
  \<^item> \<open>Xal_State\<close>: \<open>xal_index()\<close>, the state word and the sequence lock; a step relation with every atomic access of
    indexers, markers and readers as a step, invariants by rule induction, and the contract of a backend as the locale
    \<open>index_backend\<close>.
  \<^item> \<open>Xal_Build\<close>: what building a directory does to the pool, for both backends.
  \<^item> \<open>Xal_Xfs_Disk\<close>, \<open>Xal_Xfs_Index\<close>, \<open>Xal_Xfs_Correct\<close>: the XFS backend: reading, the inode B+tree, every form of
    directory and file, and the proof that a rebuild leaves a well-formed index whatever the device returned.
  \<^item> \<open>Xal_Kernel\<close>, \<open>Xal_Reflink\<close>, \<open>Xal_Inotify\<close>, \<open>Xal_Fiemap\<close>: the system calls, the path map and the clones, the
    watcher, and the walk of the FIEMAP backend. \<open>Xal_Fiemap_Correct\<close>, \<open>Xal_Fiemap_Files\<close>, \<open>Xal_Fiemap_Fds\<close> and
    \<open>Xal_Fiemap_Frame\<close> prove that it leaves a well-formed index, records the extents the kernel reports, leaves no file
    descriptor open, and keeps the identity of the handle; the locale \<open>walk_frame\<close> has the induction over the walk.
  \<^item> \<open>Xal_Hashmap\<close>: building the path map from an index, and its agreement with the search.
  \<^item> \<open>Xal_Open\<close>, \<open>Xal_Shm\<close>, \<open>Xal_Open_Correct\<close>: \<open>xal_open()\<close>, \<open>xal_open_from_uri()\<close>, \<open>xal_close()\<close>, the mount table, the
    shared state region and \<open>xal_from_shm()\<close>; what a failed opening and a close leave behind, and that a secondary reads
    what the primary has.
  \<^item> \<open>Xal_Print\<close>: the printers of \<open>src/src/pp.c\<close>. \<open>Xal_Cli\<close>: the command line tool. \<open>Xal_Server\<close>: the index server.
  \<^item> This theory has the property that spans them: open, index, attach, look up.

  \<^bold>\<open>How the model corresponds to the code.\<close> A function of the code is a definition of the same name; a loop or a branch
  of a long function is a definition of its own that the function is composed of. A pointer into a pool is the index of
  the element. State is passed explicitly: the handle, or the handle with the kernel, or with the names of the shared
  memory objects too. Every early return, failed assertion and undefined operation is a branch. Code outside the
  repository is a parameter: the kernel (a record of calls over a state of any type, so that a theorem without a
  hypothesis on it holds whatever other processes do meanwhile), the device (\<open>xfs_env\<close>, \<open>xnvme_dev\<close>), the operating
  system under the pools (\<open>pool_os\<close>, \<open>attach_os\<close>), and the parsed configuration. Where another thread may change the
  sequence lock between two reads, the second value is a parameter.

  \<^bold>\<open>What is proved.\<close> Lookup, path and walk agree with \<open>resolves\<close> and with each other, and return only inodes that are
  typed; a reader that is overtaken by a rebuild is told so and never leaves the pool; at most one rebuild runs, and a
  mark that arrives during one survives it. Both backends leave a well-formed and clean index or a dirty one. Extent
  records, inode numbers and addresses are decoded as the format packs them. Opening makes all its shared memory objects
  or none, closing removes exactly those of a primary, and the server leaves none behind whatever fails. The path map
  equals the search. The watcher loses no event, calls back once for a version, and has at most one thread. An accepted
  server configuration is within bounds, and the server's pauses are. The tool's \<open>--find\<close> lists the tree.

  \<^bold>\<open>Fuel.\<close> Recursion whose depth the data decides is counted by fuel, and running out of it is a value of its own,
  never a success. The walk needs three units an inode and one more (\<open>xal_walk_visits\<close>); the path map and the printing
  of an inode need as many levels as the pool has inodes (\<open>hashmap_built\<close>, \<open>inode_pp_ends\<close>); the XFS tree needs no more
  levels than the pool has elements (\<open>xfs_index_depth\<close>); draining the event queue needs one unit a read until the queue is
  empty (\<open>drain_empties\<close>). The descent into a mounted file system and into a B+tree on disk has no bound in the code: the
  theorems about them hold for every fuel with which the model returns a result.

  \<^bold>\<open>Not modelled.\<close> \<open>src/tp/khash.h\<close> is third-party code, taken for a map whose growth may fail. \<open>src/src/utils.c\<close>,
  \<open>inotify_event_mask_pp()\<close> and the debug macro only format messages; messages to standard error and the system log are
  left out everywhere. Freeing of memory is left out, so a leak or a double free is outside the model; the leaks that were
  seen are listed with the findings. The remaining programs under \<open>src/tools\<close> are test and demonstration programs on the
  public interface. The watch thread and the indexers interleave at the points the step relations name, under sequential
  consistency, which is what the atomic operations of the code ask for.
\<close>

section \<open>An index from end to end\<close>

lemma opened_ready: "opened_handle opts xal \<Longrightarrow> pool_ready xal"
  by (simp add: opened_handle_def pools_opened_def fresh_pool_def pool_ready_def)

lemma kept_shared:
  assumes "handle_kept p q" "opened_handle opts p" "o_shm_name opts = Some nm"
  shows "shared_pools (with_map q None)"
  using assms by (simp add: handle_kept_def pool_kept_def opened_handle_def pools_opened_def fresh_pool_def shared_pools_def
      with_map_def)

lemma kept_identity:
  assumes "handle_kept p q" "is_fiemap p"
  shows "same_identity p (with_map q None)" "is_fiemap q" "by_traversal (with_map q None)"
  using assms by (auto simp: handle_kept_def be_kept_def same_identity_def is_fiemap_def with_map_def set_fbe_def fbe_of_def
      by_traversal_def split: xal_be.splits)

lemma offers_with_map: "offers objs nm st (with_map q None) = offers objs nm st q"
  by (simp add: offers_def region_of_def with_map_def set_fbe_def)


text \<open>The first indexing of the sample mount, and the objects that are shared then.\<close>

definition mount_indexed :: "unit res \<times> xal" where
  "mount_indexed = xal_index (fiemap_be_index 3 1 mount_kernel ()) mount_opened"

lemma mount_index_run: "xal_index (fiemap_be_index 3 1 mount_kernel ()) mount_opened = (Ok (), snd mount_indexed)"
proof -
  have "fst mount_indexed = Ok ()" by code_simp
  then show ?thesis by (simp add: mount_indexed_def prod_eq_iff)
qed

lemma mount_base: "basepath_of (snd mount_indexed) = str ''/m''"
  using xal_index_kept [OF mount_index_run]
  by (auto simp: handle_kept_def be_kept_def basepath_of_def mount_opened_def new_cand_def no_be_fiemap_def split: xal_be.splits)

definition mount_objects :: shm_objects where
  "mount_objects =
     \<lparr>so_state = [str ''/x_state'' \<mapsto> (SHARED_STATE_NBYTES, region_of (published_state mount_opened [] XAL_BACKEND_FIEMAP) (snd mount_indexed))],
      so_inodes = [str ''/x_inodes'' \<mapsto> (reserved (h_inodes (snd mount_indexed)) * XAL_INODE_NBYTES, inode_of (snd mount_indexed))],
      so_extents = [str ''/x_extents'' \<mapsto> (reserved (h_extents (snd mount_indexed)) * XAL_EXTENT_NBYTES, extent_of (snd mount_indexed))]\<rparr>"

lemma mount_names: "dirents_ok mount_kernel"
  using demo_dirents [where 'a = unit] by (simp add: dirents_ok_def mount_kernel_def)

lemma mount_root: "xal_inode_is_dir (inode_of (snd mount_indexed) 0)"
proof -
  have "pool_ready mount_opened" by (simp add: mount_opened_def fresh_shared_def pool_ready_def pool_inv_def pool_fresh_def)
  then show ?thesis using index_fiemap_result [OF _ mount_index_run] by (simp add: index_wf_def root_ok_def)
qed


end
